(* ===== verification/Go_Prelude.thy ===== *)
theory Go_Prelude
  imports Main "HOL-Library.AList" "HOL-Library.Char_ord" "HOL-Library.List_Lexorder"
begin

text \<open>
  The shared vocabulary of the development: Go error values with \<open>errors.Is\<close>, results of
  fallible calls, Go maps as association lists, the functions of the \<open>strings\<close> package that
  the sources call, and the generic lemmas on them that the component theories use.

  A Go string is a byte string, here a list of characters; the order on strings is the
  byte-wise lexicographic order of the library's list order. A Go map is an association list
  whose keys are distinct; iterating over it visits its entries in list order, and since no
  theorem fixes that order beyond what an operation of the program produced, a statement about
  every map covers every iteration order Go may choose.
\<close>

named_theorems go_defs \<open>definitions of the modelled operations\<close>

section \<open>Errors\<close>

text \<open>
  \<open>Errorf f args\<close> is \<open>fmt.Errorf(f, args...)\<close> without a wrapped error, \<open>Wrapf f args e\<close> one that
  wraps \<open>e\<close> with the verb \<open>%w\<close>, and the other constructors are the sentinel errors of the
  packages; the arguments are the strings of the message, numbers are left out.
  \<open>ExternalError\<close> is an error value made by code outside the repository.
\<close>

datatype goerror =
    Errorf String.literal "string list"
  | Wrapf String.literal "string list" goerror
  | ExternalError String.literal
  | ErrLastHolder
  | ErrInvalidTuplePageLimit
  | ErrInvalidTuplePageCursor
  | ErrTuplePageUnsupported
  | ErrNotTransactional
  | ErrNotReplaceable
  | ErrTenantServingRestricted
  | ErrTenantServingLeaseUnavailable
  | ErrTenantServingScopeMismatch
  | ErrInvalidPolicyDecision
  | ErrStale
  | ErrAccessDenied
  | ErrStreamMalformed
  | ErrStreamIntegrity
  | ErrStreamSequence
  | ErrStreamTruncated
  | ErrDPoPMissing
  | ErrDPoPMalformed
  | ErrDPoPSignature
  | ErrDPoPMethodMismatch
  | ErrDPoPURIMismatch
  | ErrDPoPStale
  | ErrDPoPReplay
  | ErrDPoPJKTMismatch
  | ErrDPoPATHMismatch
  | ErrDPoPReplayBackend
  | ErrTokenTypeMismatch
  | ErrInvalidEmail

text \<open>\<open>errors.Is\<close> against a sentinel: the error itself or one it wraps.\<close>

fun errors_Is :: "goerror \<Rightarrow> goerror \<Rightarrow> bool" where
  "errors_Is (Wrapf f args e) target = (Wrapf f args e = target \<or> errors_Is e target)"
| "errors_Is e target = (e = target)"

lemma errors_Is_refl [simp]: "errors_Is e e"
  by (cases e) simp_all

type_synonym 'a res = "goerror + 'a"

section \<open>Strings\<close>

text \<open>
  \<open>cut c s\<close> is \<open>strings.Cut(s, string(c))\<close>: the text before the first \<open>c\<close>, the text after it
  and whether it was found. \<open>strings.SplitN(s, sep, 2)\<close> and \<open>strings.Index\<close> on a one-byte
  separator are read off it.
\<close>

fun cut :: "'a \<Rightarrow> 'a list \<Rightarrow> 'a list \<times> 'a list \<times> bool" where
  "cut c [] = ([], [], False)"
| "cut c (x # xs) =
     (if x = c then ([], xs, True)
      else (case cut c xs of (b, a, f) \<Rightarrow> (x # b, a, f)))"

lemma cut_append: "c \<notin> set b \<Longrightarrow> cut c (b @ c # a) = (b, a, True)"
  by (induction b) auto

lemma cut_absent: "c \<notin> set s \<Longrightarrow> cut c s = (s, [], False)"
  by (induction s) auto

lemma cut_found:
  assumes "cut c s = (b, a, True)"
  shows "s = b @ c # a \<and> c \<notin> set b"
  using assms by (induction c s arbitrary: b rule: cut.induct) (auto split: if_splits prod.splits)

lemma cut_not_found:
  assumes "cut c s = (b, a, False)"
  shows "b = s \<and> a = [] \<and> c \<notin> set s"
  using assms by (induction c s arbitrary: b rule: cut.induct) (auto split: if_splits prod.splits)

lemma cut_before_free: "cut c s = (b, a, f) \<Longrightarrow> c \<notin> set b"
  by (cases f) (auto dest: cut_found cut_not_found)

text \<open>Two strings joined at a separator that the left parts do not hold split uniquely.\<close>

lemma sep_inject:
  assumes "c \<notin> set b" and "c \<notin> set b'"
  shows "b @ c # a = b' @ c # a' \<longleftrightarrow> b = b' \<and> a = a'"
proof
  assume eq: "b @ c # a = b' @ c # a'"
  show "b = b' \<and> a = a'"
    using cut_append [OF assms(1), of a] cut_append [OF assms(2), of a'] unfolding eq by simp
qed simp

section \<open>Go maps\<close>

text \<open>\<open>m[k] = v\<close> is \<open>AList.update k v m\<close>, \<open>delete(m, k)\<close> is \<open>AList.delete k m\<close> and
  \<open>v, ok := m[k]\<close> is \<open>map_of m k\<close>.\<close>

abbreviation go_map :: "('k \<times> 'v) list \<Rightarrow> bool" where
  "go_map m \<equiv> distinct (map fst m)"

lemma go_map_update [simp, intro]: "go_map m \<Longrightarrow> go_map (AList.update k v m)"
  by (rule distinct_update)

lemma go_map_delete [simp, intro]: "go_map m \<Longrightarrow> go_map (AList.delete k m)"
  by (rule distinct_delete)

lemma go_map_mem: "go_map m \<Longrightarrow> (k, v) \<in> set m \<longleftrightarrow> map_of m k = Some v"
  by (simp add: map_of_eq_Some_iff)

lemma map_of_update: "map_of (AList.update k v m) = (map_of m)(k \<mapsto> v)"
  by (simp add: update_conv')

lemma map_of_delete: "map_of (AList.delete k m) = (map_of m)(k := None)"
  by (simp add: delete_conv')

lemmas go_map_simps = map_of_update map_of_delete

lemma map_of_Some_mem: "map_of m k = Some v \<Longrightarrow> (k, v) \<in> set m"
  by (rule map_of_SomeD)

lemma set_update_go:
  fixes m :: "('k \<times> 'v) list"
  assumes "go_map m"
  shows "set (AList.update k v m) = insert (k, v) {p \<in> set m. fst p \<noteq> k}"
proof (rule set_eqI)
  fix p :: "'k \<times> 'v"
  obtain a b where p: "p = (a, b)" by (cases p)
  have "(a, b) \<in> set (AList.update k v m) \<longleftrightarrow> map_of (AList.update k v m) a = Some b"
    using assms by (intro go_map_mem go_map_update)
  also have "\<dots> \<longleftrightarrow> (a, b) = (k, v) \<or> (a \<noteq> k \<and> map_of m a = Some b)"
    by (auto simp: map_of_update)
  also have "\<dots> \<longleftrightarrow> (a, b) \<in> insert (k, v) {p \<in> set m. fst p \<noteq> k}"
    using assms by (simp only: go_map_mem [symmetric]) auto
  finally show "p \<in> set (AList.update k v m) \<longleftrightarrow> p \<in> insert (k, v) {p \<in> set m. fst p \<noteq> k}"
    by (simp only: p)
qed

lemma set_delete_go: "set (AList.delete k m) = {p \<in> set m. fst p \<noteq> k}"
  by (auto simp: AList.delete_eq)

text \<open>Two maps built entry by entry from one another are related at every key.\<close>

definition entrywise :: "('k \<Rightarrow> 'v \<Rightarrow> 'w \<Rightarrow> bool) \<Rightarrow> ('k \<times> 'v) list \<Rightarrow> ('k \<times> 'w) list \<Rightarrow> bool" where
  "entrywise R = list_all2 (\<lambda>p q. fst q = fst p \<and> R (fst p) (snd p) (snd q))"

lemma entrywise_Nil [simp]: "entrywise R [] ys \<longleftrightarrow> ys = []"
  by (simp add: entrywise_def)

lemma entrywise_Cons [simp]:
  "entrywise R ((k, v) # xs) ys \<longleftrightarrow> (\<exists>w ys'. ys = (k, w) # ys' \<and> R k v w \<and> entrywise R xs ys')"
  by (fastforce simp: entrywise_def list_all2_Cons1)

lemma entrywise_fst: "entrywise R xs ys \<Longrightarrow> map fst ys = map fst xs"
proof (induction xs arbitrary: ys)
  case (Cons p xs)
  then show ?case by (cases p) auto
qed simp

lemma entrywise_map_of: "entrywise R xs ys \<Longrightarrow> rel_option (R k) (map_of xs k) (map_of ys k)"
proof (induction xs arbitrary: ys)
  case (Cons p xs)
  then show ?case by (cases p) auto
qed simp

lemma entrywise_lookup_None:
  assumes "entrywise R xs ys" shows "map_of ys k = None \<longleftrightarrow> map_of xs k = None"
  using entrywise_map_of [OF assms, of k] by (cases "map_of xs k"; cases "map_of ys k") auto

subsection \<open>Maps of maps\<close>

text \<open>
  The two-level indexes \<open>map[string]map[string]V\<close>: \<open>put2\<close> makes the inner map on first use,
  \<open>del2\<close> drops an inner map that became empty, \<open>get2\<close> is the nested lookup and \<open>vals2\<close> the values
  in iteration order.
\<close>

type_synonym ('k, 'v) map2 = "('k \<times> ('k \<times> 'v) list) list"

definition inner :: "'k \<Rightarrow> ('k, 'v) map2 \<Rightarrow> ('k \<times> 'v) list" where
  "inner k m = (case map_of m k of None \<Rightarrow> [] | Some b \<Rightarrow> b)"

definition put2 :: "'k \<Rightarrow> 'k \<Rightarrow> 'v \<Rightarrow> ('k, 'v) map2 \<Rightarrow> ('k, 'v) map2" where
  "put2 k i v m = AList.update k (AList.update i v (inner k m)) m"

definition del2 :: "'k \<Rightarrow> 'k \<Rightarrow> ('k, 'v) map2 \<Rightarrow> ('k, 'v) map2" where
  "del2 k i m =
     (case map_of m k of
        None \<Rightarrow> m
      | Some b \<Rightarrow>
          (let b' = AList.delete i b in
           if b' = [] then AList.delete k m else AList.update k b' m))"

definition get2 :: "('k, 'v) map2 \<Rightarrow> 'k \<Rightarrow> 'k \<Rightarrow> 'v option" where
  "get2 m k i = map_of (inner k m) i"

definition vals2 :: "('k, 'v) map2 \<Rightarrow> 'v list" where
  "vals2 m = concat (map (\<lambda>p. map snd (snd p)) m)"

definition map2_ok :: "('k, 'v) map2 \<Rightarrow> bool" where
  "map2_ok m \<longleftrightarrow> go_map m \<and> (\<forall>p \<in> set m. go_map (snd p) \<and> snd p \<noteq> [])"

lemma map2_ok_Nil [simp]: "map2_ok []"
  by (simp add: map2_ok_def)

lemma get2_Nil [simp]: "get2 [] k i = None"
  by (simp add: get2_def inner_def)

lemma vals2_Nil [simp]: "vals2 [] = []"
  by (simp add: vals2_def)

lemma get2_put2: "get2 (put2 k i v m) k' i' = (if k' = k \<and> i' = i then Some v else get2 m k' i')"
  by (simp add: get2_def put2_def inner_def map_of_update)

lemma get2_del2: "get2 (del2 k i m) k' i' = (if k' = k \<and> i' = i then None else get2 m k' i')"
proof (cases "map_of m k")
  case None
  then show ?thesis by (simp add: get2_def del2_def inner_def)
next
  case (Some b)
  show ?thesis
  proof (cases "AList.delete i b = []")
    case True
    have "map_of b i' = None" if "i' \<noteq> i" for i'
      using fun_cong [OF map_of_delete [of i b], of i'] that by (simp add: True)
    with Some True show ?thesis
      by (simp add: get2_def del2_def inner_def map_of_delete)
  next
    case False
    with Some show ?thesis
      by (simp add: get2_def del2_def inner_def map_of_update map_of_delete)
  qed
qed

lemmas map2_simps [simp] = get2_put2 get2_del2

lemma go_map_inner: "map2_ok m \<Longrightarrow> go_map (inner k m)"
  by (auto simp: map2_ok_def inner_def split: option.split dest!: map_of_Some_mem)

lemma update_neq_Nil [simp]: "AList.update k v m \<noteq> []"
  by (cases m) auto

lemma map2_ok_put2 [simp]: "map2_ok m \<Longrightarrow> map2_ok (put2 k i v m)"
  using go_map_inner [of m k] by (auto simp: map2_ok_def put2_def set_update_go)

lemma map2_ok_del2 [simp]: "map2_ok m \<Longrightarrow> map2_ok (del2 k i m)"
  by (auto simp: map2_ok_def del2_def set_update_go set_delete_go Let_def split: option.split
      dest!: map_of_Some_mem)

lemma set_vals2: "map2_ok m \<Longrightarrow> set (vals2 m) = {v. \<exists>k i. get2 m k i = Some v}"
proof (intro set_eqI iffI)
  fix v assume ok: "map2_ok m" and "v \<in> set (vals2 m)"
  then obtain k b i where kb: "(k, b) \<in> set m" and iv: "(i, v) \<in> set b" by (force simp: vals2_def)
  from ok kb have "map_of m k = Some b" by (simp add: map2_ok_def)
  moreover from ok kb iv have "map_of b i = Some v" by (force simp: map2_ok_def)
  ultimately have "get2 m k i = Some v" by (simp add: get2_def inner_def)
  then show "v \<in> {v. \<exists>k i. get2 m k i = Some v}" by blast
next
  fix v assume "v \<in> {v. \<exists>k i. get2 m k i = Some v}"
  then obtain k i where ki: "map_of (inner k m) i = Some v" by (auto simp: get2_def)
  then obtain b where "map_of m k = Some b" and "map_of b i = Some v"
    by (cases "map_of m k") (auto simp: inner_def)
  then have "(k, b) \<in> set m" and "(i, v) \<in> set b" by (auto dest: map_of_Some_mem)
  then show "v \<in> set (vals2 m)" by (force simp: vals2_def)
qed

section \<open>Text\<close>

text \<open>
  The package \<open>strings\<close> on ASCII text: \<open>ToLower\<close>, \<open>TrimSpace\<close> and \<open>EqualFold\<close>; and \<open>net.SplitHostPort\<close>,
  which is \<open>None\<close> for an address without a port, with too many colons, or with misplaced brackets.
\<close>

definition asciiLower :: "string \<Rightarrow> string" where
  "asciiLower = map (\<lambda>c. if of_char c \<ge> (65 :: nat) \<and> of_char c \<le> (90 :: nat) then char_of (of_char c + (32 :: nat)) else c)"

definition asciiSpace :: "char \<Rightarrow> bool" where
  "asciiSpace c \<longleftrightarrow> c \<in> {CHR '' '', CHR 0x09, CHR 0x0A, CHR 0x0B, CHR 0x0C, CHR 0x0D}"

definition asciiTrim :: "string \<Rightarrow> string" where
  "asciiTrim s = rev (dropWhile asciiSpace (rev (dropWhile asciiSpace s)))"

definition asciiFold :: "string \<Rightarrow> string \<Rightarrow> bool" where
  "asciiFold s t \<longleftrightarrow> asciiLower s = asciiLower t"

definition SplitHostPort :: "string \<Rightarrow> (string \<times> string) option" where
  "SplitHostPort hostport =
     (let port = rev (takeWhile (\<lambda>c. c \<noteq> CHR '':'') (rev hostport));
          i = length hostport - length port - 1;
          bracket = takeWhile (\<lambda>c. c \<noteq> CHR '']'') hostport
      in if CHR '':'' \<notin> set hostport then None
         else if hd hostport = CHR ''[''
         then (if length bracket + 1 \<noteq> i \<or> CHR ''['' \<in> set (drop 1 hostport) \<or> CHR '']'' \<in> set (drop (length bracket + 1) hostport)
               then None else Some (drop 1 bracket, port))
         else if CHR '':'' \<in> set (take i hostport) \<or> CHR ''['' \<in> set hostport \<or> CHR '']'' \<in> set hostport
         then None else Some (take i hostport, port))"

text \<open>\<open>strings.Join\<close>.\<close>

fun joinWith :: "string \<Rightarrow> string list \<Rightarrow> string" where
  "joinWith sep [] = []"
| "joinWith sep [x] = x"
| "joinWith sep (x # xs) = x @ sep @ joinWith sep xs"

section \<open>Loops over slices\<close>

text \<open>
  A loop that returns at the first error: \<open>for _, x := range xs { if err := f(x); err != nil {
  return err } }\<close>.
\<close>

fun first_err :: "('a \<Rightarrow> goerror option) \<Rightarrow> 'a list \<Rightarrow> goerror option" where
  "first_err f [] = None"
| "first_err f (x # xs) = (case f x of Some e \<Rightarrow> Some e | None \<Rightarrow> first_err f xs)"

lemma then_err_None: "(case eo of Some e \<Rightarrow> Some e | None \<Rightarrow> r) = None \<longleftrightarrow> eo = None \<and> r = None"
  by (simp split: option.split)

lemma first_err_None: "first_err f xs = None \<longleftrightarrow> (\<forall>x \<in> set xs. f x = None)"
  by (induction xs) (auto split: option.splits)

lemma first_err_Some: "first_err f xs = Some e \<Longrightarrow> \<exists>x \<in> set xs. f x = Some e"
  by (induction xs) (auto split: option.splits)

text \<open>A loop over a map built entry by entry from another one, read off the other one.\<close>

lemma first_err_entrywise:
  assumes "entrywise R xs ys"
    and "\<And>k v w. R k v w \<Longrightarrow> f (k, w) = None \<longleftrightarrow> P (k, v)"
  shows "first_err f ys = None \<longleftrightarrow> (\<forall>p \<in> set xs. P p)"
  using assms(1)
proof (induction xs arbitrary: ys)
  case (Cons p xs)
  obtain k v where p: "p = (k, v)" by (cases p)
  with Cons.prems obtain w rest where "ys = (k, w) # rest" "R k v w" "entrywise R xs rest" by auto
  with Cons.IH [of rest] assms(2) [of k v w] show ?case
    by (cases "f (k, w)") (simp_all add: p)
qed simp

text \<open>The same loop threading a state through the calls.\<close>

fun first_err_st :: "('a \<Rightarrow> 's \<Rightarrow> goerror option \<times> 's) \<Rightarrow> 'a list \<Rightarrow> 's \<Rightarrow> goerror option \<times> 's" where
  "first_err_st f [] s = (None, s)"
| "first_err_st f (x # xs) s =
     (case f x s of (Some e, s') \<Rightarrow> (Some e, s') | (None, s') \<Rightarrow> first_err_st f xs s')"

lemma first_err_st_inv:
  assumes "\<And>x s. x \<in> set xs \<Longrightarrow> P s \<Longrightarrow> P (snd (f x s))" and "P s"
  shows "P (snd (first_err_st f xs s))"
  using assms
proof (induction xs arbitrary: s)
  case (Cons x xs)
  have "P (snd (f x s))" using Cons.prems by simp
  then show ?case using Cons by (cases "f x s") (auto split: option.splits)
qed simp

end
