(* ===== verification/Zanzibar_Model.thy ===== *)
theory Zanzibar_Model
  imports Go_Prelude
begin

text \<open>
  The authorization model of \<open>zanzibar/model\<close>: the compiled model and its tuples
  (\<open>types.go\<close>), the compiler from the decoded YAML document (\<open>compiler.go\<close>) and the tuple
  validator (\<open>validate.go\<close>). The YAML decoder itself (\<open>gopkg.in/yaml.v3\<close>) is the parameter
  \<open>unmarshal\<close> of \<open>Compile\<close>.
\<close>

section \<open>Types\<close>

record FromLookup =
  From :: string
  Lookup :: string

record RewriteRule =
  Direct :: bool
  ComputedRelation :: string
  FromLookup :: "FromLookup option"

record RelationDef =
  RelName :: string
  DirectTypes :: "string list"
  Rewrites :: "RewriteRule list"
  MinHolders :: int

record TypeDef =
  TypeName :: string
  Relations :: "(string \<times> RelationDef) list"

record Model =
  Version :: string
  Types :: "(string \<times> TypeDef) list"

record Tuple =
  ObjectType :: string
  ObjectID :: string
  Relation :: string
  UserType :: string
  UserID :: string
  UserRelation :: string

record TupleFilter =
  fObjectType :: string
  fObjectID :: string
  fRelation :: string
  fUserType :: string
  fUserID :: string
  fUserRelation :: string

definition UserKey :: "Tuple \<Rightarrow> string" where
  "UserKey t =
     (let key = UserType t @ '':'' @ UserID t in
      if UserRelation t \<noteq> [] then key @ ''#'' @ UserRelation t else key)"

definition ObjectKey :: "Tuple \<Rightarrow> string" where
  "ObjectKey t = ObjectType t @ '':'' @ ObjectID t"

section \<open>The YAML document\<close>

record yamlUnionEntry =
  yRelation :: string
  yFrom :: string
  yLookup :: string

record yamlRelationDef =
  yTypes :: "string list"
  yUnion :: "yamlUnionEntry list"
  yRequired :: bool

record yamlTypeDefinition =
  yRelations :: "(string \<times> yamlRelationDef) list"

record yamlModel =
  yVersion :: string
  ymTypes :: "(string \<times> yamlTypeDefinition) list"

text \<open>
  A YAML node as \<open>UnmarshalYAML\<close> sees it: a scalar with its text, a mapping with what
  \<open>value.Decode\<close> into a \<open>map[string]string\<close> answers, or any other kind of node.
\<close>

datatype yamlNode = ScalarNode string | MappingNode "(string \<times> string) list res" | OtherNode

definition go_index :: "(string \<times> string) list \<Rightarrow> string \<Rightarrow> string" where
  "go_index m k = (case map_of m k of None \<Rightarrow> [] | Some v \<Rightarrow> v)"

fun UnmarshalYAML :: "yamlUnionEntry \<Rightarrow> yamlNode \<Rightarrow> yamlUnionEntry res" where
  "UnmarshalYAML e (ScalarNode v) = Inr (e\<lparr>yRelation := v\<rparr>)"
| "UnmarshalYAML e (MappingNode (Inl err)) = Inl err"
| "UnmarshalYAML e (MappingNode (Inr m)) =
     (let e' = e\<lparr>yFrom := go_index m ''from'', yLookup := go_index m ''lookup''\<rparr> in
      if yFrom e' = [] \<or> yLookup e' = []
      then Inl (Errorf STR ''from/lookup entry requires both 'from' and 'lookup' fields'' [])
      else Inr e')"
| "UnmarshalYAML e OtherNode = Inl (Errorf STR ''union entry must be a string or {from, lookup} map'' [])"

section \<open>The compiler\<close>

definition directRule :: RewriteRule where
  "directRule = \<lparr>Direct = True, ComputedRelation = [], FromLookup = None\<rparr>"

text \<open>One iteration of the loop over \<open>raw.Union\<close>: the rules it appends.\<close>

definition compileUnionEntry :: "yamlUnionEntry \<Rightarrow> RewriteRule list" where
  "compileUnionEntry entry =
     (if yFrom entry \<noteq> []
      then [\<lparr>Direct = False, ComputedRelation = [],
             FromLookup = Some \<lparr>From = yFrom entry, Lookup = yLookup entry\<rparr>\<rparr>]
      else if yRelation entry \<noteq> []
      then [\<lparr>Direct = False, ComputedRelation = yRelation entry, FromLookup = None\<rparr>]
      else [])"

text \<open>The rewrite rules of a relation: a direct relation, a union with its implicit direct rule,
  or neither.\<close>

definition compileRewrites :: "yamlRelationDef \<Rightarrow> RewriteRule list" where
  "compileRewrites raw =
     (if yTypes raw \<noteq> [] \<and> yUnion raw = [] then [directRule]
      else if yUnion raw \<noteq> [] then directRule # concat (map compileUnionEntry (yUnion raw))
      else [])"

definition compileRelation :: "string \<Rightarrow> string \<Rightarrow> yamlRelationDef \<Rightarrow> RelationDef res" where
  "compileRelation typeName relName raw =
     (let rel = \<lparr>RelName = [], DirectTypes = yTypes raw, Rewrites = compileRewrites raw,
                 MinHolders = 0\<rparr>
      in if yRequired raw then
           (if length (Rewrites rel) \<noteq> 1 \<or> \<not> Direct (hd (Rewrites rel))
            then Inl (Errorf STR ''type %q relation %q: 'required' is only valid on a pure-direct relation''
                        [typeName, relName])
            else Inr (rel\<lparr>MinHolders := 1\<rparr>))
         else Inr rel)"

definition validateTypeRef :: "Model \<Rightarrow> string \<Rightarrow> string \<Rightarrow> string \<Rightarrow> goerror option" where
  "validateTypeRef m typeName relName typeRef =
     (case cut (CHR ''#'') typeRef of (baseType, relRef, hasRel) \<Rightarrow>
        (case map_of (Types m) baseType of
           None \<Rightarrow> Some (Errorf STR ''type %q relation %q: referenced type %q does not exist''
                          [typeName, relName, baseType])
         | Some targetType \<Rightarrow>
             if hasRel \<and> map_of (Relations targetType) relRef = None
             then Some (Errorf STR ''type %q relation %q: referenced relation %q does not exist on type %q''
                          [typeName, relName, relRef, baseType])
             else None))"

text \<open>The search for the \<open>lookup\<close> relation on the target types of a \<open>from\<close> relation.\<close>

definition lookupOnTarget :: "Model \<Rightarrow> string \<Rightarrow> string \<Rightarrow> bool" where
  "lookupOnTarget m lookup targetType =
     (case map_of (Types m) (fst (cut (CHR ''#'') targetType)) of
        None \<Rightarrow> False
      | Some td \<Rightarrow> map_of (Relations td) lookup \<noteq> None)"

definition validateRewrite ::
    "Model \<Rightarrow> string \<Rightarrow> TypeDef \<Rightarrow> string \<Rightarrow> RewriteRule \<Rightarrow> goerror option" where
  "validateRewrite m typeName typeDef relName rw =
     (if ComputedRelation rw \<noteq> [] \<and> map_of (Relations typeDef) (ComputedRelation rw) = None
      then Some (Errorf STR ''type %q relation %q: computed relation %q does not exist on type %q''
                   [typeName, relName, ComputedRelation rw, typeName])
      else case FromLookup rw of
        None \<Rightarrow> None
      | Some fl \<Rightarrow>
          (case map_of (Relations typeDef) (From fl) of
             None \<Rightarrow> Some (Errorf STR ''type %q relation %q: from relation %q does not exist on type %q''
                            [typeName, relName, From fl, typeName])
           | Some fromRel \<Rightarrow>
               let foundLookup = list_ex (lookupOnTarget m (Lookup fl)) (DirectTypes fromRel) in
               if \<not> foundLookup \<and> DirectTypes fromRel \<noteq> []
               then Some (Errorf STR ''type %q relation %q: lookup relation %q does not exist on any target type of from relation %q''
                            [typeName, relName, Lookup fl, From fl])
               else None))"

definition validate :: "Model \<Rightarrow> goerror option" where
  "validate m =
     first_err (\<lambda>(typeName, typeDef).
       first_err (\<lambda>(relName, relDef).
         (case first_err (validateTypeRef m typeName relName) (DirectTypes relDef) of
            Some e \<Rightarrow> Some e
          | None \<Rightarrow> first_err (validateRewrite m typeName typeDef relName) (Rewrites relDef)))
         (Relations typeDef))
       (Types m)"

text \<open>The second pass of \<open>Compile\<close>: the inner loop over relations and the outer over types.\<close>

fun compileRelations ::
    "string \<Rightarrow> (string \<times> yamlRelationDef) list \<Rightarrow> (string \<times> RelationDef) list res" where
  "compileRelations typeName [] = Inr []"
| "compileRelations typeName ((relName, relDef) # rest) =
     (case compileRelation typeName relName relDef of
        Inl e \<Rightarrow> Inl (Wrapf STR ''type %q relation %q: %w'' [typeName, relName] e)
      | Inr compiled \<Rightarrow>
          (case compileRelations typeName rest of
             Inl e \<Rightarrow> Inl e
           | Inr rels \<Rightarrow> Inr ((relName, compiled) # rels)))"

fun compileTypes ::
    "(string \<times> yamlTypeDefinition) list \<Rightarrow> (string \<times> TypeDef) list res" where
  "compileTypes [] = Inr []"
| "compileTypes ((typeName, typeDef) # rest) =
     (case compileRelations typeName (yRelations typeDef) of
        Inl e \<Rightarrow> Inl e
      | Inr rels \<Rightarrow>
          (case compileTypes rest of
             Inl e \<Rightarrow> Inl e
           | Inr tys \<Rightarrow> Inr ((typeName, \<lparr>TypeName = typeName, Relations = rels\<rparr>) # tys)))"

definition Compile :: "('d \<Rightarrow> yamlModel res) \<Rightarrow> 'd \<Rightarrow> Model res" where
  "Compile unmarshal data =
     (case unmarshal data of
        Inl e \<Rightarrow> Inl (Wrapf STR ''parse yaml: %w'' [] e)
      | Inr raw \<Rightarrow>
          (let version = (if yVersion raw = [] then ''1.0'' else yVersion raw) in
           case compileTypes (ymTypes raw) of
             Inl e \<Rightarrow> Inl e
           | Inr tys \<Rightarrow>
               (let m = \<lparr>Version = version, Types = tys\<rparr> in
                case validate m of Some e \<Rightarrow> Inl e | None \<Rightarrow> Inr m)))"

section \<open>The tuple validator\<close>

definition ValidateTuple :: "Model option \<Rightarrow> Tuple \<Rightarrow> goerror option" where
  "ValidateTuple mo t =
     (case mo of
        None \<Rightarrow> None
      | Some m \<Rightarrow>
        (case map_of (Types m) (ObjectType t) of
           None \<Rightarrow> Some (Errorf STR ''unknown object type %q'' [ObjectType t])
         | Some objType \<Rightarrow>
           (case map_of (Relations objType) (Relation t) of
              None \<Rightarrow> Some (Errorf STR ''relation %q does not exist on type %q'' [Relation t, ObjectType t])
            | Some rel \<Rightarrow>
              (let userRef = (if UserRelation t \<noteq> [] then UserType t @ ''#'' @ UserRelation t
                              else UserType t);
                   allowed = list_ex (\<lambda>dt. dt = userRef \<or> dt = UserType t) (DirectTypes rel)
               in if DirectTypes rel \<noteq> [] \<and> \<not> allowed
                  then Some (Errorf STR ''user type %q is not allowed for relation %q on type %q''
                               [userRef, Relation t, ObjectType t])
                  else if UserRelation t \<noteq> [] then
                    (case map_of (Types m) (UserType t) of
                       None \<Rightarrow> Some (Errorf STR ''unknown user type %q'' [UserType t])
                     | Some userType \<Rightarrow>
                         if map_of (Relations userType) (UserRelation t) = None
                         then Some (Errorf STR ''relation %q does not exist on user type %q''
                                      [UserRelation t, UserType t])
                         else None)
                  else None))))"

section \<open>What the compiler accepts\<close>

text \<open>
  The acceptance condition stated on the YAML document: every type reference names a declared
  type (and relation), every union entry resolves, and \<open>required\<close> stands on relations whose
  compiled form is the single direct rule.
\<close>

definition yaml_has_rel :: "yamlModel \<Rightarrow> string \<Rightarrow> string \<Rightarrow> bool" where
  "yaml_has_rel y t r \<longleftrightarrow>
     (case map_of (ymTypes y) t of None \<Rightarrow> False | Some td \<Rightarrow> map_of (yRelations td) r \<noteq> None)"

definition typeref_declared :: "yamlModel \<Rightarrow> string \<Rightarrow> bool" where
  "typeref_declared y ref \<longleftrightarrow>
     (case cut (CHR ''#'') ref of (base, r, has) \<Rightarrow>
        map_of (ymTypes y) base \<noteq> None \<and> (has \<longrightarrow> yaml_has_rel y base r))"

definition entry_resolves :: "yamlModel \<Rightarrow> yamlTypeDefinition \<Rightarrow> yamlUnionEntry \<Rightarrow> bool" where
  "entry_resolves y td e \<longleftrightarrow>
     (if yFrom e \<noteq> []
      then (case map_of (yRelations td) (yFrom e) of
              None \<Rightarrow> False
            | Some rd \<Rightarrow> yTypes rd = [] \<or>
                (\<exists>tt \<in> set (yTypes rd). yaml_has_rel y (fst (cut (CHR ''#'') tt)) (yLookup e)))
      else yRelation e = [] \<or> map_of (yRelations td) (yRelation e) \<noteq> None)"

definition required_ok :: "yamlRelationDef \<Rightarrow> bool" where
  "required_ok rd \<longleftrightarrow>
     (yRequired rd \<longrightarrow>
        (if yUnion rd = [] then yTypes rd \<noteq> []
         else \<forall>e \<in> set (yUnion rd). yFrom e = [] \<and> yRelation e = []))"

definition yaml_accepted :: "yamlModel \<Rightarrow> bool" where
  "yaml_accepted y \<longleftrightarrow>
     (\<forall>(t, td) \<in> set (ymTypes y). \<forall>(r, rd) \<in> set (yRelations td).
        required_ok rd \<and>
        (\<forall>ref \<in> set (yTypes rd). typeref_declared y ref) \<and>
        (\<forall>e \<in> set (yUnion rd). entry_resolves y td e))"

lemma compileUnionEntry_Nil: "compileUnionEntry e = [] \<longleftrightarrow> yFrom e = [] \<and> yRelation e = []"
  by (simp add: compileUnionEntry_def)

lemma required_ok_iff:
  "required_ok rd \<longleftrightarrow>
     (yRequired rd \<longrightarrow> length (compileRewrites rd) = 1 \<and> Direct (hd (compileRewrites rd)))"
  by (auto simp: required_ok_def compileRewrites_def directRule_def compileUnionEntry_Nil)

lemma compileRelation_Inr:
  "compileRelation tn rn rd = Inr c \<longleftrightarrow>
     required_ok rd \<and>
     c = \<lparr>RelName = [], DirectTypes = yTypes rd, Rewrites = compileRewrites rd,
          MinHolders = (if yRequired rd then 1 else 0)\<rparr>"
  by (auto simp: compileRelation_def required_ok_iff Let_def)

definition compiled_relation :: "yamlRelationDef \<Rightarrow> RelationDef \<Rightarrow> bool" where
  "compiled_relation rd c \<longleftrightarrow>
     required_ok rd \<and> DirectTypes c = yTypes rd \<and> Rewrites c = compileRewrites rd \<and>
     MinHolders c = (if yRequired rd then 1 else 0)"

definition compiled_type :: "yamlTypeDefinition \<Rightarrow> TypeDef \<Rightarrow> bool" where
  "compiled_type ty td \<longleftrightarrow> entrywise (\<lambda>_. compiled_relation) (yRelations ty) (Relations td)"

lemma compileRelations_entrywise:
  "compileRelations tn rs = Inr cs \<Longrightarrow> entrywise (\<lambda>_. compiled_relation) rs cs"
proof (induction tn rs arbitrary: cs rule: compileRelations.induct)
  case (2 tn rn rd rest)
  then show ?case
    by (auto split: sum.splits simp: compileRelation_Inr compiled_relation_def)
qed simp

lemma compileTypes_entrywise:
  "compileTypes ts = Inr cs \<Longrightarrow> entrywise (\<lambda>_. compiled_type) ts cs"
proof (induction ts arbitrary: cs rule: compileTypes.induct)
  case (2 tn td rest)
  then show ?case
    by (auto split: sum.splits simp: compiled_type_def dest: compileRelations_entrywise)
qed simp

lemma compileRelations_ok:
  "(\<exists>cs. compileRelations tn rs = Inr cs) \<longleftrightarrow> (\<forall>(r, rd) \<in> set rs. required_ok rd)"
proof (induction tn rs rule: compileRelations.induct)
  case (2 tn rn rd rest)
  have "(\<exists>c. compileRelation tn rn rd = Inr c) \<longleftrightarrow> required_ok rd"
    by (simp add: compileRelation_Inr)
  then show ?case using 2
    by (cases "compileRelation tn rn rd"; cases "compileRelations tn rest") auto
qed simp

lemma compileTypes_ok:
  "(\<exists>cs. compileTypes ts = Inr cs) \<longleftrightarrow>
     (\<forall>(t, td) \<in> set ts. \<forall>(r, rd) \<in> set (yRelations td). required_ok rd)"
proof (induction ts rule: compileTypes.induct)
  case (2 tn td rest)
  then show ?case
    using compileRelations_ok [of tn "yRelations td"]
    by (cases "compileRelations tn (yRelations td)"; cases "compileTypes rest") auto
qed simp

lemma compiled_type_None:
  "compiled_type ty td \<Longrightarrow> map_of (Relations td) r = None \<longleftrightarrow> map_of (yRelations ty) r = None"
  unfolding compiled_type_def by (rule entrywise_lookup_None)

lemma compiled_has_rel:
  assumes "entrywise (\<lambda>_. compiled_type) (ymTypes y) (Types m)"
  shows "lookupOnTarget m r tt \<longleftrightarrow> yaml_has_rel y (fst (cut (CHR ''#'') tt)) r"
  using entrywise_map_of [OF assms, of "fst (cut (CHR ''#'') tt)"]
  by (cases "map_of (ymTypes y) (fst (cut (CHR ''#'') tt))";
      cases "map_of (Types m) (fst (cut (CHR ''#'') tt))")
    (simp_all add: lookupOnTarget_def yaml_has_rel_def compiled_type_None)

lemma validateTypeRef_iff:
  assumes "entrywise (\<lambda>_. compiled_type) (ymTypes y) (Types m)"
  shows "validateTypeRef m tn rn ref = None \<longleftrightarrow> typeref_declared y ref"
proof (cases "cut (CHR ''#'') ref")
  case (fields base r has)
  with entrywise_map_of [OF assms, of base] show ?thesis
    by (cases "map_of (ymTypes y) base"; cases "map_of (Types m) base")
      (simp_all add: validateTypeRef_def typeref_declared_def yaml_has_rel_def compiled_type_None)
qed

lemma validateRewrite_iff:
  assumes "entrywise (\<lambda>_. compiled_type) (ymTypes y) (Types m)" and "compiled_type ty td"
  shows "(\<forall>rw \<in> set (compileUnionEntry e). validateRewrite m tn td rn rw = None) \<longleftrightarrow>
           entry_resolves y ty e"
proof (cases "yFrom e = []")
  case True
  with assms(2) show ?thesis
    by (simp add: compileUnionEntry_def validateRewrite_def entry_resolves_def compiled_type_None)
next
  case False
  have "rel_option compiled_relation (map_of (yRelations ty) (yFrom e)) (map_of (Relations td) (yFrom e))"
    using assms(2) entrywise_map_of unfolding compiled_type_def by fast
  with False show ?thesis
    by (cases "map_of (yRelations ty) (yFrom e)"; cases "map_of (Relations td) (yFrom e)")
      (auto simp: compileUnionEntry_def validateRewrite_def entry_resolves_def compiled_relation_def
        Let_def list_ex_iff compiled_has_rel [OF assms(1)])
qed

lemma validate_rewrites_iff:
  assumes "entrywise (\<lambda>_. compiled_type) (ymTypes y) (Types m)" and "compiled_type td td'"
    and "compiled_relation rd rd'"
  shows "(\<forall>rw \<in> set (Rewrites rd'). validateRewrite m tn td' rn rw = None) \<longleftrightarrow>
           (\<forall>e \<in> set (yUnion rd). entry_resolves y td e)"
proof -
  have "validateRewrite m tn td' rn directRule = None"
    by (simp add: validateRewrite_def directRule_def)
  with assms(3) show ?thesis
    unfolding validateRewrite_iff [OF assms(1,2), of _ tn rn, symmetric]
    by (auto simp: compiled_relation_def compileRewrites_def)
qed

lemma validate_relation_iff:
  assumes "entrywise (\<lambda>_. compiled_type) (ymTypes y) (Types m)" and "compiled_type td td'"
    and "compiled_relation rd rd'"
  shows "(case first_err (validateTypeRef m tn rn) (DirectTypes rd') of Some e \<Rightarrow> Some e
            | None \<Rightarrow> first_err (validateRewrite m tn td' rn) (Rewrites rd')) = None \<longleftrightarrow>
         (\<forall>ref \<in> set (yTypes rd). typeref_declared y ref) \<and>
         (\<forall>e \<in> set (yUnion rd). entry_resolves y td e)"
proof -
  have "first_err (validateTypeRef m tn rn) (DirectTypes rd') = None \<longleftrightarrow>
      (\<forall>ref \<in> set (yTypes rd). typeref_declared y ref)"
    using assms(3) by (simp add: first_err_None validateTypeRef_iff [OF assms(1)] compiled_relation_def)
  with validate_rewrites_iff [OF assms, of tn rn] show ?thesis
    by (simp add: then_err_None first_err_None)
qed

lemma validate_iff:
  assumes "entrywise (\<lambda>_. compiled_type) (ymTypes y) (Types m)"
  shows "validate m = None \<longleftrightarrow>
     (\<forall>(t, td) \<in> set (ymTypes y). \<forall>(r, rd) \<in> set (yRelations td).
        (\<forall>ref \<in> set (yTypes rd). typeref_declared y ref) \<and>
        (\<forall>e \<in> set (yUnion rd). entry_resolves y td e))"
  unfolding validate_def
proof (rule first_err_entrywise [OF assms])
  fix tn td td'
  assume c: "compiled_type td td'"
  then have e: "entrywise (\<lambda>_. compiled_relation) (yRelations td) (Relations td')"
    by (simp add: compiled_type_def)
  show "(case (tn, td') of (typeName, typeDef) \<Rightarrow> first_err (\<lambda>(relName, relDef).
           (case first_err (validateTypeRef m typeName relName) (DirectTypes relDef) of
              Some e \<Rightarrow> Some e
            | None \<Rightarrow> first_err (validateRewrite m typeName typeDef relName) (Rewrites relDef)))
           (Relations typeDef)) = None \<longleftrightarrow>
        (case (tn, td) of (t, td) \<Rightarrow> \<forall>(r, rd) \<in> set (yRelations td).
           (\<forall>ref \<in> set (yTypes rd). typeref_declared y ref) \<and>
           (\<forall>e \<in> set (yUnion rd). entry_resolves y td e))"
    unfolding prod.case
    by (rule first_err_entrywise [OF e]) (simp only: prod.case validate_relation_iff [OF assms c])
qed

section \<open>Well-formed compiled models\<close>

text \<open>The documented invariant of a rewrite rule: exactly one of its three forms is set.\<close>

definition one_form :: "RewriteRule \<Rightarrow> bool" where
  "one_form rw \<longleftrightarrow>
     (Direct rw \<and> ComputedRelation rw = [] \<and> FromLookup rw = None) \<or>
     (\<not> Direct rw \<and> ComputedRelation rw \<noteq> [] \<and> FromLookup rw = None) \<or>
     (\<not> Direct rw \<and> ComputedRelation rw = [] \<and> FromLookup rw \<noteq> None)"

definition wf_relation :: "TypeDef \<Rightarrow> RelationDef \<Rightarrow> bool" where
  "wf_relation td rd \<longleftrightarrow>
     (\<forall>rw \<in> set (Rewrites rd). one_form rw \<and>
        (ComputedRelation rw \<noteq> [] \<longrightarrow> map_of (Relations td) (ComputedRelation rw) \<noteq> None) \<and>
        (\<forall>fl. FromLookup rw = Some fl \<longrightarrow> map_of (Relations td) (From fl) \<noteq> None)) \<and>
     (Rewrites rd \<noteq> [] \<longrightarrow> hd (Rewrites rd) = directRule) \<and>
     (MinHolders rd = 0 \<or> MinHolders rd = 1 \<and> Rewrites rd = [directRule])"

definition wf_model :: "Model \<Rightarrow> bool" where
  "wf_model m \<longleftrightarrow>
     (\<forall>t td r rd. map_of (Types m) t = Some td \<longrightarrow> map_of (Relations td) r = Some rd \<longrightarrow> wf_relation td rd)"

lemma wf_modelD:
  "wf_model m \<Longrightarrow> map_of (Types m) t = Some td \<Longrightarrow> map_of (Relations td) r = Some rd \<Longrightarrow> wf_relation td rd"
  by (auto simp: wf_model_def)

lemma compileRewrites_form: "rw \<in> set (compileRewrites rd) \<Longrightarrow> one_form rw"
  by (auto simp: compileRewrites_def compileUnionEntry_def directRule_def one_form_def split: if_splits)

lemma compileRewrites_hd: "compileRewrites rd \<noteq> [] \<Longrightarrow> hd (compileRewrites rd) = directRule"
  by (auto simp: compileRewrites_def split: if_splits)

lemma required_rewrites: "required_ok rd \<Longrightarrow> yRequired rd \<Longrightarrow> compileRewrites rd = [directRule]"
  by (auto simp: required_ok_def compileRewrites_def compileUnionEntry_Nil split: if_splits)

lemma Compile_Inr:
  "Compile unmarshal d = Inr m \<longleftrightarrow>
     (\<exists>y ts. unmarshal d = Inr y \<and> compileTypes (ymTypes y) = Inr ts \<and> validate m = None \<and>
        m = \<lparr>Version = (if yVersion y = [] then ''1.0'' else yVersion y), Types = ts\<rparr>)"
  by (auto simp: Compile_def Let_def split: sum.splits option.splits)

lemma validate_lookup:
  assumes "validate m = None" and "map_of (Types m) t = Some td" and "map_of (Relations td) r = Some rd"
    and "rw \<in> set (Rewrites rd)"
  shows "validateRewrite m t td r rw = None"
proof -
  from assms(2,3) have "(t, td) \<in> set (Types m)" and "(r, rd) \<in> set (Relations td)"
    by (auto dest: map_of_Some_mem)
  with assms(1,4) show ?thesis by (fastforce simp: validate_def first_err_None split: option.splits)
qed

section \<open>Properties\<close>

text \<open>
  The compiler accepts a decoded YAML document exactly when every type reference names a
  declared type (and, for \<open>type#relation\<close>, a relation of it), every union entry names a relation
  of its own type or a from/lookup pair that resolves, and every \<open>required\<close> relation compiles to
  the single direct rule.
\<close>

theorem Compile_accepts:
  assumes "unmarshal d = Inr y"
  shows "(\<exists>m. Compile unmarshal d = Inr m) \<longleftrightarrow> yaml_accepted y"
proof (cases "compileTypes (ymTypes y)")
  case (Inl e)
  then have "\<not> (\<exists>cs. compileTypes (ymTypes y) = Inr cs)" by simp
  with assms show ?thesis
    unfolding compileTypes_ok by (fastforce simp: Compile_Inr Inl yaml_accepted_def)
next
  case (Inr ts)
  define m where "m = \<lparr>Version = (if yVersion y = [] then ''1.0'' else yVersion y), Types = ts\<rparr>"
  have "entrywise (\<lambda>_. compiled_type) (ymTypes y) (Types m)"
    using compileTypes_entrywise [OF Inr] by (simp add: m_def)
  note iff = validate_iff [OF this]
  have req: "\<forall>(t, td) \<in> set (ymTypes y). \<forall>(r, rd) \<in> set (yRelations td). required_ok rd"
    using compileTypes_ok [of "ymTypes y"] Inr by blast
  have "(\<exists>m. Compile unmarshal d = Inr m) \<longleftrightarrow> validate m = None"
    using assms Inr by (auto simp: Compile_Inr m_def)
  also have "\<dots> \<longleftrightarrow> yaml_accepted y"
    unfolding iff yaml_accepted_def using req by (simp add: case_prod_unfold)
  finally show ?thesis .
qed

lemma compiled_wf:
  assumes "Compile unmarshal d = Inr m"
  shows "wf_model m"
  unfolding wf_model_def
proof (intro allI impI)
  fix t td r rd
  assume td: "map_of (Types m) t = Some td" and rd: "map_of (Relations td) r = Some rd"
  from assms obtain y :: yamlModel and ts where ts: "compileTypes (ymTypes y) = Inr ts" and v: "validate m = None"
    and m: "m = \<lparr>Version = (if yVersion y = [] then ''1.0'' else yVersion y), Types = ts\<rparr>"
    unfolding Compile_Inr by blast
  from ts have c: "compileTypes (ymTypes y) = Inr (Types m)" by (simp add: m)
  from entrywise_map_of [OF compileTypes_entrywise [OF c], of t] td
  obtain yt where "compiled_type yt td" by (auto simp: option_rel_Some2)
  then have "entrywise (\<lambda>_. compiled_relation) (yRelations yt) (Relations td)"
    by (simp add: compiled_type_def)
  from entrywise_map_of [OF this, of r] rd
  obtain yr where yr: "compiled_relation yr rd" by (auto simp: option_rel_Some2)
  have "one_form rw \<and> (ComputedRelation rw \<noteq> [] \<longrightarrow> map_of (Relations td) (ComputedRelation rw) \<noteq> None) \<and>
      (\<forall>fl. FromLookup rw = Some fl \<longrightarrow> map_of (Relations td) (From fl) \<noteq> None)"
    if "rw \<in> set (Rewrites rd)" for rw
    using validate_lookup [OF v td rd that] that yr
    by (auto simp: validateRewrite_def compiled_relation_def compileRewrites_form
        split: if_splits option.splits)
  with yr show "wf_relation td rd"
    by (auto simp: wf_relation_def compiled_relation_def compileRewrites_hd required_rewrites)
qed

text \<open>
  Every model the compiler returns is well-formed: each rewrite rule has exactly one form,
  each computed or \<open>from\<close> relation exists on its type, a relation with rules starts with the
  direct rule (so a union always grants its own direct tuples), and a minimum-holder floor is 0
  or is 1 on a pure-direct relation.
\<close>

theorem Compile_wf_model:
  assumes "Compile unmarshal d = Inr m"
  shows "wf_model m"
  using assms by (rule compiled_wf)

section \<open>A sample document\<close>

definition directOn :: "string list \<Rightarrow> yamlRelationDef" where
  "directOn ts = \<lparr>yTypes = ts, yUnion = [], yRequired = False\<rparr>"

definition sample_yaml :: yamlModel where
  "sample_yaml =
     \<lparr>yVersion = [],
      ymTypes =
        [(''user'', \<lparr>yRelations = []\<rparr>),
         (''group'', \<lparr>yRelations = [(''member'', directOn [''user'', ''group#member''])]\<rparr>),
         (''folder'', \<lparr>yRelations = [(''viewer'', directOn [''user''])]\<rparr>),
         (''doc'', \<lparr>yRelations =
            [(''parent'', directOn [''folder'']),
             (''owner'', \<lparr>yTypes = [''user''], yUnion = [], yRequired = True\<rparr>),
             (''viewer'', \<lparr>yTypes = [''user'', ''group#member''],
                yUnion = [\<lparr>yRelation = ''owner'', yFrom = [], yLookup = []\<rparr>,
                          \<lparr>yRelation = [], yFrom = ''parent'', yLookup = ''viewer''\<rparr>],
                yRequired = False\<rparr>)]\<rparr>)]\<rparr>"

definition sample_model :: Model where
  "sample_model =
     \<lparr>Version = ''1.0'',
      Types = (case compileTypes (ymTypes sample_yaml) of Inl _ \<Rightarrow> [] | Inr tys \<Rightarrow> tys)\<rparr>"

lemma Compile_sample: "Compile Inr sample_yaml = Inr sample_model"
  by code_simp

theorem Compile_accepts_witness: "yaml_accepted sample_yaml"
  using Compile_accepts [of Inr sample_yaml sample_yaml] Compile_sample by simp

theorem Compile_wf_model_witness: "wf_model sample_model"
  by (rule Compile_wf_model [OF Compile_sample])

section \<open>Validated tuples\<close>

lemma validate_typeref:
  assumes "validate m = None" and "map_of (Types m) t = Some td" and "map_of (Relations td) r = Some rd"
    and "ref \<in> set (DirectTypes rd)"
  shows "validateTypeRef m t r ref = None"
proof -
  from assms(2,3) have "(t, td) \<in> set (Types m)" and "(r, rd) \<in> set (Relations td)"
    by (auto dest: map_of_Some_mem)
  with assms(1,4) show ?thesis by (fastforce simp: validate_def first_err_None then_err_None)
qed

text \<open>
  C40. A tuple that \<open>ValidateTuple\<close> accepts under a compiled model is typed by it: its object type
  and relation are declared, its subject type or its subject reference is one of the relation's types
  whenever the relation lists any, and a userset subject names a declared relation of a declared
  type. The type of a plain subject under a relation that lists types is declared too, with one
  exception: a subject type that contains a \<open>#\<close> and is, as a text, one of the relation's userset
  references, such as the type of the user key \<open>group#member:x\<close> (\<open>userset_text_accepted\<close>).
\<close>

theorem ValidateTuple_typed:
  assumes "Compile unmarshal d = Inr m" and "ValidateTuple (Some m) t = None"
  shows "\<exists>td rd. map_of (Types m) (ObjectType t) = Some td \<and> map_of (Relations td) (Relation t) = Some rd \<and>
     (DirectTypes rd \<noteq> [] \<longrightarrow>
        (UserType t \<in> set (DirectTypes rd) \<or>
         UserRelation t \<noteq> [] \<and> UserType t @ ''#'' @ UserRelation t \<in> set (DirectTypes rd)) \<and>
        (map_of (Types m) (UserType t) \<noteq> None \<or>
         UserRelation t = [] \<and> CHR ''#'' \<in> set (UserType t) \<and> UserType t \<in> set (DirectTypes rd))) \<and>
     (UserRelation t \<noteq> [] \<longrightarrow>
        (\<exists>ud. map_of (Types m) (UserType t) = Some ud \<and> map_of (Relations ud) (UserRelation t) \<noteq> None))"
proof -
  from assms(1) have v: "validate m = None" by (auto simp: Compile_Inr)
  from assms(2) obtain td rd where td: "map_of (Types m) (ObjectType t) = Some td"
    and rd: "map_of (Relations td) (Relation t) = Some rd"
    by (auto simp: ValidateTuple_def split: option.splits)
  have ur: "\<exists>ud. map_of (Types m) (UserType t) = Some ud \<and> map_of (Relations ud) (UserRelation t) \<noteq> None"
    if "UserRelation t \<noteq> []"
    using assms(2) that by (auto simp: ValidateTuple_def td rd Let_def split: if_splits option.splits)
  have al: "UserType t \<in> set (DirectTypes rd) \<or>
      UserRelation t \<noteq> [] \<and> UserType t @ ''#'' @ UserRelation t \<in> set (DirectTypes rd)"
    if "DirectTypes rd \<noteq> []"
    using assms(2) that by (auto simp: ValidateTuple_def td rd Let_def list_ex_iff split: if_splits option.splits)
  have "map_of (Types m) (UserType t) \<noteq> None \<or>
      UserRelation t = [] \<and> CHR ''#'' \<in> set (UserType t) \<and> UserType t \<in> set (DirectTypes rd)" if "DirectTypes rd \<noteq> []"
  proof (cases "UserRelation t = [] \<and> CHR ''#'' \<notin> set (UserType t)")
    case True
    with al [OF that] have "UserType t \<in> set (DirectTypes rd)" by simp
    from validate_typeref [OF v td rd this] True show ?thesis
      by (auto simp: validateTypeRef_def cut_absent split: option.splits)
  next
    case False
    with al [OF that] ur show ?thesis by auto
  qed
  with td rd al ur show ?thesis by blast
qed

theorem ValidateTuple_typed_witness:
  "\<exists>td rd. map_of (Types sample_model) ''doc'' = Some td \<and> map_of (Relations td) ''viewer'' = Some rd \<and>
     (\<exists>ud. map_of (Types sample_model) ''group'' = Some ud \<and> map_of (Relations ud) ''member'' \<noteq> None)"
proof -
  let ?t = "\<lparr>ObjectType = ''doc'', ObjectID = ''1'', Relation = ''viewer'', UserType = ''group'',
            UserID = ''eng'', UserRelation = ''member''\<rparr>"
  have "ValidateTuple (Some sample_model) ?t = None" by code_simp
  from ValidateTuple_typed [OF Compile_sample this] show ?thesis by auto
qed

text \<open>The comparison of a listed type with the subject type takes a userset reference for a type.\<close>

lemma userset_text_accepted:
  "ValidateTuple (Some sample_model) \<lparr>ObjectType = ''doc'', ObjectID = ''1'', Relation = ''viewer'',
     UserType = ''group#member'', UserID = ''x'', UserRelation = []\<rparr> = None \<and>
   map_of (Types sample_model) ''group#member'' = None"
proof
  show "ValidateTuple (Some sample_model) \<lparr>ObjectType = ''doc'', ObjectID = ''1'', Relation = ''viewer'',
     UserType = ''group#member'', UserID = ''x'', UserRelation = []\<rparr> = None" by code_simp
  have "Option.is_none (map_of (Types sample_model) ''group#member'')" by code_simp
  then show "map_of (Types sample_model) ''group#member'' = None" by (simp add: Option.is_none_def split: option.splits)
qed

end
