(* ===== verification/Memory_Store.thy ===== *)
theory Memory_Store
  imports Zanzibar_Model
begin

text \<open>
  The in-memory tuple store of \<open>zanzibar/store/memory.go\<close>, its index keys and its filters, as
  operations on a record of its three maps. Each method runs under the store's lock, so it is
  one atomic function. Bounded pages are in \<open>Store_Pages\<close>.
\<close>

section \<open>Keys and filters\<close>

definition tupleKey :: "Tuple \<Rightarrow> string" where
  "tupleKey t =
     ObjectType t @ '':'' @ ObjectID t @ ''#'' @ Relation t @ ''@'' @
     UserType t @ '':'' @ UserID t @ ''#'' @ UserRelation t"

definition objectRelationKey :: "string \<Rightarrow> string \<Rightarrow> string \<Rightarrow> string" where
  "objectRelationKey objectType objectID relation = objectType @ '':'' @ objectID @ ''#'' @ relation"

text \<open>The filter on an object and a relation, every other field a wildcard.\<close>

definition filterOf :: "string \<Rightarrow> string \<Rightarrow> string \<Rightarrow> TupleFilter" where
  "filterOf ot oid r =
     \<lparr>fObjectType = ot, fObjectID = oid, fRelation = r, fUserType = [], fUserID = [], fUserRelation = []\<rparr>"

definition matchesFilter :: "Tuple \<Rightarrow> TupleFilter \<Rightarrow> bool" where
  "matchesFilter t f =
     (if fObjectType f \<noteq> [] \<and> ObjectType t \<noteq> fObjectType f then False
      else if fObjectID f \<noteq> [] \<and> ObjectID t \<noteq> fObjectID f then False
      else if fRelation f \<noteq> [] \<and> Relation t \<noteq> fRelation f then False
      else if fUserType f \<noteq> [] \<and> UserType t \<noteq> fUserType f then False
      else if fUserID f \<noteq> [] \<and> UserID t \<noteq> fUserID f then False
      else if fUserRelation f \<noteq> [] \<and> UserRelation t \<noteq> fUserRelation f then False
      else True)"

section \<open>The store\<close>

record MemoryStore =
  byObjectRelation :: "(string, Tuple) map2"
  byUser :: "(string, bool) map2"
  materialized :: "(string \<times> Tuple list) list"

definition NewMemoryStore :: MemoryStore where
  "NewMemoryStore = \<lparr>byObjectRelation = [], byUser = [], materialized = []\<rparr>"

abbreviation orKeyOf :: "Tuple \<Rightarrow> string" where
  "orKeyOf t \<equiv> objectRelationKey (ObjectType t) (ObjectID t) (Relation t)"

abbreviation userKeyOf :: "Tuple \<Rightarrow> string" where
  "userKeyOf t \<equiv> UserType t @ '':'' @ UserID t"

definition writeLocked :: "Tuple \<Rightarrow> MemoryStore \<Rightarrow> MemoryStore" where
  "writeLocked t s =
     s\<lparr>byObjectRelation := put2 (orKeyOf t) (tupleKey t) t (byObjectRelation s),
       byUser := put2 (userKeyOf t) (tupleKey t) True (byUser s)\<rparr>"

definition Write :: "Tuple \<Rightarrow> MemoryStore \<Rightarrow> goerror option \<times> MemoryStore" where
  "Write t s = (None, writeLocked t s)"

definition deleteLocked :: "Tuple \<Rightarrow> MemoryStore \<Rightarrow> MemoryStore" where
  "deleteLocked t s =
     s\<lparr>byObjectRelation := del2 (orKeyOf t) (tupleKey t) (byObjectRelation s),
       byUser := del2 (userKeyOf t) (tupleKey t) (byUser s)\<rparr>"

definition Delete :: "Tuple \<Rightarrow> MemoryStore \<Rightarrow> goerror option \<times> MemoryStore" where
  "Delete t s = (None, deleteLocked t s)"

definition directHoldersLocked :: "string \<Rightarrow> string \<Rightarrow> string \<Rightarrow> MemoryStore \<Rightarrow> int" where
  "directHoldersLocked objectType objectID relation s =
     (case map_of (byObjectRelation s) (objectRelationKey objectType objectID relation) of
        None \<Rightarrow> 0
      | Some tuples \<Rightarrow> int (length (filter (\<lambda>p. UserRelation (snd p) = []) tuples)))"

definition DeleteIfAbove :: "Tuple \<Rightarrow> int \<Rightarrow> MemoryStore \<Rightarrow> goerror option \<times> MemoryStore" where
  "DeleteIfAbove t minHeld s =
     (case map_of (byObjectRelation s) (orKeyOf t) of
        None \<Rightarrow> (None, s)
      | Some tuples \<Rightarrow>
          if map_of tuples (tupleKey t) = None then (None, s)
          else if directHoldersLocked (ObjectType t) (ObjectID t) (Relation t) s \<le> minHeld
          then (Some ErrLastHolder, s)
          else (None, deleteLocked t s))"

definition WriteTx :: "Tuple list \<Rightarrow> Tuple list \<Rightarrow> MemoryStore \<Rightarrow> goerror option \<times> MemoryStore" where
  "WriteTx writes deletes s = (None, fold deleteLocked deletes (fold writeLocked writes s))"

text \<open>The map of a slice of tuples by key, the last of equal keys winning.\<close>

definition keySet :: "Tuple list \<Rightarrow> (string \<times> Tuple) list" where
  "keySet ts = fold (\<lambda>t m. AList.update (tupleKey t) t m) ts []"

definition ReplacementDiff :: "Tuple list \<Rightarrow> Tuple list \<Rightarrow> Tuple list \<times> Tuple list" where
  "ReplacementDiff current replacements =
     (let currentSet = keySet current;
          replacementSet = keySet replacements;
          writes = map snd (filter (\<lambda>p. map_of currentSet (fst p) = None) replacementSet);
          deletes = map snd (filter (\<lambda>p. map_of replacementSet (fst p) = None) currentSet)
      in (sort_key tupleKey writes, sort_key tupleKey deletes))"

text \<open>
  \<open>ReplaceTx\<close> calls \<open>precommit\<close> with the lock held, before the first mutation. What the callback
  does outside the store is the state \<open>'x\<close> it is given.
\<close>

definition ReplaceTx ::
    "TupleFilter \<Rightarrow> Tuple list \<Rightarrow> (Tuple list \<Rightarrow> Tuple list \<Rightarrow> 'x \<Rightarrow> goerror option \<times> 'x) option \<Rightarrow>
     MemoryStore \<Rightarrow> 'x \<Rightarrow> (Tuple list \<times> Tuple list) res \<times> MemoryStore \<times> 'x" where
  "ReplaceTx filt replacements precommit s x =
     (let current = filter (\<lambda>t. matchesFilter t filt) (vals2 (byObjectRelation s)) in
      case ReplacementDiff current replacements of (writes, deletes) \<Rightarrow>
        (case (case precommit of None \<Rightarrow> (None, x) | Some f \<Rightarrow> f writes deletes x) of
           (Some e, x') \<Rightarrow> (Inl e, s, x')
         | (None, x') \<Rightarrow>
             (Inr (writes, deletes), fold deleteLocked deletes (fold writeLocked writes s), x')))"

definition filterTuples :: "(string \<times> Tuple) list \<Rightarrow> TupleFilter \<Rightarrow> Tuple list" where
  "filterTuples tuples f = filter (\<lambda>t. matchesFilter t f) (map snd tuples)"

definition matTuples :: "MemoryStore \<Rightarrow> Tuple list" where
  "matTuples s = concat (map snd (materialized s))"

definition Read :: "TupleFilter \<Rightarrow> MemoryStore \<Rightarrow> Tuple list res" where
  "Read f s =
     (let result =
        (if fObjectType f \<noteq> [] \<and> fObjectID f \<noteq> [] \<and> fRelation f \<noteq> []
         then (case map_of (byObjectRelation s)
                      (objectRelationKey (fObjectType f) (fObjectID f) (fRelation f)) of
                 None \<Rightarrow> []
               | Some tuples \<Rightarrow> filterTuples tuples f)
         else filter (\<lambda>t. matchesFilter t f) (vals2 (byObjectRelation s)))
      in Inr (result @ filter (\<lambda>t. matchesFilter t f) (matTuples s)))"

definition isUsersetOf :: "string \<Rightarrow> string \<Rightarrow> string \<Rightarrow> Tuple \<Rightarrow> bool" where
  "isUsersetOf objectType objectID relation t \<longleftrightarrow>
     ObjectType t = objectType \<and> ObjectID t = objectID \<and> Relation t = relation \<and> UserRelation t \<noteq> []"

definition ReadUsersets :: "string \<Rightarrow> string \<Rightarrow> string \<Rightarrow> MemoryStore \<Rightarrow> Tuple list res" where
  "ReadUsersets objectType objectID relation s =
     Inr ((case map_of (byObjectRelation s) (objectRelationKey objectType objectID relation) of
             None \<Rightarrow> []
           | Some tuples \<Rightarrow> filter (\<lambda>t. UserRelation t \<noteq> []) (map snd tuples)) @
          filter (isUsersetOf objectType objectID relation) (matTuples s))"

definition WriteMaterialized :: "string \<Rightarrow> Tuple list \<Rightarrow> MemoryStore \<Rightarrow> MemoryStore" where
  "WriteMaterialized name tuples s = s\<lparr>materialized := AList.update name tuples (materialized s)\<rparr>"

definition ClearMaterialized :: "string \<Rightarrow> MemoryStore \<Rightarrow> MemoryStore" where
  "ClearMaterialized name s = s\<lparr>materialized := AList.delete name (materialized s)\<rparr>"

definition countType :: "Tuple \<Rightarrow> (string \<times> int) list \<Rightarrow> (string \<times> int) list" where
  "countType t counts =
     AList.update (ObjectType t) ((case map_of counts (ObjectType t) of None \<Rightarrow> 0 | Some n \<Rightarrow> n) + 1) counts"

definition CountByObjectType :: "MemoryStore \<Rightarrow> (string \<times> int) list res" where
  "CountByObjectType s = Inr (fold countType (vals2 (byObjectRelation s)) [])"

section \<open>Key lemmas\<close>

text \<open>
  A tuple is well-formed when the separators of its key cannot occur inside the parts in front
  of them. \<open>ParseUserKey\<close> and \<open>ParseObjectKey\<close> produce such types and user ids.
\<close>

definition wf_tuple :: "Tuple \<Rightarrow> bool" where
  "wf_tuple t \<longleftrightarrow>
     CHR '':'' \<notin> set (ObjectType t) \<and> CHR ''#'' \<notin> set (ObjectID t) \<and> CHR ''@'' \<notin> set (Relation t) \<and>
     CHR '':'' \<notin> set (UserType t) \<and> CHR ''#'' \<notin> set (UserID t)"

lemma objectRelationKey_inject:
  assumes "CHR '':'' \<notin> set ot" "CHR ''#'' \<notin> set oid" "CHR '':'' \<notin> set ot'" "CHR ''#'' \<notin> set oid'"
  shows "objectRelationKey ot oid r = objectRelationKey ot' oid' r' \<longleftrightarrow> ot = ot' \<and> oid = oid' \<and> r = r'"
  using assms by (auto simp: objectRelationKey_def sep_inject)

lemma tupleKey_inject:
  assumes "wf_tuple t" and "wf_tuple t'"
  shows "tupleKey t = tupleKey t' \<longleftrightarrow> t = t'"
  using assms by (cases t; cases t') (auto simp: tupleKey_def wf_tuple_def sep_inject)

lemma matchesFilter_iff:
  "matchesFilter t f \<longleftrightarrow>
     (fObjectType f = [] \<or> ObjectType t = fObjectType f) \<and>
     (fObjectID f = [] \<or> ObjectID t = fObjectID f) \<and>
     (fRelation f = [] \<or> Relation t = fRelation f) \<and>
     (fUserType f = [] \<or> UserType t = fUserType f) \<and>
     (fUserID f = [] \<or> UserID t = fUserID f) \<and>
     (fUserRelation f = [] \<or> UserRelation t = fUserRelation f)"
  by (auto simp: matchesFilter_def)

section \<open>The store invariant\<close>

definition stored :: "MemoryStore \<Rightarrow> Tuple set" where
  "stored s = set (vals2 (byObjectRelation s))"

definition all_tuples :: "MemoryStore \<Rightarrow> Tuple set" where
  "all_tuples s = stored s \<union> set (matTuples s)"

text \<open>
  The primary index holds every tuple under its own keys; the secondary index lists exactly the
  stored tuples of each user; neither keeps an empty inner map.
\<close>

definition mem_inv :: "MemoryStore \<Rightarrow> bool" where
  "mem_inv s \<longleftrightarrow>
     map2_ok (byObjectRelation s) \<and> map2_ok (byUser s) \<and>
     (\<forall>k i t. get2 (byObjectRelation s) k i = Some t \<longrightarrow>
        k = orKeyOf t \<and> i = tupleKey t \<and> wf_tuple t) \<and>
     (\<forall>u i. get2 (byUser s) u i =
        (if \<exists>t \<in> stored s. userKeyOf t = u \<and> tupleKey t = i then Some True else None))"

lemma stored_get2:
  assumes "mem_inv s"
  shows "t \<in> stored s \<longleftrightarrow> get2 (byObjectRelation s) (orKeyOf t) (tupleKey t) = Some t"
proof
  assume "t \<in> stored s"
  then obtain k i where ki: "get2 (byObjectRelation s) k i = Some t"
    using assms by (auto simp: stored_def mem_inv_def set_vals2)
  with assms have "k = orKeyOf t" "i = tupleKey t" by (auto simp: mem_inv_def)
  with ki show "get2 (byObjectRelation s) (orKeyOf t) (tupleKey t) = Some t" by simp
next
  assume "get2 (byObjectRelation s) (orKeyOf t) (tupleKey t) = Some t"
  with assms show "t \<in> stored s" by (auto simp: stored_def mem_inv_def set_vals2)
qed

lemma stored_wf: "mem_inv s \<Longrightarrow> t \<in> stored s \<Longrightarrow> wf_tuple t"
  by (auto simp: stored_get2) (auto simp: mem_inv_def)

lemma mem_inv_New [simp]: "mem_inv NewMemoryStore"
  by (simp add: mem_inv_def NewMemoryStore_def stored_def)

lemma stored_New [simp]: "stored NewMemoryStore = {}"
  by (simp add: NewMemoryStore_def stored_def)

lemma stored_map2:
  assumes "map2_ok m"
  shows "set (vals2 (put2 k i v m)) = insert v {x. \<exists>k' i'. \<not> (k' = k \<and> i' = i) \<and> get2 m k' i' = Some x}"
    and "set (vals2 (del2 k i m)) = {x. \<exists>k' i'. \<not> (k' = k \<and> i' = i) \<and> get2 m k' i' = Some x}"
  using assms by (auto simp: set_vals2 split: if_splits)

lemma get2_others:
  assumes "mem_inv s" and "wf_tuple t"
  shows "{x. \<exists>k i. \<not> (k = orKeyOf t \<and> i = tupleKey t) \<and> get2 (byObjectRelation s) k i = Some x} = stored s - {t}"
proof (intro set_eqI iffI)
  fix x assume "x \<in> {x. \<exists>k i. \<not> (k = orKeyOf t \<and> i = tupleKey t) \<and> get2 (byObjectRelation s) k i = Some x}"
  then obtain k i where ne: "\<not> (k = orKeyOf t \<and> i = tupleKey t)"
    and x: "get2 (byObjectRelation s) k i = Some x" by auto
  with assms(1) have ki: "k = orKeyOf x" "i = tupleKey x" by (auto simp: mem_inv_def)
  have "x \<in> stored s" using x ki stored_get2 [OF assms(1)] by blast
  with ne ki show "x \<in> stored s - {t}" by auto
next
  fix x assume x: "x \<in> stored s - {t}"
  then have "wf_tuple x" using stored_wf assms(1) by blast
  with x assms(2) have "tupleKey x \<noteq> tupleKey t" by (simp add: tupleKey_inject)
  with x show "x \<in> {x. \<exists>k i. \<not> (k = orKeyOf t \<and> i = tupleKey t) \<and> get2 (byObjectRelation s) k i = Some x}"
    using stored_get2 [OF assms(1), of x] by blast
qed

lemma stored_writeLocked: "mem_inv s \<Longrightarrow> wf_tuple t \<Longrightarrow> stored (writeLocked t s) = insert t (stored s)"
  using get2_others [of s t] stored_map2(1) [of "byObjectRelation s" "orKeyOf t" "tupleKey t" t]
  by (auto simp: stored_def writeLocked_def mem_inv_def)

lemma stored_deleteLocked: "mem_inv s \<Longrightarrow> wf_tuple t \<Longrightarrow> stored (deleteLocked t s) = stored s - {t}"
  using get2_others [of s t] stored_map2(2) [of "byObjectRelation s" "orKeyOf t" "tupleKey t"]
  by (auto simp: stored_def deleteLocked_def mem_inv_def)

lemma mem_inv_writeLocked:
  assumes "mem_inv s" and "wf_tuple t"
  shows "mem_inv (writeLocked t s)"
proof -
  have "get2 (byUser (writeLocked t s)) u i =
      (if \<exists>x \<in> stored (writeLocked t s). userKeyOf x = u \<and> tupleKey x = i then Some True else None)" for u i
    using assms unfolding stored_writeLocked [OF assms] by (auto simp: writeLocked_def mem_inv_def)
  with assms show ?thesis by (auto simp: mem_inv_def writeLocked_def split: if_splits)
qed

lemma mem_inv_deleteLocked:
  assumes "mem_inv s" and "wf_tuple t"
  shows "mem_inv (deleteLocked t s)"
proof -
  have inj: "tupleKey x = tupleKey t \<longleftrightarrow> x = t" if "x \<in> stored s" for x
    using that assms stored_wf tupleKey_inject by blast
  have "get2 (byUser (deleteLocked t s)) u i =
      (if \<exists>x \<in> stored (deleteLocked t s). userKeyOf x = u \<and> tupleKey x = i then Some True else None)" for u i
    using assms inj unfolding stored_deleteLocked [OF assms]
    by (auto simp: deleteLocked_def mem_inv_def)
  with assms show ?thesis by (auto simp: mem_inv_def deleteLocked_def split: if_splits)
qed

lemma materialized_locked [simp]:
  "materialized (writeLocked t s) = materialized s" "materialized (deleteLocked t s) = materialized s"
  by (simp_all add: writeLocked_def deleteLocked_def)

lemma fold_writeLocked:
  assumes "mem_inv s" and "\<forall>t \<in> set ts. wf_tuple t"
  shows "mem_inv (fold writeLocked ts s) \<and> stored (fold writeLocked ts s) = stored s \<union> set ts \<and>
         materialized (fold writeLocked ts s) = materialized s"
  using assms
  by (induction ts arbitrary: s) (auto simp: mem_inv_writeLocked stored_writeLocked)

lemma fold_deleteLocked:
  assumes "mem_inv s" and "\<forall>t \<in> set ts. wf_tuple t"
  shows "mem_inv (fold deleteLocked ts s) \<and> stored (fold deleteLocked ts s) = stored s - set ts \<and>
         materialized (fold deleteLocked ts s) = materialized s"
  using assms
  by (induction ts arbitrary: s) (auto simp: mem_inv_deleteLocked stored_deleteLocked)

section \<open>Reads\<close>

lemma inner_stored:
  assumes "mem_inv s" and "CHR '':'' \<notin> set ot" and "CHR ''#'' \<notin> set oid"
  shows "snd ` set (inner (objectRelationKey ot oid r) (byObjectRelation s)) =
           {t \<in> stored s. ObjectType t = ot \<and> ObjectID t = oid \<and> Relation t = r}"
proof (intro set_eqI iffI)
  let ?k = "objectRelationKey ot oid r"
  fix t assume "t \<in> snd ` set (inner ?k (byObjectRelation s))"
  then obtain i where "(i, t) \<in> set (inner ?k (byObjectRelation s))" by auto
  moreover have "go_map (inner ?k (byObjectRelation s))"
    using assms(1) by (simp add: mem_inv_def go_map_inner)
  ultimately have g: "get2 (byObjectRelation s) ?k i = Some t" by (simp add: get2_def)
  with assms(1) have k: "?k = orKeyOf t" and i: "i = tupleKey t" and wf: "wf_tuple t"
    by (auto simp: mem_inv_def)
  from g k i have "t \<in> stored s" using stored_get2 [OF assms(1), of t] by simp
  with k wf assms(2,3) show "t \<in> {t \<in> stored s. ObjectType t = ot \<and> ObjectID t = oid \<and> Relation t = r}"
    by (simp add: wf_tuple_def objectRelationKey_inject)
next
  let ?k = "objectRelationKey ot oid r"
  fix t assume "t \<in> {t \<in> stored s. ObjectType t = ot \<and> ObjectID t = oid \<and> Relation t = r}"
  then have "map_of (inner ?k (byObjectRelation s)) (tupleKey t) = Some t"
    using stored_get2 [OF assms(1), of t] by (auto simp: get2_def)
  then show "t \<in> snd ` set (inner ?k (byObjectRelation s))" by (force dest: map_of_Some_mem)
qed

lemma stored_inner_mem:
  assumes "mem_inv s" and "t \<in> stored s"
  shows "t \<in> snd ` set (inner (orKeyOf t) (byObjectRelation s))"
proof -
  have "wf_tuple t" using assms by (rule stored_wf)
  then show ?thesis using assms(2) by (subst inner_stored [OF assms(1)]) (auto simp: wf_tuple_def)
qed

lemma inner_subset_stored: "snd ` set (inner k (byObjectRelation s)) \<subseteq> stored s"
proof (cases "map_of (byObjectRelation s) k")
  case (Some b)
  then have "(k, b) \<in> set (byObjectRelation s)" by (rule map_of_Some_mem)
  with Some show ?thesis by (force simp: inner_def stored_def vals2_def)
qed (simp add: inner_def)

lemma Read_alt:
  "Read f s =
     Inr (filter (\<lambda>t. matchesFilter t f)
            (if fObjectType f \<noteq> [] \<and> fObjectID f \<noteq> [] \<and> fRelation f \<noteq> []
             then map snd (inner (objectRelationKey (fObjectType f) (fObjectID f) (fRelation f)) (byObjectRelation s))
             else vals2 (byObjectRelation s)) @
          filter (\<lambda>t. matchesFilter t f) (matTuples s))"
  by (auto simp: Read_def filterTuples_def inner_def Let_def split: option.split)

lemma Read_set:
  assumes "mem_inv s"
  shows "\<exists>ts. Read f s = Inr ts \<and> set ts = {t \<in> all_tuples s. matchesFilter t f}"
proof -
  let ?k = "objectRelationKey (fObjectType f) (fObjectID f) (fRelation f)"
  have "{t \<in> snd ` set (inner ?k (byObjectRelation s)). matchesFilter t f} = {t \<in> stored s. matchesFilter t f}"
    if "fObjectType f \<noteq> []" "fObjectID f \<noteq> []" "fRelation f \<noteq> []"
    using that inner_subset_stored [of ?k s] stored_inner_mem [OF assms]
    by (force simp: matchesFilter_iff)
  then show ?thesis by (auto simp: Read_alt all_tuples_def stored_def)
qed

lemma ReadUsersets_set:
  assumes "mem_inv s" and "CHR '':'' \<notin> set ot" and "CHR ''#'' \<notin> set oid"
  shows "\<exists>ts. ReadUsersets ot oid r s = Inr ts \<and> set ts = {t \<in> all_tuples s. isUsersetOf ot oid r t}"
proof -
  have "ReadUsersets ot oid r s =
      Inr (filter (\<lambda>t. UserRelation t \<noteq> []) (map snd (inner (objectRelationKey ot oid r) (byObjectRelation s))) @
           filter (isUsersetOf ot oid r) (matTuples s))"
    by (simp add: ReadUsersets_def inner_def split: option.split)
  moreover have "set (filter (\<lambda>t. UserRelation t \<noteq> []) (map snd (inner (objectRelationKey ot oid r) (byObjectRelation s)))) =
      {t \<in> stored s. isUsersetOf ot oid r t}"
    using inner_stored [OF assms, of r] by (auto simp: isUsersetOf_def)
  ultimately show ?thesis by (auto simp: all_tuples_def)
qed

section \<open>Direct holders\<close>

definition holders :: "string \<Rightarrow> string \<Rightarrow> string \<Rightarrow> MemoryStore \<Rightarrow> Tuple set" where
  "holders ot oid r s =
     {t \<in> stored s. ObjectType t = ot \<and> ObjectID t = oid \<and> Relation t = r \<and> UserRelation t = []}"

lemma finite_stored [simp]: "finite (stored s)"
  by (simp add: stored_def)

lemma finite_holders [simp]: "finite (holders ot oid r s)"
  by (simp add: holders_def)

lemma distinct_inner:
  assumes "mem_inv s" shows "distinct (map snd (inner k (byObjectRelation s)))"
proof -
  have "map_of (inner k (byObjectRelation s)) i = Some t \<Longrightarrow> i = tupleKey t" for i t
    using assms by (auto simp: mem_inv_def get2_def)
  moreover have gm: "go_map (inner k (byObjectRelation s))"
    using assms by (simp add: mem_inv_def go_map_inner)
  ultimately have "\<forall>p \<in> set (inner k (byObjectRelation s)). fst p = tupleKey (snd p)" by force
  then have "map fst (inner k (byObjectRelation s)) = map tupleKey (map snd (inner k (byObjectRelation s)))"
    by simp
  with gm show ?thesis by (metis distinct_map)
qed

text \<open>No tuple is stored twice: the whole index lists distinct tuples.\<close>

lemma distinct_concat_vals:
  assumes "go_map m" and "\<forall>p \<in> set m. distinct (map snd (snd p))" and "\<forall>p \<in> set m. \<forall>t \<in> snd ` set (snd p). fst p = g t"
  shows "distinct (vals2 m)"
  using assms
proof (induction m)
  case (Cons p m)
  have "t \<notin> set (vals2 m)" if "t \<in> snd ` set (snd p)" for t
    using that Cons.prems by (force simp: vals2_def)
  with Cons show ?case by (auto simp: vals2_def)
qed simp

lemma distinct_vals2:
  assumes "mem_inv s" shows "distinct (vals2 (byObjectRelation s))"
proof (rule distinct_concat_vals)
  let ?m = "byObjectRelation s"
  have ok: "map2_ok ?m" using assms by (simp add: mem_inv_def)
  have inn: "inner (fst p) ?m = snd p" if "p \<in> set ?m" for p
    using that ok by (cases p rule: prod.exhaust) (simp add: inner_def map2_ok_def)
  show "go_map ?m" using ok by (simp add: map2_ok_def)
  show "\<forall>p \<in> set ?m. distinct (map snd (snd p))" using distinct_inner [OF assms] inn by metis
  show "\<forall>p \<in> set ?m. \<forall>t \<in> snd ` set (snd p). fst p = orKeyOf t"
  proof (intro ballI)
    fix p t assume p: "p \<in> set ?m" and "t \<in> snd ` set (snd p)"
    then obtain i where "(i, t) \<in> set (snd p)" by auto
    then have "(i, t) \<in> set (inner (fst p) ?m)" using inn [OF p] by simp
    then have "get2 ?m (fst p) i = Some t" using go_map_inner [OF ok] by (simp add: get2_def)
    with assms show "fst p = orKeyOf t" by (auto simp: mem_inv_def)
  qed
qed

lemma directHoldersLocked_card:
  assumes "mem_inv s" and "CHR '':'' \<notin> set ot" and "CHR ''#'' \<notin> set oid"
  shows "directHoldersLocked ot oid r s = int (card (holders ot oid r s))"
proof -
  let ?b = "map snd (inner (objectRelationKey ot oid r) (byObjectRelation s))"
  have "directHoldersLocked ot oid r s = int (length (filter (\<lambda>t. UserRelation t = []) ?b))"
    by (simp add: directHoldersLocked_def inner_def filter_map o_def split: option.split)
  also have "length (filter (\<lambda>t. UserRelation t = []) ?b) = card (set (filter (\<lambda>t. UserRelation t = []) ?b))"
    by (rule distinct_card [symmetric], rule distinct_filter, rule distinct_inner [OF assms(1)])
  also have "set (filter (\<lambda>t. UserRelation t = []) ?b) = holders ot oid r s"
    using inner_stored [OF assms, of r] by (auto simp: holders_def)
  finally show ?thesis .
qed

lemma DeleteIfAbove_spec:
  assumes "mem_inv s" and "wf_tuple t"
  shows "DeleteIfAbove t k s =
     (if t \<notin> stored s then (None, s)
      else if int (card (holders (ObjectType t) (ObjectID t) (Relation t) s)) \<le> k then (Some ErrLastHolder, s)
      else (None, deleteLocked t s))"
proof -
  have card: "directHoldersLocked (ObjectType t) (ObjectID t) (Relation t) s =
      int (card (holders (ObjectType t) (ObjectID t) (Relation t) s))"
    using assms(2) by (intro directHoldersLocked_card [OF assms(1)]) (auto simp: wf_tuple_def)
  have present: "map_of (inner (orKeyOf t) (byObjectRelation s)) (tupleKey t) \<noteq> None \<longleftrightarrow> t \<in> stored s"
  proof
    assume "map_of (inner (orKeyOf t) (byObjectRelation s)) (tupleKey t) \<noteq> None"
    then obtain x where x: "get2 (byObjectRelation s) (orKeyOf t) (tupleKey t) = Some x" by (auto simp: get2_def)
    with assms(1) have "tupleKey x = tupleKey t" "wf_tuple x" by (auto simp: mem_inv_def)
    with assms(2) have "x = t" by (simp add: tupleKey_inject)
    with x show "t \<in> stored s" by (simp add: stored_get2 [OF assms(1)])
  qed (simp add: stored_get2 [OF assms(1)] get2_def)
  show ?thesis
  proof (cases "map_of (byObjectRelation s) (orKeyOf t)")
    case None
    with present show ?thesis by (auto simp: DeleteIfAbove_def inner_def)
  next
    case (Some b)
    with present show ?thesis by (auto simp: DeleteIfAbove_def inner_def card)
  qed
qed
section \<open>Replacement\<close>

lemma keySet_snoc: "keySet (ts @ [t]) = AList.update (tupleKey t) t (keySet ts)"
  by (simp add: keySet_def)

lemma go_map_keySet [simp]: "go_map (keySet ts)"
proof -
  have "go_map m \<Longrightarrow> go_map (fold (\<lambda>t m. AList.update (tupleKey t) t m) ts m)" for m
    by (induction ts arbitrary: m) auto
  then show ?thesis by (simp add: keySet_def)
qed

lemma map_of_keySet:
  assumes "\<forall>t \<in> set ts. wf_tuple t"
  shows "map_of (keySet ts) k = Some t \<longleftrightarrow> t \<in> set ts \<and> tupleKey t = k"
  using assms
proof (induction ts rule: rev_induct)
  case (snoc x ts)
  have "tupleKey t = tupleKey x \<Longrightarrow> t = x" if "t \<in> set ts"
    using that snoc.prems tupleKey_inject by auto
  with snoc show ?case by (auto simp: keySet_snoc map_of_update)
qed (simp add: keySet_def)

lemma map_of_keySet_None:
  assumes "\<forall>t \<in> set ts. wf_tuple t" and "wf_tuple x"
  shows "map_of (keySet ts) (tupleKey x) = None \<longleftrightarrow> x \<notin> set ts"
  using map_of_keySet [OF assms(1)] assms tupleKey_inject by (metis not_Some_eq)

lemma set_keySet:
  "\<forall>t \<in> set ts. wf_tuple t \<Longrightarrow> set (keySet ts) = (\<lambda>t. (tupleKey t, t)) ` set ts"
proof (intro set_eqI)
  fix p :: "string \<times> Tuple"
  assume wf: "\<forall>t \<in> set ts. wf_tuple t"
  obtain k t where p: "p = (k, t)" by (cases p)
  have "(k, t) \<in> set (keySet ts) \<longleftrightarrow> map_of (keySet ts) k = Some t" by (rule go_map_mem) simp
  with map_of_keySet [OF wf] show "p \<in> set (keySet ts) \<longleftrightarrow> p \<in> (\<lambda>t. (tupleKey t, t)) ` set ts"
    by (auto simp: p)
qed

lemma distinct_keySet_vals:
  assumes "\<forall>t \<in> set ts. wf_tuple t"
  shows "distinct (map snd (filter P (keySet ts)))"
proof -
  have "\<forall>p \<in> set (keySet ts). fst p = tupleKey (snd p)" using set_keySet [OF assms] by auto
  then have "map fst (keySet ts) = map tupleKey (map snd (keySet ts))" by simp
  then have "distinct (map snd (keySet ts))" by (metis distinct_map go_map_keySet)
  then show ?thesis by (rule distinct_map_filter)
qed

lemma set_keySet_filter:
  assumes "\<forall>t \<in> set ts. wf_tuple t" and "\<forall>t \<in> set us. wf_tuple t"
  shows "set (map snd (filter (\<lambda>p. map_of (keySet us) (fst p) = None) (keySet ts))) = set ts - set us"
  using assms map_of_keySet_None [OF assms(2)] by (force simp: set_keySet)

text \<open>The exact delta: sorted by key, without duplicates.\<close>

lemma ReplacementDiff_spec:
  assumes "\<forall>t \<in> set cur. wf_tuple t" and "\<forall>t \<in> set repl. wf_tuple t"
    and "ReplacementDiff cur repl = (writes, deletes)"
  shows "set writes = set repl - set cur" "set deletes = set cur - set repl"
    "distinct writes" "distinct deletes" "sorted (map tupleKey writes)" "sorted (map tupleKey deletes)"
  using assms(3) set_keySet_filter [OF assms(1,2)] set_keySet_filter [OF assms(2,1)]
    distinct_keySet_vals [OF assms(1)] distinct_keySet_vals [OF assms(2)]
  by (auto simp: ReplacementDiff_def Let_def)
lemma ReplaceTx_spec:
  assumes "mem_inv s" and "\<forall>t \<in> set repl. wf_tuple t"
  shows "\<exists>writes deletes s'.
     ReplacementDiff (filter (\<lambda>t. matchesFilter t f) (vals2 (byObjectRelation s))) repl = (writes, deletes) \<and>
     set writes = set repl - {t \<in> stored s. matchesFilter t f} \<and>
     set deletes = {t \<in> stored s. matchesFilter t f} - set repl \<and>
     sorted (map tupleKey writes) \<and> sorted (map tupleKey deletes) \<and> distinct writes \<and> distinct deletes \<and>
     mem_inv s' \<and> materialized s' = materialized s \<and>
     stored s' = {t \<in> stored s. \<not> matchesFilter t f} \<union> set repl \<and>
     ReplaceTx f repl None s x = (Inr (writes, deletes), s', x) \<and>
     (\<forall>pre. ReplaceTx f repl (Some pre) s x =
        (case pre writes deletes x of
           (Some e, x') \<Rightarrow> (Inl e, s, x') | (None, x') \<Rightarrow> (Inr (writes, deletes), s', x')))"
proof -
  let ?cur = "filter (\<lambda>t. matchesFilter t f) (vals2 (byObjectRelation s))"
  obtain writes deletes where d: "ReplacementDiff ?cur repl = (writes, deletes)" by fastforce
  have cur: "set ?cur = {t \<in> stored s. matchesFilter t f}" by (auto simp: stored_def)
  have wfc: "\<forall>t \<in> set ?cur. wf_tuple t" using stored_wf [OF assms(1)] by (auto simp: stored_def)
  note diff = ReplacementDiff_spec [OF wfc assms(2) d]
  let ?s = "fold writeLocked writes s" and ?s' = "fold deleteLocked deletes (fold writeLocked writes s)"
  have w: "mem_inv ?s \<and> stored ?s = stored s \<union> set writes \<and> materialized ?s = materialized s"
    using diff(1) assms(2) by (intro fold_writeLocked [OF assms(1)]) auto
  have "mem_inv ?s' \<and> stored ?s' = stored ?s - set deletes \<and> materialized ?s' = materialized ?s"
    using diff(2) wfc by (intro fold_deleteLocked) (auto simp: w)
  moreover have "(stored s \<union> set writes) - set deletes = {t \<in> stored s. \<not> matchesFilter t f} \<union> set repl"
    by (auto simp: diff(1,2) stored_def)
  moreover have "ReplaceTx f repl None s x = (Inr (writes, deletes), ?s', x)"
    by (simp add: ReplaceTx_def d)
  moreover have "ReplaceTx f repl (Some pre) s x =
        (case pre writes deletes x of
           (Some e, x') \<Rightarrow> (Inl e, s, x') | (None, x') \<Rightarrow> (Inr (writes, deletes), ?s', x'))" for pre
    by (simp add: ReplaceTx_def d)
  ultimately show ?thesis using d diff w cur by (intro exI [of _ writes] exI [of _ deletes] exI [of _ ?s']) simp
qed

section \<open>The store as a set\<close>

text \<open>
  Every mutating call of the store, as data, so that a history of calls is a list. An
  \<open>OpReplace\<close> carries the answer of its precommit callback.
\<close>

datatype store_op =
    OpWrite Tuple
  | OpDelete Tuple
  | OpDeleteIfAbove Tuple int
  | OpWriteTx "Tuple list" "Tuple list"
  | OpReplaceTx TupleFilter "Tuple list" "goerror option"
  | OpWriteMaterialized string "Tuple list"
  | OpClearMaterialized string

fun store_step :: "store_op \<Rightarrow> MemoryStore \<Rightarrow> goerror option \<times> MemoryStore" where
  "store_step (OpWrite t) s = Write t s"
| "store_step (OpDelete t) s = Delete t s"
| "store_step (OpDeleteIfAbove t n) s = DeleteIfAbove t n s"
| "store_step (OpWriteTx ws ds) s = WriteTx ws ds s"
| "store_step (OpReplaceTx f rs pre) s =
     (case ReplaceTx f rs (Some (\<lambda>_ _ x. (pre, x))) s () of
        (Inl e, s', _) \<Rightarrow> (Some e, s') | (Inr _, s', _) \<Rightarrow> (None, s'))"
| "store_step (OpWriteMaterialized n ts) s = (None, WriteMaterialized n ts s)"
| "store_step (OpClearMaterialized n) s = (None, ClearMaterialized n s)"

text \<open>
  The contract of the interfaces of \<open>zanzibar/store/store.go\<close>: a set of tuples beside the named
  materialized slices. \<open>DeleteIfAbove\<close> refuses, as its comment says, a delete that would leave
  \<open>n\<close> direct holders or fewer.
\<close>

type_synonym set_store = "Tuple set \<times> (string \<rightharpoonup> Tuple list)"

fun set_step :: "store_op \<Rightarrow> set_store \<Rightarrow> goerror option \<times> set_store" where
  "set_step (OpWrite t) (S, M) = (None, insert t S, M)"
| "set_step (OpDelete t) (S, M) = (None, S - {t}, M)"
| "set_step (OpDeleteIfAbove t n) (S, M) =
     (let direct = {u \<in> S. ObjectType u = ObjectType t \<and> ObjectID u = ObjectID t \<and>
                           Relation u = Relation t \<and> UserRelation u = []} in
      if t \<in> S \<and> int (card (direct - {t})) \<le> n then (Some ErrLastHolder, S, M) else (None, S - {t}, M))"
| "set_step (OpWriteTx ws ds) (S, M) = (None, (S \<union> set ws) - set ds, M)"
| "set_step (OpReplaceTx f rs pre) (S, M) =
     (case pre of
        Some e \<Rightarrow> (Some e, S, M)
      | None \<Rightarrow> (None, {t \<in> S. \<not> matchesFilter t f} \<union> set rs, M))"
| "set_step (OpWriteMaterialized n ts) (S, M) = (None, S, M(n \<mapsto> ts))"
| "set_step (OpClearMaterialized n) (S, M) = (None, S, M(n := None))"

fun run_ops :: "('o \<Rightarrow> 's \<Rightarrow> 'e \<times> 's) \<Rightarrow> 'o list \<Rightarrow> 's \<Rightarrow> 'e list \<times> 's" where
  "run_ops step [] s = ([], s)"
| "run_ops step (op # ops) s =
     (case step op s of (e, s') \<Rightarrow> (case run_ops step ops s' of (es, s'') \<Rightarrow> (e # es, s'')))"

fun along :: "('o \<Rightarrow> 's \<Rightarrow> bool) \<Rightarrow> ('o \<Rightarrow> 's \<Rightarrow> 'e \<times> 's) \<Rightarrow> 'o list \<Rightarrow> 's \<Rightarrow> bool" where
  "along P step [] s = True"
| "along P step (op # ops) s = (P op s \<and> along P step ops (snd (step op s)))"

text \<open>
  A simulation step by step is one of whole histories, for the histories whose steps the
  specification covers.
\<close>

lemma run_ops_simulation:
  assumes "\<And>op s. I s \<Longrightarrow> ok op (h s) \<Longrightarrow>
      I (snd (step op s)) \<and> step' op (h s) = (fst (step op s), h (snd (step op s)))"
    and "I s" and "along ok step' ops (h s)"
  shows "I (snd (run_ops step ops s)) \<and>
         run_ops step' ops (h s) = (fst (run_ops step ops s), h (snd (run_ops step ops s)))"
  using assms(2,3)
proof (induction ops arbitrary: s)
  case (Cons op ops)
  obtain e s1 where st: "step op s = (e, s1)" by fastforce
  with assms(1) [of s op] Cons.prems have "I s1" and "step' op (h s) = (e, h s1)" by auto
  with Cons.IH [of s1] Cons.prems st show ?case by (auto split: prod.split)
qed simp

fun wf_op :: "store_op \<Rightarrow> bool" where
  "wf_op (OpWrite t) = wf_tuple t"
| "wf_op (OpDelete t) = wf_tuple t"
| "wf_op (OpDeleteIfAbove t n) = wf_tuple t"
| "wf_op (OpWriteTx ws ds) = (list_all wf_tuple ws \<and> list_all wf_tuple ds)"
| "wf_op (OpReplaceTx f rs pre) = list_all wf_tuple rs"
| "wf_op (OpWriteMaterialized n ts) = True"
| "wf_op (OpClearMaterialized n) = True"

text \<open>
  The calls on which \<open>MemoryStore\<close> keeps the contract. It departs from the interface comments on
  the two others: a \<open>Write\<close> of a stored tuple succeeds (\<open>Write_existing_succeeds\<close>), and a
  \<open>DeleteIfAbove\<close> that leaves exactly \<open>n\<close> direct holders succeeds (\<open>DeleteIfAbove_leaves_min\<close>).
\<close>

fun covered_op :: "store_op \<Rightarrow> set_store \<Rightarrow> bool" where
  "covered_op (OpWrite t) (S, M) = (wf_tuple t \<and> t \<notin> S)"
| "covered_op (OpDeleteIfAbove t n) (S, M) =
     (wf_tuple t \<and>
      \<not> (t \<in> S \<and> UserRelation t = [] \<and>
         int (card {u \<in> S. ObjectType u = ObjectType t \<and> ObjectID u = ObjectID t \<and>
                           Relation u = Relation t \<and> UserRelation u = []}) = n + 1))"
| "covered_op op SM = wf_op op"

lemma covered_op_wf: "covered_op op SM \<Longrightarrow> wf_op op"
  by (cases op; cases SM) auto

definition store_abs :: "MemoryStore \<Rightarrow> set_store" where
  "store_abs s = (stored s, map_of (materialized s))"

lemma WriteTx_spec:
  assumes "mem_inv s" and "list_all wf_tuple ws" and "list_all wf_tuple ds"
  shows "mem_inv (snd (WriteTx ws ds s)) \<and> stored (snd (WriteTx ws ds s)) = (stored s \<union> set ws) - set ds \<and>
         materialized (snd (WriteTx ws ds s)) = materialized s"
proof -
  note w = fold_writeLocked [OF assms(1), of ws]
  with assms have "mem_inv (fold writeLocked ws s)" by (simp add: list_all_iff)
  from fold_deleteLocked [OF this, of ds] w assms show ?thesis by (simp add: WriteTx_def list_all_iff)
qed

lemma mem_inv_materialized [simp]: "mem_inv (s\<lparr>materialized := m\<rparr>) = mem_inv s"
  by (simp add: mem_inv_def stored_def)

lemma stored_materialized [simp]: "stored (s\<lparr>materialized := m\<rparr>) = stored s"
  by (simp add: stored_def)

lemma mem_inv_store_step:
  assumes "mem_inv s" and "wf_op op"
  shows "mem_inv (snd (store_step op s))"
proof (cases op)
  case (OpDeleteIfAbove t n)
  with assms DeleteIfAbove_spec [OF assms(1), of t n] mem_inv_deleteLocked [OF assms(1), of t] show ?thesis by simp
next
  case (OpReplaceTx f rs pre)
  with assms have "\<forall>t \<in> set rs. wf_tuple t" by (simp add: list_all_iff)
  from ReplaceTx_spec [OF assms(1) this, of f "()"] show ?thesis using assms(1) by (cases pre) (auto simp: OpReplaceTx)
qed (use assms WriteTx_spec [OF assms(1)] in \<open>simp_all add: Write_def Delete_def mem_inv_writeLocked mem_inv_deleteLocked
      WriteMaterialized_def ClearMaterialized_def\<close>)

text \<open>Off the boundary case the code's count before the delete is the contract's count after it.\<close>

lemma floor_counts_agree:
  assumes "\<not> (t \<in> A \<and> int (card A) = n + 1)"
  shows "int (card (A - {t})) \<le> n \<longleftrightarrow> int (card A) \<le> n"
proof (cases "t \<in> A \<and> finite A")
  case True
  then have "card A = Suc (card (A - {t}))" by (intro card.remove) simp_all
  with assms True show ?thesis by linarith
next
  case False
  then have "card (A - {t}) = card A" by (cases "finite A") (simp_all add: card.infinite)
  then show ?thesis by simp
qed

lemma store_step_refines:
  assumes "mem_inv s" and "covered_op op (store_abs s)"
  shows "mem_inv (snd (store_step op s)) \<and>
         set_step op (store_abs s) = (fst (store_step op s), store_abs (snd (store_step op s)))"
proof (rule conjI [OF mem_inv_store_step [OF assms(1) covered_op_wf [OF assms(2)]]], cases op)
  case (OpDeleteIfAbove t n)
  with assms have wf: "wf_tuple t" by (simp add: store_abs_def)
  have "t \<in> stored s \<Longrightarrow> int (card (holders (ObjectType t) (ObjectID t) (Relation t) s - {t})) \<le> n \<longleftrightarrow>
      int (card (holders (ObjectType t) (ObjectID t) (Relation t) s)) \<le> n"
    using assms(2) by (intro floor_counts_agree) (auto simp: OpDeleteIfAbove store_abs_def holders_def)
  with DeleteIfAbove_spec [OF assms(1) wf, of n] stored_deleteLocked [OF assms(1) wf]
  show "set_step op (store_abs s) = (fst (store_step op s), store_abs (snd (store_step op s)))"
    by (simp add: OpDeleteIfAbove store_abs_def holders_def Let_def)
next
  case (OpReplaceTx f rs pre)
  with assms have "\<forall>t \<in> set rs. wf_tuple t" by (simp add: list_all_iff)
  from ReplaceTx_spec [OF assms(1) this, of f "()"]
  show "set_step op (store_abs s) = (fst (store_step op s), store_abs (snd (store_step op s)))"
    by (cases pre) (auto simp: OpReplaceTx store_abs_def)
next
  case (OpWriteTx ws ds)
  with assms WriteTx_spec [OF assms(1), of ws ds]
  show "set_step op (store_abs s) = (fst (store_step op s), store_abs (snd (store_step op s)))"
    by (simp add: store_abs_def) (simp add: WriteTx_def)
qed (use assms in \<open>simp_all add: store_abs_def Write_def Delete_def stored_writeLocked stored_deleteLocked
      WriteMaterialized_def ClearMaterialized_def map_of_update map_of_delete\<close>)

text \<open>The two departures from the interface comments, on every well-formed store.\<close>

lemma Write_existing_succeeds:
  assumes "mem_inv s" and "t \<in> stored s"
  shows "fst (Write t s) = None \<and> stored (snd (Write t s)) = stored s"
  using stored_writeLocked [OF assms(1) stored_wf [OF assms]] assms(2) by (auto simp: Write_def)

lemma DeleteIfAbove_leaves_min:
  assumes "mem_inv s" and t: "t \<in> holders ot oid r s" and "int (card (holders ot oid r s)) = n + 1"
  shows "fst (DeleteIfAbove t n s) = None \<and> int (card (holders ot oid r (snd (DeleteIfAbove t n s)))) = n"
proof -
  from t have id: "ObjectType t = ot" "ObjectID t = oid" "Relation t = r" and st: "t \<in> stored s"
    by (auto simp: holders_def)
  have wf: "wf_tuple t" using assms(1) st by (rule stored_wf)
  have "holders ot oid r (deleteLocked t s) = holders ot oid r s - {t}"
    by (auto simp: holders_def stored_deleteLocked [OF assms(1) wf])
  moreover have "card (holders ot oid r s) = Suc (card (holders ot oid r s - {t}))"
    using t by (intro card.remove) simp_all
  ultimately show ?thesis using DeleteIfAbove_spec [OF assms(1) wf, of n] id st assms(3) by simp
qed

text \<open>
  C2. The in-memory store implements a set of tuples, with the results its interfaces document. A
  history of mutating calls on a new store is covered when the key parts of its tuples are free of
  the separators behind them (\<open>wf_tuple\<close>; other tuples can share a key), every single \<open>Write\<close> is of
  a tuple not yet stored, and no \<open>DeleteIfAbove\<close> would leave exactly its minimum. Such a history,
  whatever its order, returns the errors of the set specification and leaves a store whose tuples
  and materialized slices are the specification's, both of its indexes agreeing (\<open>mem_inv\<close>).
  Model validation of a written tuple is the engine's, before it calls the store.
\<close>

theorem store_refines_set:
  assumes "along covered_op set_step ops ({}, \<lambda>_. None)"
  shows "mem_inv (snd (run_ops store_step ops NewMemoryStore)) \<and>
         run_ops set_step ops ({}, \<lambda>_. None) =
           (fst (run_ops store_step ops NewMemoryStore), store_abs (snd (run_ops store_step ops NewMemoryStore)))"
proof -
  have "store_abs NewMemoryStore = ({}, \<lambda>_. None)" by (simp add: store_abs_def) (simp add: NewMemoryStore_def)
  with run_ops_simulation [of mem_inv covered_op store_abs store_step set_step NewMemoryStore ops]
  show ?thesis using assms store_step_refines by simp
qed

definition tup :: "string \<Rightarrow> string \<Rightarrow> string \<Rightarrow> string \<Rightarrow> string \<Rightarrow> string \<Rightarrow> Tuple" where
  "tup ot oid r ut uid ur =
     \<lparr>ObjectType = ot, ObjectID = oid, Relation = r, UserType = ut, UserID = uid, UserRelation = ur\<rparr>"

definition owner :: "string \<Rightarrow> Tuple" where
  "owner uid = tup ''doc'' ''1'' ''owner'' ''user'' uid []"

definition sample_ops :: "store_op list" where
  "sample_ops =
     [OpWrite (owner ''a''), OpWrite (owner ''b''), OpWrite (owner ''c''),
      OpDeleteIfAbove (owner ''c'') 1, OpDelete (owner ''b''), OpDeleteIfAbove (owner ''a'') 1]"

definition sample_store :: MemoryStore where
  "sample_store = snd (run_ops store_step (take 2 sample_ops) NewMemoryStore)"

lemma sample_ops_errs:
  "fst (run_ops store_step sample_ops NewMemoryStore) = [None, None, None, None, None, Some ErrLastHolder]"
  by code_simp

lemma owners_of_doc:
  "{u. (u = a \<or> Q u) \<and> P u} = (if P a then insert a {u. Q u \<and> P u} else {u. Q u \<and> P u})"
  "{u. u = a \<and> P u} = (if P a then {a} else {})"
  by auto

lemma sample_ops_covered: "along covered_op set_step sample_ops ({}, \<lambda>_. None)"
  by (simp add: sample_ops_def owner_def tup_def wf_tuple_def owners_of_doc insert_Diff_if)

lemma mem_inv_sample: "mem_inv sample_store"
  unfolding sample_store_def
  by (simp add: sample_ops_def Write_def mem_inv_writeLocked owner_def tup_def wf_tuple_def)

theorem store_refines_set_witness:
  "along covered_op set_step sample_ops ({}, \<lambda>_. None) \<and>
   mem_inv (snd (run_ops store_step sample_ops NewMemoryStore)) \<and>
   fst (run_ops set_step sample_ops ({}, \<lambda>_. None)) = [None, None, None, None, None, Some ErrLastHolder]"
  using store_refines_set [OF sample_ops_covered] sample_ops_covered sample_ops_errs by simp

section \<open>The holder floor\<close>

lemma holders_delete:
  assumes "mem_inv s" and "wf_tuple t"
  shows "holders ot oid r (deleteLocked t s) = holders ot oid r s - {t}"
  by (auto simp: holders_def stored_deleteLocked [OF assms])

lemma DeleteIfAbove_floor:
  assumes "mem_inv s" and "wf_tuple t"
  shows "mem_inv (snd (DeleteIfAbove t n s)) \<and>
         min n (int (card (holders ot oid r s))) \<le> int (card (holders ot oid r (snd (DeleteIfAbove t n s))))"
proof (cases "t \<in> holders ot oid r s \<and> snd (DeleteIfAbove t n s) = deleteLocked t s")
  case True
  then have id: "ObjectType t = ot" "ObjectID t = oid" "Relation t = r" "t \<in> stored s"
    by (auto simp: holders_def)
  have inv: "mem_inv (deleteLocked t s)" using assms by (rule mem_inv_deleteLocked)
  show ?thesis
  proof (cases "int (card (holders ot oid r s)) \<le> n")
    case le: True
    then have "DeleteIfAbove t n s = (Some ErrLastHolder, s)"
      using DeleteIfAbove_spec [OF assms, of n] id by simp
    with assms show ?thesis by simp
  next
    case False
    from True have "card (holders ot oid r s - {t}) = card (holders ot oid r s) - 1"
      by (intro card_Diff_singleton) simp
    with False True inv show ?thesis by (simp add: holders_delete [OF assms])
  qed
next
  case False
  have "snd (DeleteIfAbove t n s) \<in> {s, deleteLocked t s}"
    using DeleteIfAbove_spec [OF assms, of n] by auto
  with False assms show ?thesis by (auto simp: holders_delete [OF assms] mem_inv_deleteLocked)
qed

text \<open>
  Guarded deletes never strand a required relation. Whatever guarded deletes arrive, in
  whatever order, an object that has at least \<open>n\<close> direct holders of a relation keeps at least
  \<open>n\<close> of them under the floor \<open>n\<close>, and one that has fewer loses none.
\<close>

theorem guarded_deletes_keep_floor:
  assumes "mem_inv s" and "list_all wf_tuple ts"
  shows "min n (int (card (holders ot oid r s))) \<le>
         int (card (holders ot oid r (snd (run_ops (\<lambda>t. DeleteIfAbove t n) ts s))))"
  using assms
proof (induction ts arbitrary: s)
  case (Cons t ts)
  let ?s = "snd (DeleteIfAbove t n s)"
  have step: "mem_inv ?s" "min n (int (card (holders ot oid r s))) \<le> int (card (holders ot oid r ?s))"
    using DeleteIfAbove_floor [of s t n ot oid r] Cons.prems by simp_all
  have "min n (int (card (holders ot oid r ?s))) \<le>
      int (card (holders ot oid r (snd (run_ops (\<lambda>t. DeleteIfAbove t n) ts ?s))))"
    using Cons.IH [of ?s] Cons.prems step by simp
  with step(2) show ?case by (simp split: prod.split add: case_prod_unfold)
qed simp

theorem guarded_deletes_keep_floor_witness:
  "mem_inv sample_store \<and>
   min 1 (int (card (holders ''doc'' ''1'' ''owner'' sample_store))) \<le>
   int (card (holders ''doc'' ''1'' ''owner'' (snd (run_ops (\<lambda>t. DeleteIfAbove t 1)
     [tup ''doc'' ''1'' ''owner'' ''user'' ''a'' [], tup ''doc'' ''1'' ''owner'' ''user'' ''b'' []] sample_store))))"
proof -
  have "list_all wf_tuple [tup ''doc'' ''1'' ''owner'' ''user'' ''a'' [], tup ''doc'' ''1'' ''owner'' ''user'' ''b'' []]"
    by code_simp
  from guarded_deletes_keep_floor [OF mem_inv_sample this] mem_inv_sample show ?thesis by blast
qed

text \<open>
  A replacement under the store lock is exact. With any precommit callback, the callback is
  shown the sorted, duplicate-free delta between the matching tuples and the replacements; when
  it refuses, the store is unchanged, and when it accepts, the matching tuples are exactly the
  replacements, and no other tuple and no materialized tuple moves.
\<close>

theorem ReplaceTx_exact:
  assumes "mem_inv s" and "list_all wf_tuple repl"
  shows "\<exists>writes deletes s'.
     set writes = set repl - {t \<in> stored s. matchesFilter t f} \<and>
     set deletes = {t \<in> stored s. matchesFilter t f} - set repl \<and>
     sorted (map tupleKey writes) \<and> sorted (map tupleKey deletes) \<and> distinct writes \<and> distinct deletes \<and>
     ReplaceTx f repl (Some pre) s x =
       (case pre writes deletes x of
          (Some e, x') \<Rightarrow> (Inl e, s, x') | (None, x') \<Rightarrow> (Inr (writes, deletes), s', x')) \<and>
     mem_inv s' \<and> stored s' = {t \<in> stored s. \<not> matchesFilter t f} \<union> set repl \<and>
     materialized s' = materialized s"
  using ReplaceTx_spec [OF assms(1), of repl f x] assms(2) by (simp add: list_all_iff) blast

theorem ReplaceTx_exact_witness:
  "\<exists>writes deletes s'.
     set writes = {tup ''doc'' ''1'' ''owner'' ''user'' ''c'' []} -
       {t \<in> stored sample_store. matchesFilter t (filterOf ''doc'' ''1'' ''owner'')} \<and>
     ReplaceTx (filterOf ''doc'' ''1'' ''owner'') [tup ''doc'' ''1'' ''owner'' ''user'' ''c'' []]
       (Some (\<lambda>w d n. (None, n + length w + length d))) sample_store (0 :: nat) =
     (Inr (writes, deletes), s', length writes + length deletes) \<and>
     tup ''doc'' ''1'' ''owner'' ''user'' ''c'' [] \<in> stored s'"
proof -
  have "list_all wf_tuple [tup ''doc'' ''1'' ''owner'' ''user'' ''c'' []]" by code_simp
  from ReplaceTx_exact [OF mem_inv_sample this, of "filterOf ''doc'' ''1'' ''owner''"
      "\<lambda>w d n. (None, n + length w + length d)" "0 :: nat"]
  show ?thesis by fastforce
qed

end
