(* ===== verification/Tuple_Store.thy ===== *)
theory Tuple_Store
  imports Memory_Store
begin

text \<open>
  The interface \<open>store.TupleStore\<close> of \<open>zanzibar/store/store.go\<close> as a record of operations over a
  store state, its contract as the locales \<open>tuple_reader\<close> and \<open>tuple_store\<close>, the memory store as an
  implementation of both, and the overlay of context tuples (\<open>context_store.go\<close>) as an
  implementation over any other.
\<close>

section \<open>The interface and its implementations\<close>

record 's TupleStore =
  tsWrite :: "Tuple \<Rightarrow> 's \<Rightarrow> goerror option \<times> 's"
  tsDelete :: "Tuple \<Rightarrow> 's \<Rightarrow> goerror option \<times> 's"
  tsRead :: "TupleFilter \<Rightarrow> 's \<Rightarrow> Tuple list res"
  tsReadUsersets :: "string \<Rightarrow> string \<Rightarrow> string \<Rightarrow> 's \<Rightarrow> Tuple list res"

definition memoryTupleStore :: "MemoryStore TupleStore" where
  "memoryTupleStore =
     \<lparr>tsWrite = Write, tsDelete = Delete, tsRead = Read, tsReadUsersets = ReadUsersets\<rparr>"

definition matchesTupleFilter :: "Tuple \<Rightarrow> TupleFilter \<Rightarrow> bool" where
  "matchesTupleFilter t f =
     (if fObjectType f \<noteq> [] \<and> ObjectType t \<noteq> fObjectType f then False
      else if fObjectID f \<noteq> [] \<and> ObjectID t \<noteq> fObjectID f then False
      else if fRelation f \<noteq> [] \<and> Relation t \<noteq> fRelation f then False
      else if fUserType f \<noteq> [] \<and> UserType t \<noteq> fUserType f then False
      else if fUserID f \<noteq> [] \<and> UserID t \<noteq> fUserID f then False
      else if fUserRelation f \<noteq> [] \<and> UserRelation t \<noteq> fUserRelation f then False
      else True)"

text \<open>\<open>NewContextTupleStore\<close> with the four methods of the type it returns: writes and deletes go to
  the inner store, reads append the matching context tuples.\<close>

definition NewContextTupleStore :: "'s TupleStore \<Rightarrow> Tuple list \<Rightarrow> 's TupleStore" where
  "NewContextTupleStore innerStore context_tuples =
     \<lparr>tsWrite = tsWrite innerStore,
      tsDelete = tsDelete innerStore,
      tsRead = (\<lambda>f s.
        (case tsRead innerStore f s of
           Inl e \<Rightarrow> Inl e
         | Inr ts \<Rightarrow> Inr (ts @ filter (\<lambda>t. matchesTupleFilter t f) context_tuples))),
      tsReadUsersets = (\<lambda>objectType objectID relation s.
        (case tsReadUsersets innerStore objectType objectID relation s of
           Inl e \<Rightarrow> Inl e
         | Inr ts \<Rightarrow> Inr (ts @ filter (isUsersetOf objectType objectID relation) context_tuples)))\<rparr>"

lemma matchesTupleFilter_eq: "matchesTupleFilter t f = matchesFilter t f"
  by (simp add: matchesTupleFilter_def matchesFilter_def)

section \<open>The contract of a reader\<close>

text \<open>An object reference whose key splits uniquely.\<close>

definition clean :: "string \<Rightarrow> string \<Rightarrow> bool" where
  "clean ot oid \<longleftrightarrow> CHR '':'' \<notin> set ot \<and> CHR ''#'' \<notin> set oid"

text \<open>
  What the graph traversal relies on: in an admissible state the store holds finitely many tuples,
  a read returns exactly those that match, and the userset read those of one object and relation.
\<close>

locale tuple_reader =
  fixes st :: "'s TupleStore"
    and tuples :: "'s \<Rightarrow> Tuple set"
    and admissible :: "'s \<Rightarrow> bool"
  assumes finite_tuples: "admissible s \<Longrightarrow> finite (tuples s)"
    and subject_clean: "admissible s \<Longrightarrow> t \<in> tuples s \<Longrightarrow> clean (UserType t) (UserID t)"
    and read_law: "admissible s \<Longrightarrow> \<exists>ts. tsRead st f s = Inr ts \<and> set ts = {t \<in> tuples s. matchesFilter t f}"
    and usersets_law: "admissible s \<Longrightarrow> clean ot oid \<Longrightarrow>
      \<exists>ts. tsReadUsersets st ot oid r s = Inr ts \<and> set ts = {t \<in> tuples s. isUsersetOf ot oid r t}"

text \<open>A store also promises what a read sees after a write or a delete.\<close>

locale tuple_store = tuple_reader +
  assumes write_law: "admissible s \<Longrightarrow> wf_tuple t \<Longrightarrow>
      \<exists>s'. tsWrite st t s = (None, s') \<and> admissible s' \<and> tuples s' = insert t (tuples s)"
    and delete_law: "admissible s \<Longrightarrow> wf_tuple t \<Longrightarrow>
      \<exists>s'. tsDelete st t s = (None, s') \<and> admissible s' \<and> tuples s - {t} \<subseteq> tuples s' \<and> tuples s' \<subseteq> tuples s"

context tuple_store
begin

lemma write_then_read:
  assumes "admissible s" and "wf_tuple t" and "matchesFilter t f" and "tsWrite st t s = (eo, s')"
  shows "\<exists>ts. tsRead st f s' = Inr ts \<and> t \<in> set ts"
proof -
  from write_law [OF assms(1,2)] assms(4) have "admissible s'" "t \<in> tuples s'" by auto
  with read_law [of s' f] assms(3) show ?thesis by auto
qed

lemma write_read_others:
  assumes "admissible s" and "wf_tuple t" and "\<not> matchesFilter t f" and "tsWrite st t s = (eo, s')"
  shows "\<exists>ts ts'. tsRead st f s = Inr ts \<and> tsRead st f s' = Inr ts' \<and> set ts' = set ts"
proof -
  from write_law [OF assms(1,2)] assms(4) have "admissible s'" "tuples s' = insert t (tuples s)" by auto
  with read_law [of s' f] read_law [of s f] assms(1,3) show ?thesis by fastforce
qed

end

section \<open>The memory store keeps the contract\<close>

definition mem_admissible :: "MemoryStore \<Rightarrow> bool" where
  "mem_admissible s \<longleftrightarrow> mem_inv s \<and> list_all wf_tuple (matTuples s)"

lemma wf_tuple_clean: "wf_tuple t \<Longrightarrow> clean (UserType t) (UserID t)"
  by (simp add: wf_tuple_def clean_def)

lemma matTuples_locked [simp]:
  "matTuples (writeLocked t s) = matTuples s" "matTuples (deleteLocked t s) = matTuples s"
  by (simp_all add: matTuples_def)

lemma finite_all_tuples [simp]: "finite (all_tuples s)"
  by (simp add: all_tuples_def)

lemma all_tuples_writeLocked:
  "mem_inv s \<Longrightarrow> wf_tuple t \<Longrightarrow> all_tuples (writeLocked t s) = insert t (all_tuples s)"
  by (simp add: all_tuples_def stored_writeLocked)

lemma all_tuples_deleteLocked:
  "mem_inv s \<Longrightarrow> wf_tuple t \<Longrightarrow> all_tuples (deleteLocked t s) = (stored s - {t}) \<union> set (matTuples s)"
  by (simp add: all_tuples_def stored_deleteLocked)

interpretation mem: tuple_store memoryTupleStore all_tuples mem_admissible
proof (unfold_locales, goal_cases)
  case (2 s t)
  then have "wf_tuple t"
    using stored_wf [of s t] by (auto simp: mem_admissible_def all_tuples_def list_all_iff)
  then show ?case by (rule wf_tuple_clean)
next
  case (6 s t)
  then show ?case
    by (auto simp: memoryTupleStore_def mem_admissible_def Delete_def mem_inv_deleteLocked
        all_tuples_deleteLocked) (auto simp: all_tuples_def)
qed (auto simp: memoryTupleStore_def mem_admissible_def Write_def clean_def
    mem_inv_writeLocked all_tuples_writeLocked dest: Read_set ReadUsersets_set)

section \<open>The overlay keeps the contract of a reader\<close>

definition clean_subjects :: "Tuple list \<Rightarrow> bool" where
  "clean_subjects ts \<longleftrightarrow> list_all (\<lambda>t. clean (UserType t) (UserID t)) ts"

lemma overlay_reader:
  assumes "tuple_reader st tuples admissible" and "clean_subjects ctx"
  shows "tuple_reader (NewContextTupleStore st ctx) (\<lambda>s. tuples s \<union> set ctx) admissible"
proof -
  note laws = tuple_reader.finite_tuples [OF assms(1)] tuple_reader.subject_clean [OF assms(1)]
  show ?thesis
  proof (unfold_locales, goal_cases)
    case (3 s f)
    from tuple_reader.read_law [OF assms(1) this, of f] show ?case
      by (auto simp: NewContextTupleStore_def matchesTupleFilter_eq)
  next
    case (4 s ot oid r)
    from tuple_reader.usersets_law [OF assms(1) this, of r] show ?case
      by (auto simp: NewContextTupleStore_def)
  qed (use laws assms(2) in \<open>auto simp: clean_subjects_def list_all_iff\<close>)
qed

end
