(* ===== verification/Checker.thy ===== *)
theory Checker
  imports Tuple_Store "HOL-Library.Monad_Syntax"
begin

text \<open>
  The graph traversal of \<open>zanzibar/check\<close>: \<open>Check\<close> with its visited set (\<open>checker.go\<close>) and the list
  operations (\<open>list.go\<close>). The traversal is the option-valued partial function \<open>check\<close>, whose value
  \<open>None\<close> means that it does not return; that it returns on every store that keeps the reader
  contract is a theorem. A traversal reads one store state: the store's own lock orders each read,
  and the theorems speak of a store that no writer changes during the call.
\<close>

section \<open>The traversal\<close>

record 's Checker =
  chModel :: Model
  chStore :: "'s TupleStore"

definition New :: "Model \<Rightarrow> 's TupleStore \<Rightarrow> 's Checker" where
  "New m st = \<lparr>chModel = m, chStore = st\<rparr>"

text \<open>
  A context is what its \<open>Err\<close> method answers at the n-th poll. The traversal threads the visited
  set and the number of polls so far.
\<close>

type_synonym ctx = "nat \<Rightarrow> goerror option"
type_synonym walk = "string set \<times> nat"
type_synonym found = "(bool res \<times> walk) option"

definition visitKey :: "string \<Rightarrow> string \<Rightarrow> string \<Rightarrow> string \<Rightarrow> string \<Rightarrow> string \<Rightarrow> string" where
  "visitKey objectType objectID relation userType userID userRelation =
     objectType @ '':'' @ objectID @ ''#'' @ relation @ ''@'' @ userType @ '':'' @ userID @ ''#'' @ userRelation"

text \<open>
  \<open>found, err := a(); if err != nil { return false, err }; if found { return true, nil }\<close> followed
  by the rest of the body, and the loop that does so for each element.
\<close>

definition or_else :: "(walk \<Rightarrow> found) \<Rightarrow> (walk \<Rightarrow> found) \<Rightarrow> walk \<Rightarrow> found" where
  "or_else a rest w =
     Option.bind (a w) (\<lambda>(r, w').
       (case r of Inl e \<Rightarrow> Some (Inl e, w') | Inr b \<Rightarrow> if b then Some (Inr True, w') else rest w'))"

fun any_found :: "('a \<Rightarrow> walk \<Rightarrow> found) \<Rightarrow> 'a list \<Rightarrow> walk \<Rightarrow> found" where
  "any_found f [] w = Some (Inr False, w)"
| "any_found f (x # xs) w = or_else (f x) (any_found f xs) w"

definition directCheck ::
    "'s Checker \<Rightarrow> 's \<Rightarrow> string \<Rightarrow> string \<Rightarrow> string \<Rightarrow> string \<Rightarrow> string \<Rightarrow> string \<Rightarrow> bool res" where
  "directCheck c s userType userID userRelation relation objectType objectID =
     (case tsRead (chStore c)
             \<lparr>fObjectType = objectType, fObjectID = objectID, fRelation = relation,
              fUserType = userType, fUserID = userID, fUserRelation = userRelation\<rparr> s of
        Inl e \<Rightarrow> Inl (Wrapf STR ''direct check: %w'' [] e)
      | Inr tuples \<Rightarrow> Inr (length tuples > 0))"

text \<open>The mutually recursive methods take the traversal they call as their first argument: user type,
  user id, user relation, relation, object type and object id of the nested check.\<close>

type_synonym checkFn = "string \<Rightarrow> string \<Rightarrow> string \<Rightarrow> string \<Rightarrow> string \<Rightarrow> string \<Rightarrow> walk \<Rightarrow> found"

definition usersetExpansion ::
    "checkFn \<Rightarrow> 's Checker \<Rightarrow> 's \<Rightarrow> string \<Rightarrow> string \<Rightarrow> string \<Rightarrow> string \<Rightarrow> string \<Rightarrow> walk \<Rightarrow> found" where
  "usersetExpansion chk c s userType userID relation objectType objectID w =
     (case tsReadUsersets (chStore c) objectType objectID relation s of
        Inl e \<Rightarrow> Some (Inl (Wrapf STR ''read usersets: %w'' [] e), w)
      | Inr usersets \<Rightarrow>
          any_found (\<lambda>us. chk userType userID [] (UserRelation us) (UserType us) (UserID us)) usersets w)"

definition tupleToUserset ::
    "checkFn \<Rightarrow> 's Checker \<Rightarrow> 's \<Rightarrow> string \<Rightarrow> string \<Rightarrow> string \<Rightarrow> FromLookup \<Rightarrow> string \<Rightarrow> string \<Rightarrow> walk \<Rightarrow> found" where
  "tupleToUserset chk c s userType userID userRelation fl objectType objectID w =
     (case tsRead (chStore c) (filterOf objectType objectID (From fl)) s of
        Inl e \<Rightarrow> Some (Inl (Wrapf STR ''read from relation %q: %w'' [From fl] e), w)
      | Inr fromTuples \<Rightarrow>
          any_found (\<lambda>ft. chk userType userID userRelation (Lookup fl) (UserType ft) (UserID ft)) fromTuples w)"

text \<open>One iteration of the loop over the rewrite rules.\<close>

definition check_rule ::
    "checkFn \<Rightarrow> 's Checker \<Rightarrow> 's \<Rightarrow> string \<Rightarrow> string \<Rightarrow> string \<Rightarrow> string \<Rightarrow> string \<Rightarrow> string \<Rightarrow> RewriteRule \<Rightarrow> walk \<Rightarrow> found" where
  "check_rule chk c s userType userID userRelation relation objectType objectID rw =
     or_else
       (\<lambda>w. if Direct rw
            then or_else
                   (\<lambda>w. Some (directCheck c s userType userID userRelation relation objectType objectID, w))
                   (usersetExpansion chk c s userType userID relation objectType objectID) w
            else Some (Inr False, w))
       (or_else
         (\<lambda>w. if ComputedRelation rw \<noteq> []
              then chk userType userID userRelation (ComputedRelation rw) objectType objectID w
              else Some (Inr False, w))
         (\<lambda>w. case FromLookup rw of
                None \<Rightarrow> Some (Inr False, w)
              | Some fl \<Rightarrow> tupleToUserset chk c s userType userID userRelation fl objectType objectID w))"

definition check_body ::
    "checkFn \<Rightarrow> 's Checker \<Rightarrow> ctx \<Rightarrow> 's \<Rightarrow> checkFn" where
  "check_body chk c ctxErr s userType userID userRelation relation objectType objectID w =
     (case w of (visited, polls) \<Rightarrow>
        (case ctxErr polls of
           Some e \<Rightarrow> Some (Inl e, visited, Suc polls)
         | None \<Rightarrow>
             (let key = visitKey objectType objectID relation userType userID userRelation in
              if key \<in> visited then Some (Inr False, visited, Suc polls)
              else
                (let w' = (insert key visited, Suc polls) in
                 case map_of (Types (chModel c)) objectType of
                   None \<Rightarrow> Some (Inr False, w')
                 | Some typeDef \<Rightarrow>
                     (case map_of (Relations typeDef) relation of
                        None \<Rightarrow> Some (Inr False, w')
                      | Some relDef \<Rightarrow>
                          any_found
                            (check_rule chk c s userType userID userRelation relation objectType objectID)
                            (Rewrites relDef) w')))))"

lemma or_else_mono [partial_function_mono]:
  assumes "\<And>w. mono_option (\<lambda>F. a F w)" and "\<And>w. mono_option (\<lambda>F. b F w)"
  shows "mono_option (\<lambda>F. or_else (a F) (b F) w)"
  unfolding or_else_def
proof (intro bind_mono assms)
  fix p :: "bool res \<times> walk"
  obtain r w' where p: "p = (r, w')" by (cases p)
  show "mono_option (\<lambda>F. case p of (r, w') \<Rightarrow>
      (case r of Inl e \<Rightarrow> Some (Inl e, w') | Inr x \<Rightarrow> if x then Some (Inr True, w') else b F w'))"
  proof (cases r)
    case (Inr x)
    then show ?thesis by (cases x) (simp_all add: p assms(2) option.const_mono)
  qed (simp add: p option.const_mono)
qed

lemma any_found_mono [partial_function_mono]:
  assumes "\<And>x w. mono_option (\<lambda>F. f F x w)"
  shows "mono_option (\<lambda>F. any_found (f F) xs w)"
  by (induction xs arbitrary: w) (simp_all add: option.const_mono or_else_mono assms)

lemma usersetExpansion_mono:
  assumes "\<And>ut uid ur r ot oid w. mono_option (\<lambda>F. chk F ut uid ur r ot oid w)"
  shows "mono_option (\<lambda>F. usersetExpansion (chk F) c s ut uid r ot oid w)"
  unfolding usersetExpansion_def
  by (cases "tsReadUsersets (chStore c) ot oid r s") (simp_all add: option.const_mono any_found_mono assms)

lemma tupleToUserset_mono:
  assumes "\<And>ut uid ur r ot oid w. mono_option (\<lambda>F. chk F ut uid ur r ot oid w)"
  shows "mono_option (\<lambda>F. tupleToUserset (chk F) c s ut uid ur fl ot oid w)"
  unfolding tupleToUserset_def
  by (cases "tsRead (chStore c) (filterOf ot oid (From fl)) s") (simp_all add: option.const_mono any_found_mono assms)

lemma check_rule_mono:
  assumes "\<And>ut uid ur r ot oid w. mono_option (\<lambda>F. chk F ut uid ur r ot oid w)"
  shows "mono_option (\<lambda>F. check_rule (chk F) c s ut uid ur r ot oid rw w)"
  unfolding check_rule_def
  by (cases "Direct rw"; cases "ComputedRelation rw = []"; cases "FromLookup rw";
      simp add: option.const_mono or_else_mono usersetExpansion_mono tupleToUserset_mono assms)

lemma check_body_mono [partial_function_mono]:
  assumes "\<And>ut uid ur r ot oid w. mono_option (\<lambda>F. chk F ut uid ur r ot oid w)"
  shows "mono_option (\<lambda>F. check_body (chk F) c ctxErr s ut uid ur r ot oid w)"
proof (cases w)
  case (Pair visited polls)
  show ?thesis
  proof (cases "ctxErr polls")
    case None
    have "mono_option (\<lambda>F. any_found (check_rule (chk F) c s ut uid ur r ot oid) rws w')" for rws w'
      by (intro any_found_mono check_rule_mono assms)
    with None Pair show ?thesis
      by (cases "visitKey ot oid r ut uid ur \<in> visited"; cases "map_of (Types (chModel c)) ot";
          cases "map_of (Relations (the (map_of (Types (chModel c)) ot))) r")
        (simp_all add: check_body_def Let_def option.const_mono)
  qed (simp add: check_body_def Pair option.const_mono)
qed

partial_function (option) check ::
    "'s Checker \<Rightarrow> ctx \<Rightarrow> 's \<Rightarrow> string \<Rightarrow> string \<Rightarrow> string \<Rightarrow> string \<Rightarrow> string \<Rightarrow> string \<Rightarrow> walk \<Rightarrow> found" where
  "check c ctxErr s userType userID userRelation relation objectType objectID w =
     check_body
       (\<lambda>userType userID userRelation relation objectType objectID w.
          check c ctxErr s userType userID userRelation relation objectType objectID w)
       c ctxErr s userType userID userRelation relation objectType objectID w"
definition Check ::
    "'s Checker \<Rightarrow> ctx \<Rightarrow> 's \<Rightarrow> string \<Rightarrow> string \<Rightarrow> string \<Rightarrow> string \<Rightarrow> string \<Rightarrow> nat \<Rightarrow> (bool res \<times> nat) option" where
  "Check c ctxErr s userType userID relation objectType objectID polls =
     map_option (\<lambda>(r, _, polls'). (r, polls'))
       (check c ctxErr s userType userID [] relation objectType objectID ({}, polls))"

definition CheckWithContext ::
    "'s Checker \<Rightarrow> ctx \<Rightarrow> 's \<Rightarrow> Tuple list \<Rightarrow> string \<Rightarrow> string \<Rightarrow> string \<Rightarrow> string \<Rightarrow> string \<Rightarrow> nat \<Rightarrow> (bool res \<times> nat) option" where
  "CheckWithContext c ctxErr s contextTuples userType userID relation objectType objectID polls =
     (let ctxStore = NewContextTupleStore (chStore c) contextTuples;
          tmp = New (chModel c) ctxStore
      in Check tmp ctxErr s userType userID relation objectType objectID polls)"

text \<open>\<open>strings.SplitN(key, ":", 2)\<close> has two parts exactly when the separator occurs.\<close>

definition ParseUserKey :: "string \<Rightarrow> string \<times> string \<times> string" where
  "ParseUserKey key =
     (case cut (CHR '':'') key of (userType, rest, ok) \<Rightarrow>
        if \<not> ok then (key, [], [])
        else (case cut (CHR ''#'') rest of (userID, userRelation, hasRel) \<Rightarrow>
                if hasRel then (userType, userID, userRelation) else (userType, rest, [])))"

definition ParseObjectKey :: "string \<Rightarrow> string \<times> string" where
  "ParseObjectKey key =
     (case cut (CHR '':'') key of (objectType, objectID, ok) \<Rightarrow>
        if \<not> ok then (key, []) else (objectType, objectID))"

section \<open>The list operations\<close>

text \<open>The loop of \<open>ListObjects\<close> over the candidates. A cancelled context returns the objects found so
  far beside the error; an error of a check returns none.\<close>

fun listObjectsLoop ::
    "(string \<Rightarrow> nat \<Rightarrow> (bool res \<times> nat) option) \<Rightarrow> ctx \<Rightarrow> string list \<Rightarrow> string list \<Rightarrow> string set \<Rightarrow> nat \<Rightarrow>
     (string list \<times> goerror option) option" where
  "listObjectsLoop chk ctxErr [] result seen polls = Some (result, None)"
| "listObjectsLoop chk ctxErr (objectID # rest) result seen polls =
     (case ctxErr polls of
        Some e \<Rightarrow> Some (result, Some e)
      | None \<Rightarrow>
          if objectID \<in> seen then listObjectsLoop chk ctxErr rest result seen (Suc polls)
          else
            Option.bind (chk objectID (Suc polls)) (\<lambda>(r, polls').
              (case r of
                 Inl e \<Rightarrow> Some ([], Some e)
               | Inr allowed \<Rightarrow>
                   if allowed
                   then listObjectsLoop chk ctxErr rest (result @ [objectID]) (insert objectID seen) polls'
                   else listObjectsLoop chk ctxErr rest result seen polls')))"

definition ListObjects ::
    "'s Checker \<Rightarrow> ctx \<Rightarrow> 's \<Rightarrow> string \<Rightarrow> string \<Rightarrow> string \<Rightarrow> string \<Rightarrow> (string list \<times> goerror option) option" where
  "ListObjects c ctxErr s userType userID relation objectType =
     (case tsRead (chStore c) (filterOf objectType [] []) s of
        Inl e \<Rightarrow> Some ([], Some e)
      | Inr allTuples \<Rightarrow>
          (let candidates = remdups (map ObjectID allTuples) in
           listObjectsLoop
             (\<lambda>objectID. Check c ctxErr s userType userID relation objectType objectID)
             ctxErr candidates [] {} 0))"

definition addUser :: "string \<Rightarrow> string list \<times> string set \<Rightarrow> string list \<times> string set" where
  "addUser key acc =
     (case acc of (result, seen) \<Rightarrow> if key \<in> seen then (result, seen) else (result @ [key], insert key seen))"

fun listComputed ::
    "(string \<Rightarrow> string list res option) \<Rightarrow> RewriteRule list \<Rightarrow> string list \<times> string set \<Rightarrow> string list res option" where
  "listComputed list [] acc = Some (Inr (fst acc))"
| "listComputed list (rw # rws) acc =
     (if ComputedRelation rw \<noteq> []
      then Option.bind (list (ComputedRelation rw)) (\<lambda>r.
             (case r of Inl e \<Rightarrow> Some (Inl e) | Inr computed \<Rightarrow> listComputed list rws (fold addUser computed acc)))
      else listComputed list rws acc)"

lemma listComputed_mono [partial_function_mono]:
  assumes "\<And>r. mono_option (\<lambda>F. l F r)"
  shows "mono_option (\<lambda>F. listComputed (l F) rws acc)"
proof (induction rws arbitrary: acc)
  case (Cons rw rws)
  have "mono_option (\<lambda>F. case r of Inl e \<Rightarrow> Some (Inl e)
      | Inr computed \<Rightarrow> listComputed (l F) rws (fold addUser computed acc))" for r
    using Cons by (cases r) (simp_all add: option.const_mono)
  then show ?case
    using Cons by (cases "ComputedRelation rw = []") (simp_all add: bind_mono assms)
qed (simp add: option.const_mono)

partial_function (option) ListUsers ::
    "'s Checker \<Rightarrow> 's \<Rightarrow> string \<Rightarrow> string \<Rightarrow> string \<Rightarrow> string list res option" where
  "ListUsers c s relation objectType objectID =
     (case tsRead (chStore c) (filterOf objectType objectID relation) s of
        Inl e \<Rightarrow> Some (Inl e)
      | Inr tuples \<Rightarrow>
          (let acc = fold addUser (map UserKey tuples) ([], {}) in
           case map_of (Types (chModel c)) objectType of
             None \<Rightarrow> Some (Inr (fst acc))
           | Some typeDef \<Rightarrow>
               (case map_of (Relations typeDef) relation of
                  None \<Rightarrow> Some (Inr (fst acc))
                | Some relDef \<Rightarrow>
                    listComputed (\<lambda>r. ListUsers c s r objectType objectID) (Rewrites relDef) acc)))"

section \<open>What a check decides\<close>

text \<open>
  The relationship semantics: an object's relation is granted to a user by a matching direct
  tuple, through a userset tuple, through a computed relation, or through a tuple-to-userset rule.
\<close>

type_synonym node = "string \<times> string \<times> string"

definition rules :: "Model \<Rightarrow> string \<Rightarrow> string \<Rightarrow> RewriteRule set" where
  "rules m ot r =
     (case map_of (Types m) ot of
        None \<Rightarrow> {}
      | Some td \<Rightarrow> (case map_of (Relations td) r of None \<Rightarrow> {} | Some rd \<Rightarrow> set (Rewrites rd)))"

definition userFilter :: "string \<Rightarrow> string \<Rightarrow> string \<Rightarrow> string \<Rightarrow> string \<Rightarrow> TupleFilter" where
  "userFilter ot oid r ut uid =
     \<lparr>fObjectType = ot, fObjectID = oid, fRelation = r, fUserType = ut, fUserID = uid, fUserRelation = []\<rparr>"

inductive grants :: "Model \<Rightarrow> Tuple set \<Rightarrow> string \<Rightarrow> string \<Rightarrow> node \<Rightarrow> bool"
  for m :: Model and T :: "Tuple set" and ut :: string and uid :: string where
  direct: "rw \<in> rules m ot r \<Longrightarrow> Direct rw \<Longrightarrow> t \<in> T \<Longrightarrow> matchesFilter t (userFilter ot oid r ut uid) \<Longrightarrow>
     grants m T ut uid (ot, oid, r)"
| userset: "rw \<in> rules m ot r \<Longrightarrow> Direct rw \<Longrightarrow> t \<in> T \<Longrightarrow> isUsersetOf ot oid r t \<Longrightarrow>
     grants m T ut uid (UserType t, UserID t, UserRelation t) \<Longrightarrow> grants m T ut uid (ot, oid, r)"
| computed: "rw \<in> rules m ot r \<Longrightarrow> ComputedRelation rw = r' \<Longrightarrow> r' \<noteq> [] \<Longrightarrow>
     grants m T ut uid (ot, oid, r') \<Longrightarrow> grants m T ut uid (ot, oid, r)"
| from_lookup: "rw \<in> rules m ot r \<Longrightarrow> FromLookup rw = Some fl \<Longrightarrow> t \<in> T \<Longrightarrow>
     matchesFilter t (filterOf ot oid (From fl)) \<Longrightarrow>
     grants m T ut uid (UserType t, UserID t, Lookup fl) \<Longrightarrow> grants m T ut uid (ot, oid, r)"
section \<open>The graph a check walks\<close>

definition hit :: "Model \<Rightarrow> Tuple set \<Rightarrow> string \<Rightarrow> string \<Rightarrow> node \<Rightarrow> bool" where
  "hit m T ut uid n \<longleftrightarrow>
     (case n of (ot, oid, r) \<Rightarrow>
        (\<exists>rw \<in> rules m ot r. Direct rw) \<and> (\<exists>t \<in> T. matchesFilter t (userFilter ot oid r ut uid)))"

inductive edge :: "Model \<Rightarrow> Tuple set \<Rightarrow> node \<Rightarrow> node \<Rightarrow> bool" for m :: Model and T :: "Tuple set" where
  edge_userset: "rw \<in> rules m ot r \<Longrightarrow> Direct rw \<Longrightarrow> t \<in> T \<Longrightarrow> isUsersetOf ot oid r t \<Longrightarrow>
     edge m T (ot, oid, r) (UserType t, UserID t, UserRelation t)"
| edge_computed: "rw \<in> rules m ot r \<Longrightarrow> ComputedRelation rw = r' \<Longrightarrow> r' \<noteq> [] \<Longrightarrow>
     edge m T (ot, oid, r) (ot, oid, r')"
| edge_from: "rw \<in> rules m ot r \<Longrightarrow> FromLookup rw = Some fl \<Longrightarrow> t \<in> T \<Longrightarrow>
     matchesFilter t (filterOf ot oid (From fl)) \<Longrightarrow> edge m T (ot, oid, r) (UserType t, UserID t, Lookup fl)"

lemma grants_hit: "hit m T ut uid n \<Longrightarrow> grants m T ut uid n"
  by (auto simp: hit_def intro: grants.direct)

lemma grants_edge: "edge m T n n' \<Longrightarrow> grants m T ut uid n' \<Longrightarrow> grants m T ut uid n"
  by (induction rule: edge.induct) (auto intro: grants.userset grants.computed grants.from_lookup)

lemma grants_walk:
  assumes "grants m T ut uid n"
    and "\<And>n. hit m T ut uid n \<Longrightarrow> P n" and "\<And>n n'. edge m T n n' \<Longrightarrow> P n' \<Longrightarrow> P n"
  shows "P n"
  using assms(1)
proof induction
  case (direct rw ot r t oid)
  then show ?case by (intro assms(2)) (auto simp: hit_def)
qed (blast intro: assms(3) edge.intros)+

text \<open>Every node a walk can reach lies in a finite set.\<close>

definition all_rules :: "Model \<Rightarrow> RewriteRule set" where
  "all_rules m = (\<Union>td \<in> snd ` set (Types m). \<Union>rd \<in> snd ` set (Relations td). set (Rewrites rd))"

definition reach_set :: "Model \<Rightarrow> Tuple set \<Rightarrow> node \<Rightarrow> node set" where
  "reach_set m T n =
     (case n of (ot, oid, r) \<Rightarrow>
        {(a, b, x). (a, b) \<in> insert (ot, oid) ((\<lambda>t. (UserType t, UserID t)) ` T) \<and>
           x \<in> insert r (UserRelation ` T \<union> ComputedRelation ` all_rules m \<union>
                          Lookup ` {fl. Some fl \<in> FromLookup ` all_rules m})})"

lemma rules_all: "rw \<in> rules m ot r \<Longrightarrow> rw \<in> all_rules m"
  by (force simp: rules_def all_rules_def split: option.splits dest: map_of_Some_mem)

lemma finite_all_rules: "finite (all_rules m)"
  by (simp add: all_rules_def)

lemma finite_triples:
  assumes "finite A" and "finite R" shows "finite {(a, b, x). (a, b) \<in> A \<and> x \<in> R}"
proof -
  have "{(a, b, x). (a, b) \<in> A \<and> x \<in> R} = (\<lambda>(p, x). (fst p, snd p, x)) ` (A \<times> R)"
    by force
  with assms show ?thesis by simp
qed

lemma finite_reach_set:
  assumes "finite T" shows "finite (reach_set m T n)"
proof (cases n)
  case (fields ot oid r)
  have "{fl. Some fl \<in> FromLookup ` all_rules m} = Some -` (FromLookup ` all_rules m)" by auto
  then have "finite {fl. Some fl \<in> FromLookup ` all_rules m}"
    using finite_all_rules by (simp add: finite_vimageI)
  then show ?thesis
    unfolding reach_set_def fields prod.case using assms finite_all_rules by (intro finite_triples) simp_all
qed

lemma reach_set_start: "n \<in> reach_set m T n"
  by (cases n) (simp add: reach_set_def)

lemma reach_set_edge:
  assumes "edge m T a b" and "a \<in> reach_set m T n"
  shows "b \<in> reach_set m T n"
proof -
  obtain ot oid r where n: "n = (ot, oid, r)" by (cases n)
  from assms show ?thesis
  proof (induction rule: edge.induct)
    case (edge_computed rw ot r r' oid)
    then have "r' \<in> ComputedRelation ` all_rules m" by (auto dest: rules_all)
    with edge_computed show ?case by (simp add: reach_set_def n)
  next
    case (edge_from rw ot r fl t oid)
    then have "Some fl \<in> FromLookup ` all_rules m" by (metis image_eqI rules_all)
    with edge_from show ?case by (simp add: reach_set_def n)
  qed (simp add: reach_set_def n)
qed

section \<open>Walks\<close>

definition key :: "string \<Rightarrow> string \<Rightarrow> node \<Rightarrow> string" where
  "key ut uid n = (case n of (ot, oid, r) \<Rightarrow> visitKey ot oid r ut uid [])"

definition clean_node :: "node \<Rightarrow> bool" where
  "clean_node n \<longleftrightarrow> (case n of (ot, oid, r) \<Rightarrow> clean ot oid)"

lemma key_inject: "clean_node n \<Longrightarrow> clean_node n' \<Longrightarrow> key ut uid n = key ut uid n' \<longleftrightarrow> n = n'"
  by (cases n; cases n') (auto simp: key_def visitKey_def clean_node_def clean_def sep_inject)

text \<open>
  The nodes a walk added are settled: none is a hit and the walk has visited all their successors.
\<close>

definition settled :: "Model \<Rightarrow> Tuple set \<Rightarrow> string \<Rightarrow> string \<Rightarrow> string set \<Rightarrow> string set \<Rightarrow> bool" where
  "settled m T ut uid N V \<longleftrightarrow>
     (\<forall>n. clean_node n \<longrightarrow> key ut uid n \<in> N \<longrightarrow>
        \<not> hit m T ut uid n \<and> (\<forall>n'. edge m T n n' \<longrightarrow> key ut uid n' \<in> V))"

lemma settled_trans:
  assumes "settled m T ut uid (V1 - V0) V1" and "settled m T ut uid (V2 - V1) V2" and "V1 \<subseteq> V2"
  shows "settled m T ut uid (V2 - V0) V2"
  unfolding settled_def
proof (intro allI impI)
  fix n assume n: "clean_node n" "key ut uid n \<in> V2 - V0"
  show "\<not> hit m T ut uid n \<and> (\<forall>n'. edge m T n n' \<longrightarrow> key ut uid n' \<in> V2)"
  proof (cases "key ut uid n \<in> V1")
    case True
    with n assms(1,3) show ?thesis unfolding settled_def by blast
  next
    case False
    with n assms(2) show ?thesis unfolding settled_def by blast
  qed
qed

text \<open>
  \<open>runs\<close> describes one piece of the traversal started at a walk state: it returns; the visited set
  only grows; an error is the context's; when it finds, \<open>G\<close> holds, and when it does not, \<open>P\<close>
  holds of the visited set and the nodes added are settled.
\<close>

definition runs ::
    "Model \<Rightarrow> Tuple set \<Rightarrow> string \<Rightarrow> string \<Rightarrow> ctx \<Rightarrow> (walk \<Rightarrow> found) \<Rightarrow> walk \<Rightarrow> bool \<Rightarrow> (string set \<Rightarrow> bool) \<Rightarrow> bool" where
  "runs m T ut uid ctxErr a w G P \<longleftrightarrow>
     (\<exists>r w'. a w = Some (r, w') \<and> fst w \<subseteq> fst w' \<and> (r = Inr True \<longrightarrow> G) \<and>
        (r = Inr False \<longrightarrow> P (fst w') \<and> settled m T ut uid (fst w' - fst w) (fst w')) \<and>
        (\<forall>e. r = Inl e \<longrightarrow> (\<exists>k. ctxErr k = Some e)))"

lemma runs_False: "P (fst w) \<Longrightarrow> runs m T ut uid ctxErr (\<lambda>w. Some (Inr False, w)) w G P"
  by (simp add: runs_def settled_def)

lemma runs_weaken:
  assumes "runs m T ut uid ctxErr a w G P" and "G \<Longrightarrow> G'" and "\<And>V. P V \<Longrightarrow> P' V"
  shows "runs m T ut uid ctxErr a w G' P'"
  using assms unfolding runs_def by blast

lemma runs_or_else:
  assumes a: "runs m T ut uid ctxErr a w G P"
    and b: "\<And>w'. fst w \<subseteq> fst w' \<Longrightarrow> runs m T ut uid ctxErr b w' G Q"
    and mono: "\<And>V V'. P V \<Longrightarrow> V \<subseteq> V' \<Longrightarrow> P V'"
  shows "runs m T ut uid ctxErr (or_else a b) w G (\<lambda>V. P V \<and> Q V)"
proof -
  from a obtain r w1 where r: "a w = Some (r, w1)" "fst w \<subseteq> fst w1" "r = Inr True \<longrightarrow> G"
    "r = Inr False \<longrightarrow> P (fst w1) \<and> settled m T ut uid (fst w1 - fst w) (fst w1)"
    "\<forall>e. r = Inl e \<longrightarrow> (\<exists>k. ctxErr k = Some e)" by (auto simp: runs_def)
  show ?thesis
  proof (cases "r = Inr False")
    case True
    from b [OF r(2)] obtain r2 w2 where r2: "b w1 = Some (r2, w2)" "fst w1 \<subseteq> fst w2" "r2 = Inr True \<longrightarrow> G"
      "r2 = Inr False \<longrightarrow> Q (fst w2) \<and> settled m T ut uid (fst w2 - fst w1) (fst w2)"
      "\<forall>e. r2 = Inl e \<longrightarrow> (\<exists>k. ctxErr k = Some e)" by (auto simp: runs_def)
    have "or_else a b w = Some (r2, w2)" using r(1) r2(1) True by (simp add: or_else_def)
    moreover have "settled m T ut uid (fst w2 - fst w) (fst w2)" if "r2 = Inr False"
      using settled_trans r(4) r2(2,4) True that by blast
    ultimately show ?thesis using r r2 True mono unfolding runs_def by blast
  next
    case False
    have "or_else a b w = Some (r, w1)"
    proof (cases r)
      case (Inr x)
      with False r(1) show ?thesis by (cases x) (simp_all add: or_else_def)
    qed (simp add: or_else_def r(1))
    with r False show ?thesis unfolding runs_def by blast
  qed
qed

lemma runs_any_found:
  assumes "\<And>x w'. x \<in> set xs \<Longrightarrow> fst w \<subseteq> fst w' \<Longrightarrow> runs m T ut uid ctxErr (f x) w' G (P x)"
    and mono: "\<And>x V V'. P x V \<Longrightarrow> V \<subseteq> V' \<Longrightarrow> P x V'"
  shows "runs m T ut uid ctxErr (any_found f xs) w G (\<lambda>V. \<forall>x \<in> set xs. P x V)"
  using assms(1)
proof (induction xs arbitrary: w)
  case Nil
  have "any_found f [] = (\<lambda>w. Some (Inr False, w))" by (rule ext) simp
  then show ?case using runs_False by simp
next
  case (Cons x xs)
  have eq: "any_found f (x # xs) = or_else (f x) (any_found f xs)" by (rule ext) simp
  have "runs m T ut uid ctxErr (or_else (f x) (any_found f xs)) w G (\<lambda>V. P x V \<and> (\<forall>x \<in> set xs. P x V))"
  proof (rule runs_or_else)
    show "runs m T ut uid ctxErr (f x) w G (P x)" using Cons.prems by simp
    fix w' :: walk assume "fst w \<subseteq> fst w'"
    then show "runs m T ut uid ctxErr (any_found f xs) w' G (\<lambda>V. \<forall>x \<in> set xs. P x V)"
      using Cons.prems by (intro Cons.IH) auto
  qed (rule mono)
  then show ?case unfolding eq by (rule runs_weaken) auto
qed
text \<open>What the nested calls of a traversal at node \<open>n\<close> may be assumed to do.\<close>

definition walks :: "Model \<Rightarrow> Tuple set \<Rightarrow> string \<Rightarrow> string \<Rightarrow> ctx \<Rightarrow> checkFn \<Rightarrow> node \<Rightarrow> string set \<Rightarrow> bool" where
  "walks m T ut uid ctxErr chk n V \<longleftrightarrow>
     (\<forall>ot oid r w. edge m T n (ot, oid, r) \<longrightarrow> clean ot oid \<longrightarrow> V \<subseteq> fst w \<longrightarrow>
        runs m T ut uid ctxErr (chk ut uid [] r ot oid) w
          (grants m T ut uid (ot, oid, r)) (\<lambda>V. key ut uid (ot, oid, r) \<in> V))"

lemma walks_runs:
  assumes "walks m T ut uid ctxErr chk n V" and "edge m T n (ot, oid, r)" and "clean ot oid" and "V \<subseteq> fst w"
  shows "runs m T ut uid ctxErr (chk ut uid [] r ot oid) w (grants m T ut uid n) (\<lambda>V. key ut uid (ot, oid, r) \<in> V)"
proof (rule runs_weaken)
  show "runs m T ut uid ctxErr (chk ut uid [] r ot oid) w
      (grants m T ut uid (ot, oid, r)) (\<lambda>V. key ut uid (ot, oid, r) \<in> V)"
    using assms unfolding walks_def by blast
qed (use grants_edge [OF assms(2)] in auto)

text \<open>What is known after a rewrite rule has been tried without success.\<close>

definition rule_done :: "Model \<Rightarrow> Tuple set \<Rightarrow> string \<Rightarrow> string \<Rightarrow> node \<Rightarrow> RewriteRule \<Rightarrow> string set \<Rightarrow> bool" where
  "rule_done m T ut uid n rw V \<longleftrightarrow>
     (case n of (ot, oid, r) \<Rightarrow>
       (Direct rw \<longrightarrow> \<not> hit m T ut uid n \<and>
          (\<forall>t \<in> T. isUsersetOf ot oid r t \<longrightarrow> key ut uid (UserType t, UserID t, UserRelation t) \<in> V)) \<and>
       (ComputedRelation rw \<noteq> [] \<longrightarrow> key ut uid (ot, oid, ComputedRelation rw) \<in> V) \<and>
       (\<forall>fl t. FromLookup rw = Some fl \<longrightarrow> t \<in> T \<longrightarrow> matchesFilter t (filterOf ot oid (From fl)) \<longrightarrow>
          key ut uid (UserType t, UserID t, Lookup fl) \<in> V))"

lemma rule_done_mono: "rule_done m T ut uid n rw V \<Longrightarrow> V \<subseteq> V' \<Longrightarrow> rule_done m T ut uid n rw V'"
  by (cases n) (auto simp: rule_done_def)

lemma rules_done_settled:
  assumes "\<forall>rw \<in> rules m ot r. rule_done m T ut uid (ot, oid, r) rw V"
  shows "\<not> hit m T ut uid (ot, oid, r)" and "edge m T (ot, oid, r) n' \<Longrightarrow> key ut uid n' \<in> V"
proof -
  show "\<not> hit m T ut uid (ot, oid, r)"
  proof
    assume h: "hit m T ut uid (ot, oid, r)"
    then obtain rw where "rw \<in> rules m ot r" "Direct rw" by (auto simp: hit_def)
    with h assms show False by (auto simp: rule_done_def)
  qed
  assume "edge m T (ot, oid, r) n'"
  then show "key ut uid n' \<in> V"
    by (cases rule: edge.cases) (use assms in \<open>auto simp: rule_done_def\<close>)
qed

context tuple_reader
begin

lemma direct_runs:
  assumes "admissible s" and "chStore c = st" and "rw \<in> rules m ot r" and "Direct rw"
  shows "runs m (tuples s) ut uid ctxErr (\<lambda>w. Some (directCheck c s ut uid [] r ot oid, w)) w
           (grants m (tuples s) ut uid (ot, oid, r)) (\<lambda>V. \<not> hit m (tuples s) ut uid (ot, oid, r))"
proof -
  obtain ts where ts: "tsRead st (userFilter ot oid r ut uid) s = Inr ts"
    "set ts = {t \<in> tuples s. matchesFilter t (userFilter ot oid r ut uid)}"
    using read_law [OF assms(1)] by blast
  then have dc: "directCheck c s ut uid [] r ot oid = Inr (ts \<noteq> [])"
    by (simp add: directCheck_def assms(2) userFilter_def)
  have h: "ts \<noteq> [] \<longleftrightarrow> hit m (tuples s) ut uid (ot, oid, r)"
    using ts(2) assms(3,4) by (cases ts) (auto simp: hit_def)
  show ?thesis using grants_hit [of m "tuples s" ut uid "(ot, oid, r)"]
    by (auto simp: runs_def dc h settled_def)
qed

lemma userset_runs:
  assumes "admissible s" and "chStore c = st" and "rw \<in> rules m ot r" and "Direct rw" and "clean ot oid"
    and "walks m (tuples s) ut uid ctxErr chk (ot, oid, r) (fst w)"
  shows "runs m (tuples s) ut uid ctxErr (usersetExpansion chk c s ut uid r ot oid) w
     (grants m (tuples s) ut uid (ot, oid, r))
     (\<lambda>V. \<forall>t \<in> tuples s. isUsersetOf ot oid r t \<longrightarrow> key ut uid (UserType t, UserID t, UserRelation t) \<in> V)"
proof -
  obtain ts where ts: "tsReadUsersets st ot oid r s = Inr ts" "set ts = {t \<in> tuples s. isUsersetOf ot oid r t}"
    using usersets_law [OF assms(1,5)] by blast
  have eq: "usersetExpansion chk c s ut uid r ot oid =
      any_found (\<lambda>us. chk ut uid [] (UserRelation us) (UserType us) (UserID us)) ts"
    by (rule ext) (simp add: usersetExpansion_def assms(2) ts)
  have "runs m (tuples s) ut uid ctxErr
      (any_found (\<lambda>us. chk ut uid [] (UserRelation us) (UserType us) (UserID us)) ts) w
      (grants m (tuples s) ut uid (ot, oid, r))
      (\<lambda>V. \<forall>t \<in> set ts. key ut uid (UserType t, UserID t, UserRelation t) \<in> V)"
    using assms ts(2) subject_clean
    by (intro runs_any_found walks_runs [where V = "fst w"]) (auto intro: edge_userset)
  then show ?thesis unfolding eq by (rule runs_weaken) (use ts(2) in auto)
qed

lemma from_runs:
  assumes "admissible s" and "chStore c = st" and "rw \<in> rules m ot r" and "FromLookup rw = Some fl"
    and "walks m (tuples s) ut uid ctxErr chk (ot, oid, r) (fst w)"
  shows "runs m (tuples s) ut uid ctxErr (tupleToUserset chk c s ut uid [] fl ot oid) w
     (grants m (tuples s) ut uid (ot, oid, r))
     (\<lambda>V. \<forall>t \<in> tuples s. matchesFilter t (filterOf ot oid (From fl)) \<longrightarrow> key ut uid (UserType t, UserID t, Lookup fl) \<in> V)"
proof -
  obtain ts where ts: "tsRead st (filterOf ot oid (From fl)) s = Inr ts"
    "set ts = {t \<in> tuples s. matchesFilter t (filterOf ot oid (From fl))}"
    using read_law [OF assms(1)] by blast
  have eq: "tupleToUserset chk c s ut uid [] fl ot oid =
      any_found (\<lambda>ft. chk ut uid [] (Lookup fl) (UserType ft) (UserID ft)) ts"
    by (rule ext) (simp add: tupleToUserset_def assms(2) ts)
  have "runs m (tuples s) ut uid ctxErr
      (any_found (\<lambda>ft. chk ut uid [] (Lookup fl) (UserType ft) (UserID ft)) ts) w
      (grants m (tuples s) ut uid (ot, oid, r))
      (\<lambda>V. \<forall>t \<in> set ts. key ut uid (UserType t, UserID t, Lookup fl) \<in> V)"
    using assms ts(2) subject_clean
    by (intro runs_any_found walks_runs [where V = "fst w"]) (auto intro: edge_from)
  then show ?thesis unfolding eq by (rule runs_weaken) (use ts(2) in auto)
qed

lemma walks_mono: "walks m T ut uid ctxErr chk n V \<Longrightarrow> V \<subseteq> V' \<Longrightarrow> walks m T ut uid ctxErr chk n V'"
  unfolding walks_def by blast

lemma rule_runs:
  assumes "admissible s" and "chStore c = st" and "rw \<in> rules m ot r" and "clean ot oid"
    and "walks m (tuples s) ut uid ctxErr chk (ot, oid, r) (fst w)"
  shows "runs m (tuples s) ut uid ctxErr (check_rule chk c s ut uid [] r ot oid rw) w
     (grants m (tuples s) ut uid (ot, oid, r)) (rule_done m (tuples s) ut uid (ot, oid, r) rw)"
proof -
  let ?R = "runs m (tuples s) ut uid ctxErr" and ?G = "grants m (tuples s) ut uid (ot, oid, r)"
  let ?P1 = "\<lambda>V. Direct rw \<longrightarrow> \<not> hit m (tuples s) ut uid (ot, oid, r) \<and>
      (\<forall>t \<in> tuples s. isUsersetOf ot oid r t \<longrightarrow> key ut uid (UserType t, UserID t, UserRelation t) \<in> V)"
  let ?P2 = "\<lambda>V. ComputedRelation rw \<noteq> [] \<longrightarrow> key ut uid (ot, oid, ComputedRelation rw) \<in> V"
  let ?P3 = "\<lambda>V. \<forall>fl t. FromLookup rw = Some fl \<longrightarrow> t \<in> tuples s \<longrightarrow>
      matchesFilter t (filterOf ot oid (From fl)) \<longrightarrow> key ut uid (UserType t, UserID t, Lookup fl) \<in> V"
  have wk: "walks m (tuples s) ut uid ctxErr chk (ot, oid, r) (fst w')" if "fst w \<subseteq> fst w'" for w' :: walk
    using walks_mono [OF assms(5) that] .
  have one: "?R (\<lambda>w. if Direct rw
            then or_else (\<lambda>w. Some (directCheck c s ut uid [] r ot oid, w)) (usersetExpansion chk c s ut uid r ot oid) w
            else Some (Inr False, w)) w ?G ?P1"
  proof (cases "Direct rw")
    case True
    have "?R (or_else (\<lambda>w. Some (directCheck c s ut uid [] r ot oid, w)) (usersetExpansion chk c s ut uid r ot oid))
        w ?G (\<lambda>V. \<not> hit m (tuples s) ut uid (ot, oid, r) \<and>
          (\<forall>t \<in> tuples s. isUsersetOf ot oid r t \<longrightarrow> key ut uid (UserType t, UserID t, UserRelation t) \<in> V))"
      by (rule runs_or_else [OF direct_runs [OF assms(1-3) True]])
        (use userset_runs [OF assms(1-3) True assms(4)] wk in auto)
    with True show ?thesis by simp
  qed (simp add: runs_False)
  have two: "?R (\<lambda>w. if ComputedRelation rw \<noteq> [] then chk ut uid [] (ComputedRelation rw) ot oid w
      else Some (Inr False, w)) w' ?G ?P2" if "fst w \<subseteq> fst w'" for w' :: walk
    using walks_runs [OF assms(5) edge_computed [OF assms(3) refl] assms(4) that]
    by (cases "ComputedRelation rw = []") (simp_all add: runs_False)
  have three: "?R (\<lambda>w. case FromLookup rw of None \<Rightarrow> Some (Inr False, w)
      | Some fl \<Rightarrow> tupleToUserset chk c s ut uid [] fl ot oid w) w' ?G ?P3" if "fst w \<subseteq> fst w'" for w' :: walk
  proof (cases "FromLookup rw")
    case (Some fl)
    from from_runs [OF assms(1-3) Some wk [OF that]] have
      "?R (tupleToUserset chk c s ut uid [] fl ot oid) w' ?G ?P3" by (rule runs_weaken) (auto simp: Some)
    then show ?thesis by (simp add: Some)
  qed (simp add: runs_False)
  have "?R (check_rule chk c s ut uid [] r ot oid rw) w ?G (\<lambda>V. ?P1 V \<and> (?P2 V \<and> ?P3 V))"
    unfolding check_rule_def
    by (intro runs_or_else one two three) auto
  then show ?thesis by (rule runs_weaken) (auto simp: rule_done_def)
qed

end
section \<open>The traversal decides the relationship\<close>

lemma settled_insert:
  assumes "clean_node n" and "\<not> hit m T ut uid n" and "\<And>n'. edge m T n n' \<Longrightarrow> key ut uid n' \<in> V'"
    and "settled m T ut uid (V' - insert (key ut uid n) V) V'"
  shows "settled m T ut uid (V' - V) V'"
  unfolding settled_def
proof (intro allI impI)
  fix k assume k: "clean_node k" "key ut uid k \<in> V' - V"
  show "\<not> hit m T ut uid k \<and> (\<forall>n'. edge m T k n' \<longrightarrow> key ut uid n' \<in> V')"
  proof (cases "k = n")
    case False
    with assms(1) k have "key ut uid k \<in> V' - insert (key ut uid n) V" by (simp add: key_inject)
    with k(1) assms(4) show ?thesis unfolding settled_def by blast
  qed (use assms in simp)
qed

lemma settled_not_granted:
  assumes "settled m T ut uid V V" and "\<And>n n'. edge m T n n' \<Longrightarrow> clean_node n \<Longrightarrow> clean_node n'"
    and "grants m T ut uid n" and "clean_node n"
  shows "key ut uid n \<notin> V"
proof -
  have "clean_node n \<longrightarrow> key ut uid n \<notin> V"
    by (rule grants_walk [OF assms(3)]) (use assms(1,2) in \<open>unfold settled_def, blast+\<close>)
  with assms(4) show ?thesis by blast
qed

context tuple_reader
begin

lemma edge_clean: "admissible s \<Longrightarrow> edge m (tuples s) n n' \<Longrightarrow> clean_node n \<Longrightarrow> clean_node n'"
  by (cases rule: edge.cases, assumption) (auto simp: clean_node_def subject_clean)

lemma body_runs:
  assumes "admissible s" and "chStore c = st" and "clean ot oid"
    and "walks (chModel c) (tuples s) ut uid ctxErr chk (ot, oid, r) (insert (key ut uid (ot, oid, r)) (fst w))"
  shows "runs (chModel c) (tuples s) ut uid ctxErr (check_body chk c ctxErr s ut uid [] r ot oid) w
     (grants (chModel c) (tuples s) ut uid (ot, oid, r)) (\<lambda>V. key ut uid (ot, oid, r) \<in> V)"
proof -
  let ?m = "chModel c" and ?n = "(ot, oid, r)"
  obtain V p where w: "w = (V, p)" by (cases w)
  let ?w = "(insert (key ut uid ?n) V, Suc p)"
  have key: "visitKey ot oid r ut uid [] = key ut uid ?n" by (simp add: key_def)
  show ?thesis
  proof (cases "ctxErr p = None \<and> key ut uid ?n \<notin> V")
    case True
    define rws where "rws = (case map_of (Types ?m) ot of None \<Rightarrow> []
        | Some td \<Rightarrow> (case map_of (Relations td) r of None \<Rightarrow> [] | Some rd \<Rightarrow> Rewrites rd))"
    have rws: "set rws = rules ?m ot r" by (simp add: rws_def rules_def split: option.split)
    have eq: "check_body chk c ctxErr s ut uid [] r ot oid w =
        any_found (check_rule chk c s ut uid [] r ot oid) rws ?w"
      using True by (simp add: check_body_def w key rws_def split: option.split)
    have "runs ?m (tuples s) ut uid ctxErr (any_found (check_rule chk c s ut uid [] r ot oid) rws) ?w
        (grants ?m (tuples s) ut uid ?n) (\<lambda>V. \<forall>rw \<in> set rws. rule_done ?m (tuples s) ut uid ?n rw V)"
      using assms rws
      by (intro runs_any_found rule_runs walks_mono [OF assms(4)]) (auto simp: w intro: rule_done_mono)
    then obtain res w' where res: "any_found (check_rule chk c s ut uid [] r ot oid) rws ?w = Some (res, w')"
      "insert (key ut uid ?n) V \<subseteq> fst w'" "res = Inr True \<longrightarrow> grants ?m (tuples s) ut uid ?n"
      "res = Inr False \<longrightarrow> (\<forall>rw \<in> rules ?m ot r. rule_done ?m (tuples s) ut uid ?n rw (fst w')) \<and>
         settled ?m (tuples s) ut uid (fst w' - insert (key ut uid ?n) V) (fst w')"
      "\<forall>e. res = Inl e \<longrightarrow> (\<exists>k. ctxErr k = Some e)"
      unfolding runs_def rws by auto
    have "settled ?m (tuples s) ut uid (fst w' - V) (fst w')" if "res = Inr False"
    proof -
      from that res(4) have d: "\<forall>rw \<in> rules ?m ot r. rule_done ?m (tuples s) ut uid ?n rw (fst w')"
        and st: "settled ?m (tuples s) ut uid (fst w' - insert (key ut uid ?n) V) (fst w')" by auto
      show ?thesis
        using settled_insert [OF _ rules_done_settled [OF d] st] assms(3) by (simp add: clean_node_def)
    qed
    with res show ?thesis unfolding runs_def eq by (intro exI [of _ res] exI [of _ w']) (auto simp: w)
  next
    case False
    then show ?thesis
      by (cases "ctxErr p") (auto simp: runs_def check_body_def w key settled_def)
  qed
qed

lemma check_runs:
  assumes "admissible s" and "chStore c = st" and "finite U"
    and "\<And>a b. edge (chModel c) (tuples s) a b \<Longrightarrow> a \<in> U \<Longrightarrow> b \<in> U"
    and "(ot, oid, r) \<in> U" and "clean ot oid"
  shows "runs (chModel c) (tuples s) ut uid ctxErr (check c ctxErr s ut uid [] r ot oid) w
     (grants (chModel c) (tuples s) ut uid (ot, oid, r)) (\<lambda>V. key ut uid (ot, oid, r) \<in> V)"
  using assms(5,6)
proof (induction "card (key ut uid ` U - fst w)" arbitrary: w ot oid r rule: less_induct)
  case less
  let ?n = "(ot, oid, r)" and ?chk = "check c ctxErr s"
  have eq: "check c ctxErr s ut uid [] r ot oid = check_body ?chk c ctxErr s ut uid [] r ot oid"
    by (rule ext) (subst check.simps, rule refl)
  show ?case
  proof (cases "key ut uid ?n \<in> fst w")
    case True
    then show ?thesis unfolding eq
      by (cases w; cases "ctxErr (snd w)") (auto simp: runs_def check_body_def settled_def key_def)
  next
    case False
    have "walks (chModel c) (tuples s) ut uid ctxErr ?chk ?n (insert (key ut uid ?n) (fst w))"
      unfolding walks_def
    proof (intro allI impI)
      fix ot' oid' r' and w' :: walk
      assume e: "edge (chModel c) (tuples s) ?n (ot', oid', r')" and cl: "clean ot' oid'"
        and sub: "insert (key ut uid ?n) (fst w) \<subseteq> fst w'"
      have "key ut uid ` U - fst w' \<subset> key ut uid ` U - fst w"
        using sub False less.prems(1) by blast
      then have "card (key ut uid ` U - fst w') < card (key ut uid ` U - fst w)"
        using assms(3) by (intro psubset_card_mono) auto
      then show "runs (chModel c) (tuples s) ut uid ctxErr (?chk ut uid [] r' ot' oid') w'
          (grants (chModel c) (tuples s) ut uid (ot', oid', r')) (\<lambda>V. key ut uid (ot', oid', r') \<in> V)"
        by (rule less.hyps) (use assms(4) [OF e] less.prems cl in auto)
    qed
    then show ?thesis unfolding eq by (rule body_runs [OF assms(1,2) less.prems(2)])
  qed
qed

lemma Check_decides:
  assumes "admissible s" and "chStore c = st" and "clean ot oid"
  shows "\<exists>res polls'. Check c ctxErr s ut uid r ot oid polls = Some (res, polls') \<and>
     (res = Inr (grants (chModel c) (tuples s) ut uid (ot, oid, r)) \<or> (\<exists>k e. res = Inl e \<and> ctxErr k = Some e))"
proof -
  let ?m = "chModel c" and ?T = "tuples s" and ?n = "(ot, oid, r)"
  have "runs ?m ?T ut uid ctxErr (check c ctxErr s ut uid [] r ot oid) ({}, polls)
      (grants ?m ?T ut uid ?n) (\<lambda>V. key ut uid ?n \<in> V)"
    by (rule check_runs [OF assms(1,2) finite_reach_set [OF finite_tuples [OF assms(1)]]
          reach_set_edge reach_set_start assms(3)])
  then obtain res w' where res: "check c ctxErr s ut uid [] r ot oid ({}, polls) = Some (res, w')"
    "res = Inr True \<longrightarrow> grants ?m ?T ut uid ?n"
    "res = Inr False \<longrightarrow> key ut uid ?n \<in> fst w' \<and> settled ?m ?T ut uid (fst w') (fst w')"
    "\<forall>e. res = Inl e \<longrightarrow> (\<exists>k. ctxErr k = Some e)" by (auto simp: runs_def)
  have "\<not> grants ?m ?T ut uid ?n" if "res = Inr False"
    using settled_not_granted [of ?m ?T ut uid "fst w'" ?n] edge_clean [OF assms(1)] res(3) that assms(3)
    by (auto simp: clean_node_def)
  with res show ?thesis
    by (cases res) (auto simp: Check_def case_prod_unfold)
qed

lemma Check_iff:
  assumes "admissible s" and "chStore c = st" and "clean ot oid" and "\<forall>k. ctxErr k = None"
  shows "\<exists>polls'. Check c ctxErr s ut uid r ot oid polls =
     Some (Inr (grants (chModel c) (tuples s) ut uid (ot, oid, r)), polls')"
  using Check_decides [OF assms(1-3), of ctxErr ut uid r polls] assms(4) by auto

end
section \<open>Checks on the memory store\<close>

declare check.simps [code] ListUsers.simps [code]

text \<open>A context that is never cancelled.\<close>

definition background :: ctx where
  "background = (\<lambda>_. None)"

lemma background_None [simp]: "background k = None"
  by (simp add: background_def)

definition memChecker :: "Model \<Rightarrow> MemoryStore Checker" where
  "memChecker m = New m memoryTupleStore"

lemma memChecker_simps [simp]: "chModel (memChecker m) = m" "chStore (memChecker m) = memoryTupleStore"
  by (simp_all add: memChecker_def New_def)

definition eng_tuples :: "Tuple list" where
  "eng_tuples =
     [tup ''doc'' ''1'' ''viewer'' ''group'' ''eng'' ''member'', tup ''group'' ''eng'' ''member'' ''user'' ''ann'' [],
      tup ''group'' ''eng'' ''member'' ''group'' ''eng'' ''member'',
      tup ''doc'' ''1'' ''parent'' ''folder'' ''f'' [], tup ''folder'' ''f'' ''viewer'' ''user'' ''bob'' [],
      tup ''doc'' ''1'' ''owner'' ''user'' ''cat'' []]"

definition eng_store :: MemoryStore where
  "eng_store = fold writeLocked eng_tuples NewMemoryStore"

lemma eng_store_spec: "mem_admissible eng_store \<and> all_tuples eng_store = set eng_tuples"
proof -
  have "\<forall>t \<in> set eng_tuples. wf_tuple t" by code_simp
  from fold_writeLocked [OF mem_inv_New this] show ?thesis
    by (simp add: mem_admissible_def eng_store_def all_tuples_def matTuples_def)
      (simp add: NewMemoryStore_def)
qed

lemma eng_store_mat: "matTuples eng_store = []"
  by code_simp

lemma clean_examples [simp]: "clean ''doc'' ''1''" "clean ''group'' ''eng''"
  by (simp_all add: clean_def)

text \<open>
  C1. A check always returns, and it decides the relationship. On every admissible store, for
  every model (cyclic ones included), context and request on an object whose type and id split
  uniquely, the traversal terminates and answers \<open>true\<close> exactly when the user is granted the
  relation by the relationship semantics, or it returns the context's own error; a stored cycle
  never loops and never hides a grant.
\<close>

theorem Check_decides_grants:
  assumes "mem_admissible s" and "clean ot oid"
  shows "\<exists>res polls'. Check (memChecker m) ctxErr s ut uid r ot oid polls = Some (res, polls') \<and>
     (res = Inr (grants m (all_tuples s) ut uid (ot, oid, r)) \<or> (\<exists>k e. res = Inl e \<and> ctxErr k = Some e))"
  using mem.Check_decides [of s "memChecker m" ot oid ctxErr ut uid r polls] assms by simp

theorem Check_decides_grants_witness:
  "grants sample_model (all_tuples eng_store) ''user'' ''ann'' (''doc'', ''1'', ''viewer'') \<and>
   \<not> grants sample_model (all_tuples eng_store) ''user'' ''zed'' (''doc'', ''1'', ''viewer'')"
proof -
  have ann: "Check (memChecker sample_model) background eng_store ''user'' ''ann'' ''viewer'' ''doc'' ''1'' 0 =
      Some (Inr True, 2)" by code_simp
  have zed: "Check (memChecker sample_model) background eng_store ''user'' ''zed'' ''viewer'' ''doc'' ''1'' 0 =
      Some (Inr False, 5)" by code_simp
  note decides = Check_decides_grants [of eng_store "''doc''" "''1''" sample_model background "''user''" _ "''viewer''" 0]
  show ?thesis
    using decides [of "''ann''"] decides [of "''zed''"] eng_store_spec
    by (simp add: ann zed)
qed

section \<open>The ideal semantics\<close>

text \<open>
  The relationship semantics on exact tuples: no field of a request or of a rule acts as a
  wildcard, and a plain subject is matched by plain tuples only.
\<close>

inductive zanzibar :: "Model \<Rightarrow> Tuple set \<Rightarrow> string \<Rightarrow> string \<Rightarrow> node \<Rightarrow> bool"
  for m :: Model and T :: "Tuple set" and ut :: string and uid :: string where
  this: "rw \<in> rules m ot r \<Longrightarrow> Direct rw \<Longrightarrow> tup ot oid r ut uid [] \<in> T \<Longrightarrow> zanzibar m T ut uid (ot, oid, r)"
| member: "rw \<in> rules m ot r \<Longrightarrow> Direct rw \<Longrightarrow> tup ot oid r ut' uid' r' \<in> T \<Longrightarrow> r' \<noteq> [] \<Longrightarrow>
     zanzibar m T ut uid (ut', uid', r') \<Longrightarrow> zanzibar m T ut uid (ot, oid, r)"
| computed_userset: "rw \<in> rules m ot r \<Longrightarrow> ComputedRelation rw = r' \<Longrightarrow> r' \<noteq> [] \<Longrightarrow>
     zanzibar m T ut uid (ot, oid, r') \<Longrightarrow> zanzibar m T ut uid (ot, oid, r)"
| tuple_to_userset: "rw \<in> rules m ot r \<Longrightarrow> FromLookup rw = Some fl \<Longrightarrow> tup ot oid (From fl) ut' uid' r' \<in> T \<Longrightarrow>
     zanzibar m T ut uid (ut', uid', Lookup fl) \<Longrightarrow> zanzibar m T ut uid (ot, oid, r)"

text \<open>No empty names where the code reads an empty filter field as a wildcard, and no tuple whose
  subject is a userset of the asking user itself.\<close>

definition proper :: "Model \<Rightarrow> Tuple set \<Rightarrow> string \<Rightarrow> string \<Rightarrow> bool" where
  "proper m T ut uid \<longleftrightarrow>
     ut \<noteq> [] \<and> uid \<noteq> [] \<and>
     (\<forall>t \<in> T. UserType t \<noteq> [] \<and> UserID t \<noteq> [] \<and> (UserType t = ut \<and> UserID t = uid \<longrightarrow> UserRelation t = [])) \<and>
     (\<forall>ot. rules m ot [] = {}) \<and>
     (\<forall>rw \<in> all_rules m. \<forall>fl. FromLookup rw = Some fl \<longrightarrow> From fl \<noteq> [])"

lemma tup_eta [simp]: "tup (ObjectType t) (ObjectID t) (Relation t) (UserType t) (UserID t) (UserRelation t) = t"
  by (simp add: tup_def)

lemma tup_sel [simp]:
  "ObjectType (tup a b c d e f) = a" "ObjectID (tup a b c d e f) = b" "Relation (tup a b c d e f) = c"
  "UserType (tup a b c d e f) = d" "UserID (tup a b c d e f) = e" "UserRelation (tup a b c d e f) = f"
  by (simp_all add: tup_def)

lemma zanzibar_grants:
  assumes "zanzibar m T ut uid n"
  shows "grants m T ut uid n"
  using assms
proof induction
  case (this rw ot r oid)
  then show ?case by (intro grants.direct) (auto simp: matchesFilter_iff userFilter_def)
next
  case (member rw ot r oid ut' uid' r')
  then show ?case using grants.userset [of rw m ot r "tup ot oid r ut' uid' r'" T oid ut uid]
    by (simp add: isUsersetOf_def)
next
  case (tuple_to_userset rw ot r fl oid ut' uid' r')
  then show ?case using grants.from_lookup [of rw m ot r fl "tup ot oid (From fl) ut' uid' r'" T oid ut uid]
    by (simp add: matchesFilter_iff filterOf_def)
qed (rule grants.computed)

lemma grants_zanzibar:
  assumes "proper m T ut uid" and "grants m T ut uid (ot, oid, r)" and "ot \<noteq> []" and "oid \<noteq> []"
  shows "zanzibar m T ut uid (ot, oid, r)"
  using assms(2-4)
proof (induction n \<equiv> "(ot, oid, r)" arbitrary: ot oid r rule: grants.induct)
  case (direct rw ot r t oid)
  from direct(1) assms(1) have "r \<noteq> []" by (auto simp: proper_def)
  with direct assms(1) have "ObjectType t = ot" "ObjectID t = oid" "Relation t = r" "UserType t = ut"
    "UserID t = uid" "UserRelation t = []" by (auto simp: matchesFilter_iff userFilter_def proper_def)
  then have "tup ot oid r ut uid [] = t" using tup_eta [of t] by simp
  with direct show ?case by (auto intro: zanzibar.this)
next
  case (userset rw ot r t oid)
  then have "tup ot oid r (UserType t) (UserID t) (UserRelation t) = t" using tup_eta [of t]
    by (simp add: isUsersetOf_def)
  with userset assms(1) show ?case
    by (intro zanzibar.member [of rw m ot r oid "UserType t" "UserID t" "UserRelation t"])
      (auto simp: isUsersetOf_def proper_def)
next
  case (computed rw ot r r' oid)
  then show ?case by (auto intro: zanzibar.computed_userset)
next
  case (from_lookup rw ot r fl t oid)
  have "From fl \<noteq> []" using from_lookup(1,2) assms(1) rules_all by (fastforce simp: proper_def)
  with from_lookup have "tup ot oid (From fl) (UserType t) (UserID t) (UserRelation t) = t"
    using tup_eta [of t] by (simp add: matchesFilter_iff filterOf_def)
  with from_lookup assms(1) show ?case
    by (intro zanzibar.tuple_to_userset [of rw m ot r fl oid "UserType t" "UserID t" "UserRelation t"])
      (auto simp: proper_def)
qed
text \<open>
  C14. On a compiled model without empty relation names, a check answers the relationship semantics
  on exact tuples, for every user that is not itself the object of a stored userset subject:
  \<open>this\<close>, userset membership, computed userset and tuple-to-userset, nothing more and nothing less.
\<close>

theorem Check_zanzibar:
  assumes "mem_admissible s" and "proper m (all_tuples s) ut uid"
    and "clean ot oid" and "ot \<noteq> []" and "oid \<noteq> []"
  shows "\<exists>polls'. Check (memChecker m) background s ut uid r ot oid 0 =
           Some (Inr (zanzibar m (all_tuples s) ut uid (ot, oid, r)), polls')"
proof -
  have "grants m (all_tuples s) ut uid (ot, oid, r) = zanzibar m (all_tuples s) ut uid (ot, oid, r)"
    using grants_zanzibar [OF assms(2) _ assms(4,5)] zanzibar_grants by blast
  with mem.Check_iff [of s "memChecker m" ot oid background ut uid r 0] assms show ?thesis by simp
qed

lemma rules_mem: "rw \<in> rules m ot r \<Longrightarrow> \<exists>td rd. (ot, td) \<in> set (Types m) \<and> (r, rd) \<in> set (Relations td) \<and> rw \<in> set (Rewrites rd)"
  by (force simp: rules_def split: option.splits dest: map_of_Some_mem)

lemma sample_proper: "proper sample_model (set eng_tuples) ''user'' ''ann''"
proof -
  have r: "\<forall>td \<in> snd ` set (Types sample_model). \<forall>p \<in> set (Relations td). fst p \<noteq> []" by code_simp
  have "rules sample_model ot [] = {}" for ot
    using rules_mem [of _ sample_model ot "[]"] r by fastforce
  moreover have "\<forall>t \<in> set eng_tuples. UserType t \<noteq> [] \<and> UserID t \<noteq> [] \<and>
      (UserType t = ''user'' \<and> UserID t = ''ann'' \<longrightarrow> UserRelation t = [])" by code_simp
  moreover have "\<forall>rw \<in> all_rules sample_model.
      (case FromLookup rw of None \<Rightarrow> True | Some fl \<Rightarrow> From fl \<noteq> [])" by code_simp
  ultimately show ?thesis by (auto simp: proper_def split: option.splits)
qed

theorem Check_zanzibar_witness:
  "zanzibar sample_model (set eng_tuples) ''user'' ''ann'' (''doc'', ''1'', ''viewer'')"
proof -
  have "Check (memChecker sample_model) background eng_store ''user'' ''ann'' ''viewer'' ''doc'' ''1'' 0 =
      Some (Inr True, 2)" by code_simp
  with Check_zanzibar [of eng_store sample_model "''user''" "''ann''" "''doc''" "''1''" "''viewer''"]
    eng_store_spec sample_proper
  show ?thesis by simp
qed

section \<open>Context tuples\<close>

lemma grants_mono:
  assumes "grants m T ut uid n" and "T \<subseteq> T'"
  shows "grants m T' ut uid n"
  using assms(1)
proof induction
  case (direct rw ot r t oid)
  with assms(2) show ?case by (blast intro: grants.direct)
next
  case (userset rw ot r t oid)
  with assms(2) show ?case by (blast intro: grants.userset)
next
  case (computed rw ot r r' oid)
  then show ?case by (blast intro: grants.computed)
next
  case (from_lookup rw ot r fl t oid)
  with assms(2) show ?case by (blast intro: grants.from_lookup)
qed

text \<open>
  A check with context tuples decides the relationship over the stored tuples together with
  the context tuples, so it can only add grants: whatever a plain check allows, it allows too.
\<close>

theorem CheckWithContext_decides:
  assumes "mem_admissible s" and "clean_subjects ctx" and "clean ot oid"
  shows "(\<exists>polls'. CheckWithContext (memChecker m) background s ctx ut uid r ot oid 0 =
            Some (Inr (grants m (all_tuples s \<union> set ctx) ut uid (ot, oid, r)), polls')) \<and>
         (\<forall>polls1. Check (memChecker m) background s ut uid r ot oid 0 = Some (Inr True, polls1) \<longrightarrow>
            (\<exists>polls'. CheckWithContext (memChecker m) background s ctx ut uid r ot oid 0 = Some (Inr True, polls')))"
proof -
  have reader: "tuple_reader (NewContextTupleStore memoryTupleStore ctx) (\<lambda>s. all_tuples s \<union> set ctx) mem_admissible"
    by (rule overlay_reader [OF _ assms(2)]) (rule mem.tuple_reader_axioms)
  obtain p where ctx: "CheckWithContext (memChecker m) background s ctx ut uid r ot oid 0 =
      Some (Inr (grants m (all_tuples s \<union> set ctx) ut uid (ot, oid, r)), p)"
    using tuple_reader.Check_iff [OF reader assms(1) _ assms(3), of "New m (NewContextTupleStore memoryTupleStore ctx)"
        background ut uid r 0]
    by (auto simp: CheckWithContext_def New_def Let_def)
  obtain q where plain: "Check (memChecker m) background s ut uid r ot oid 0 =
      Some (Inr (grants m (all_tuples s) ut uid (ot, oid, r)), q)"
    using mem.Check_iff [of s "memChecker m" ot oid background ut uid r 0] assms by auto
  show ?thesis using ctx plain grants_mono [of m "all_tuples s" ut uid "(ot, oid, r)"] by auto
qed

theorem CheckWithContext_decides_witness:
  "grants sample_model (all_tuples eng_store \<union> {tup ''doc'' ''1'' ''owner'' ''user'' ''zed'' []})
     ''user'' ''zed'' (''doc'', ''1'', ''viewer'')"
proof -
  let ?ctx = "[tup ''doc'' ''1'' ''owner'' ''user'' ''zed'' []]"
  have "CheckWithContext (memChecker sample_model) background eng_store ?ctx
      ''user'' ''zed'' ''viewer'' ''doc'' ''1'' 0 = Some (Inr True, 4)" by code_simp
  moreover have "clean_subjects ?ctx" by code_simp
  ultimately show ?thesis
    using CheckWithContext_decides [of eng_store ?ctx "''doc''" "''1''" sample_model "''user''" "''zed''" "''viewer''"]
      eng_store_spec by simp
qed
section \<open>Listing objects\<close>

lemma listObjectsLoop_filter:
  assumes "\<And>x p. x \<in> set xs \<Longrightarrow> \<exists>p'. chk x p = Some (Inr (g x), p')" and "\<And>k. ctxErr k = None"
    and "distinct xs" and "set xs \<inter> seen = {}"
  shows "listObjectsLoop chk ctxErr xs result seen polls = Some (result @ filter g xs, None)"
  using assms
proof (induction xs arbitrary: result seen polls)
  case (Cons x xs)
  obtain p' where "chk x (Suc polls) = Some (Inr (g x), p')" using Cons.prems(1) [of x "Suc polls"] by auto
  with Cons show ?case by (cases "g x") simp_all
qed simp

text \<open>An object some relation of which is granted appears in a tuple.\<close>

lemma grants_object:
  assumes "grants m T ut uid (ot, oid, r)" and "ot \<noteq> []" and "oid \<noteq> []"
  shows "\<exists>t \<in> T. ObjectType t = ot \<and> ObjectID t = oid"
  using assms
  by (induction n \<equiv> "(ot, oid, r)" arbitrary: ot oid r rule: grants.induct)
    (auto simp: matchesFilter_iff userFilter_def isUsersetOf_def filterOf_def)

lemma all_tuples_wf: "mem_admissible s \<Longrightarrow> t \<in> all_tuples s \<Longrightarrow> wf_tuple t"
  using stored_wf [of s t] by (auto simp: mem_admissible_def all_tuples_def list_all_iff)

text \<open>
  C36. Listing objects is exact: it returns each object of the type at most once, and an object is
  listed exactly when a check of it is granted, so no object the user can reach through groups,
  computed relations or parents is missing.
\<close>

theorem ListObjects_exact:
  assumes "mem_admissible s" and "ot \<noteq> []"
  shows "\<exists>ids. ListObjects (memChecker m) background s ut uid r ot = Some (ids, None) \<and> distinct ids \<and>
     (\<forall>oid. oid \<noteq> [] \<longrightarrow> (oid \<in> set ids \<longleftrightarrow> grants m (all_tuples s) ut uid (ot, oid, r)))"
proof -
  obtain ts where ts: "tsRead memoryTupleStore (filterOf ot [] []) s = Inr ts"
    and set_ts: "set ts = {t \<in> all_tuples s. ObjectType t = ot}"
    using mem.read_law [OF assms(1), of "filterOf ot [] []"] assms(2)
    by (auto simp: matchesFilter_iff filterOf_def)
  let ?c = "remdups (map ObjectID ts)" and ?g = "\<lambda>oid. grants m (all_tuples s) ut uid (ot, oid, r)"
  have "clean ot oid" if "oid \<in> set ?c" for oid
    using that set_ts all_tuples_wf [OF assms(1)] by (auto simp: clean_def wf_tuple_def)
  then have "\<exists>p'. Check (memChecker m) background s ut uid r ot oid p = Some (Inr (?g oid), p')" if "oid \<in> set ?c" for oid p
    using mem.Check_iff [OF assms(1), of "memChecker m" ot oid background ut uid r p] that by simp
  then have "listObjectsLoop (Check (memChecker m) background s ut uid r ot) background ?c [] {} 0 = Some ([] @ filter ?g ?c, None)"
    by (intro listObjectsLoop_filter) auto
  then have "ListObjects (memChecker m) background s ut uid r ot = Some (filter ?g ?c, None)"
    by (simp add: ListObjects_def ts)
  moreover have "oid \<in> set (filter ?g ?c) \<longleftrightarrow> ?g oid" if "oid \<noteq> []" for oid
    using grants_object [of m "all_tuples s" ut uid ot oid r] assms(2) that set_ts by auto
  ultimately show ?thesis by (intro exI [of _ "filter ?g ?c"]) simp
qed

theorem ListObjects_exact_witness:
  "ListObjects (memChecker sample_model) background eng_store ''user'' ''ann'' ''viewer'' ''doc'' = Some ([''1''], None) \<and>
   grants sample_model (all_tuples eng_store) ''user'' ''ann'' (''doc'', ''1'', ''viewer'')"
proof -
  have "ListObjects (memChecker sample_model) background eng_store ''user'' ''ann'' ''viewer'' ''doc'' = Some ([''1''], None)"
    by code_simp
  with ListObjects_exact [of eng_store "''doc''" sample_model "''user''" "''ann''" "''viewer''"] eng_store_spec
  show ?thesis by auto
qed

section \<open>Listing users\<close>

text \<open>The relations of a type that a relation includes by computed rules.\<close>

definition computed_step :: "Model \<Rightarrow> string \<Rightarrow> (string \<times> string) set" where
  "computed_step m ot = {(r, r'). r' \<noteq> [] \<and> (\<exists>rw \<in> rules m ot r. ComputedRelation rw = r')}"

lemma addUser_fold:
  assumes "snd acc = set (fst acc)" and "distinct (fst acc)"
  shows "set (fst (fold addUser ks acc)) = set (fst acc) \<union> set ks \<and> distinct (fst (fold addUser ks acc)) \<and>
         snd (fold addUser ks acc) = set (fst (fold addUser ks acc))"
  using assms
proof (induction ks arbitrary: acc)
  case (Cons k ks)
  obtain result seen where acc: "acc = (result, seen)" by (cases acc)
  with Cons.prems have "snd (addUser k acc) = set (fst (addUser k acc))" "distinct (fst (addUser k acc))"
    and "set (fst (addUser k acc)) = insert k (set (fst acc))"
    by (auto simp: addUser_def)
  with Cons.IH [of "addUser k acc"] show ?case by auto
qed simp

lemma listComputed_union:
  assumes "\<And>rw. rw \<in> set rws \<Longrightarrow> ComputedRelation rw \<noteq> [] \<Longrightarrow>
      \<exists>us. l (ComputedRelation rw) = Some (Inr us) \<and> set us = S (ComputedRelation rw)"
    and "snd acc = set (fst acc)" and "distinct (fst acc)"
  shows "\<exists>us. listComputed l rws acc = Some (Inr us) \<and> distinct us \<and>
     set us = set (fst acc) \<union> (\<Union>rw \<in> {rw \<in> set rws. ComputedRelation rw \<noteq> []}. S (ComputedRelation rw))"
  using assms
proof (induction rws arbitrary: acc)
  case (Cons rw rws)
  show ?case
  proof (cases "ComputedRelation rw = []")
    case True
    with Cons.IH [of acc] Cons.prems show ?thesis by auto
  next
    case False
    then obtain us where us: "l (ComputedRelation rw) = Some (Inr us)" "set us = S (ComputedRelation rw)"
      using Cons.prems(1) [of rw] by auto
    have acc: "set (fst (fold addUser us acc)) = set (fst acc) \<union> set us" "distinct (fst (fold addUser us acc))"
      "snd (fold addUser us acc) = set (fst (fold addUser us acc))"
      using addUser_fold [OF Cons.prems(2,3)] by auto
    from Cons.IH [OF Cons.prems(1) acc(3,2)] obtain vs where
      "listComputed l rws (fold addUser us acc) = Some (Inr vs)" "distinct vs"
      "set vs = set (fst (fold addUser us acc)) \<union> (\<Union>rw \<in> {rw \<in> set rws. ComputedRelation rw \<noteq> []}. S (ComputedRelation rw))"
      by auto
    with us acc False show ?thesis by (auto simp del: fold_simps)
  qed
qed simp

lemma finite_computed_step: "finite (computed_step m ot)"
proof -
  let ?A = "(\<Union>td \<in> snd ` set (Types m). fst ` set (Relations td)) \<times> ComputedRelation ` all_rules m"
  have "(r, r') \<in> ?A" if "(r, r') \<in> computed_step m ot" for r r'
  proof -
    from that obtain rw where rw: "rw \<in> rules m ot r" "ComputedRelation rw = r'" by (auto simp: computed_step_def)
    from rules_mem [OF rw(1)] obtain td rd where "(ot, td) \<in> set (Types m)" "(r, rd) \<in> set (Relations td)" by blast
    then have "td \<in> snd ` set (Types m)" "r \<in> fst ` set (Relations td)" by force+
    with rules_all [OF rw(1)] rw(2) show ?thesis by blast
  qed
  then have "computed_step m ot \<subseteq> ?A" by auto
  moreover have "finite ?A" by (simp add: finite_all_rules)
  ultimately show ?thesis by (rule finite_subset)
qed

text \<open>
  What a listing of users returns on any model without computed cycles: the subjects of the tuples
  stored on the object under the relation or under a relation it computes from, each once. Usersets
  among them are not expanded and tuple-to-userset rules are not followed.
\<close>

lemma ListUsers_stored:
  assumes "mem_admissible s" and "acyclic (computed_step m ot)"
  shows "\<exists>us. ListUsers (memChecker m) s r ot oid = Some (Inr us) \<and> distinct us \<and>
     set us = UserKey ` {t \<in> all_tuples s. \<exists>r'. (r, r') \<in> (computed_step m ot)\<^sup>* \<and> matchesFilter t (filterOf ot oid r')}"
proof -
  let ?S = "\<lambda>r. UserKey ` {t \<in> all_tuples s. \<exists>r'. (r, r') \<in> (computed_step m ot)\<^sup>* \<and> matchesFilter t (filterOf ot oid r')}"
  have "wf ((computed_step m ot)\<inverse>)"
    using finite_computed_step assms(2) by (rule finite_acyclic_wf_converse)
  then show ?thesis
  proof (induction r rule: wf_induct_rule)
    case (less r)
    define rws where "rws = (case map_of (Types m) ot of None \<Rightarrow> []
        | Some td \<Rightarrow> (case map_of (Relations td) r of None \<Rightarrow> [] | Some rd \<Rightarrow> Rewrites rd))"
    have rws: "set rws = rules m ot r" by (simp add: rws_def rules_def split: option.split)
    obtain ts where ts: "tsRead memoryTupleStore (filterOf ot oid r) s = Inr ts"
      and set_ts: "set ts = {t \<in> all_tuples s. matchesFilter t (filterOf ot oid r)}"
      using mem.read_law [OF assms(1), of "filterOf ot oid r"] by blast
    define acc where "acc = fold addUser (map UserKey ts) ([], {})"
    have acc: "set (fst acc) = UserKey ` set ts" "distinct (fst acc)" "snd acc = set (fst acc)"
      using addUser_fold [of "([], {})" "map UserKey ts"] by (auto simp: acc_def)
    have eq: "ListUsers (memChecker m) s r ot oid = listComputed (\<lambda>r. ListUsers (memChecker m) s r ot oid) rws acc"
      by (subst ListUsers.simps) (simp add: ts acc_def rws_def split: option.split)
    have step: "\<exists>us. ListUsers (memChecker m) s (ComputedRelation rw) ot oid = Some (Inr us) \<and> set us = ?S (ComputedRelation rw)"
      if "rw \<in> set rws" "ComputedRelation rw \<noteq> []" for rw
      using less.IH [of "ComputedRelation rw"] that by (auto simp: computed_step_def rws)
    have "?S r = UserKey ` set ts \<union> (\<Union>rw \<in> {rw \<in> set rws. ComputedRelation rw \<noteq> []}. ?S (ComputedRelation rw))"
      (is "_ = ?rhs")
    proof (intro equalityI subsetI)
      fix u assume "u \<in> ?S r"
      then obtain t r' where t: "u = UserKey t" "t \<in> all_tuples s" "(r, r') \<in> (computed_step m ot)\<^sup>*"
        "matchesFilter t (filterOf ot oid r')" by auto
      from t(3) show "u \<in> ?rhs"
      proof (cases rule: converse_rtranclE)
        case base
        with t set_ts show ?thesis by auto
      next
        case (step x)
        then obtain rw where "rw \<in> set rws" "ComputedRelation rw = x" "x \<noteq> []" by (auto simp: computed_step_def rws)
        with step t show ?thesis by blast
      qed
    next
      fix u assume "u \<in> ?rhs"
      then show "u \<in> ?S r"
        using set_ts by (auto simp: rws computed_step_def intro: converse_rtrancl_into_rtrancl)
    qed
    with listComputed_union [of rws _ ?S acc, OF step acc(3,2)] acc(1) show ?case unfolding eq by auto
  qed
qed

text \<open>
  Where that is all there is to find: every relation reached through computed ones accepts direct
  tuples and has no tuple-to-userset rule, and its tuples on the object name plain subjects.
\<close>

definition plain_relation :: "Model \<Rightarrow> Tuple set \<Rightarrow> string \<Rightarrow> string \<Rightarrow> string \<Rightarrow> bool" where
  "plain_relation m T ot oid r \<longleftrightarrow>
     (\<exists>rw \<in> rules m ot r. Direct rw) \<and> (\<forall>rw \<in> rules m ot r. FromLookup rw = None) \<and>
     (\<forall>t \<in> T. matchesFilter t (filterOf ot oid r) \<longrightarrow> UserRelation t = [] \<and> UserType t \<noteq> [] \<and> UserID t \<noteq> [])"

lemma grants_plain:
  assumes plain: "\<And>r'. (r, r') \<in> (computed_step m ot)\<^sup>* \<Longrightarrow> plain_relation m T ot oid r'"
  shows "grants m T ut uid (ot, oid, r) \<longleftrightarrow>
     (\<exists>r'. (r, r') \<in> (computed_step m ot)\<^sup>* \<and> (\<exists>t \<in> T. matchesFilter t (userFilter ot oid r' ut uid)))"
proof
  have "\<forall>r'. n = (ot, oid, r') \<longrightarrow> (r, r') \<in> (computed_step m ot)\<^sup>* \<longrightarrow>
      (\<exists>r''. (r, r'') \<in> (computed_step m ot)\<^sup>* \<and> (\<exists>t \<in> T. matchesFilter t (userFilter ot oid r'' ut uid)))"
    if "grants m T ut uid n" for n
    using that
  proof induction
    case (userset rw ot' r' t oid')
    then have "\<not> plain_relation m T ot' oid' r'"
      by (auto simp: plain_relation_def isUsersetOf_def matchesFilter_iff filterOf_def)
    with plain show ?case by blast
  next
    case (computed rw ot' r' r'' oid')
    then have "(r', r'') \<in> computed_step m ot'" by (auto simp: computed_step_def)
    with computed.IH show ?case by (auto intro: rtrancl_into_rtrancl)
  next
    case (from_lookup rw ot' r' fl t oid')
    then have "\<not> plain_relation m T ot' oid' r'" by (auto simp: plain_relation_def)
    with plain show ?case by blast
  qed blast
  then show "grants m T ut uid (ot, oid, r) \<Longrightarrow>
      \<exists>r'. (r, r') \<in> (computed_step m ot)\<^sup>* \<and> (\<exists>t \<in> T. matchesFilter t (userFilter ot oid r' ut uid))"
    by blast
next
  assume "\<exists>r'. (r, r') \<in> (computed_step m ot)\<^sup>* \<and> (\<exists>t \<in> T. matchesFilter t (userFilter ot oid r' ut uid))"
  then obtain r' t where r': "(r, r') \<in> (computed_step m ot)\<^sup>*" and t: "t \<in> T" "matchesFilter t (userFilter ot oid r' ut uid)"
    by blast
  from plain [OF r'] t have "grants m T ut uid (ot, oid, r')" by (auto simp: plain_relation_def intro: grants.direct)
  with r' show "grants m T ut uid (ot, oid, r)"
    by (induction rule: converse_rtrancl_induct) (auto simp: computed_step_def intro: grants.computed)
qed

text \<open>
  C37. Listing users finds everyone who has the relation, where usersets and tuple-to-userset rules
  play no part. Take an admissible store and an object whose type has no cycle of computed relations,
  and where the relation and every relation it computes from accept direct tuples, have no
  tuple-to-userset rule and hold on this object only plain subjects with a type and an id. Then the
  listing terminates and returns, without duplicates, exactly the keys of the users, of a non-empty
  type without a colon and a non-empty id, to whom the relationship semantics grants the relation.
\<close>

theorem ListUsers_exact:
  assumes "mem_admissible s" and "acyclic (computed_step m ot)"
    and "\<And>r'. (r, r') \<in> (computed_step m ot)\<^sup>* \<Longrightarrow> plain_relation m (all_tuples s) ot oid r'"
  shows "\<exists>us. ListUsers (memChecker m) s r ot oid = Some (Inr us) \<and> distinct us \<and>
     set us = {ut @ '':'' @ uid | ut uid. ut \<noteq> [] \<and> uid \<noteq> [] \<and> CHR '':'' \<notin> set ut \<and>
                 grants m (all_tuples s) ut uid (ot, oid, r)}"
proof -
  have wf: "CHR '':'' \<notin> set (UserType t)" if "t \<in> all_tuples s" for t
    using that assms(1) stored_wf by (auto simp: all_tuples_def mem_admissible_def list_all_iff wf_tuple_def)
  let ?S = "{t \<in> all_tuples s. \<exists>r'. (r, r') \<in> (computed_step m ot)\<^sup>* \<and> matchesFilter t (filterOf ot oid r')}"
  have key: "UserKey t = UserType t @ '':'' @ UserID t" "UserType t \<noteq> []" "UserID t \<noteq> []" if "t \<in> ?S" for t
    using that assms(3) by (auto simp: plain_relation_def UserKey_def Let_def)
  have user: "matchesFilter t (userFilter ot oid r' ut uid) \<longleftrightarrow>
      matchesFilter t (filterOf ot oid r') \<and> UserType t = ut \<and> UserID t = uid" if "ut \<noteq> []" "uid \<noteq> []" for t r' ut uid
    using that by (auto simp: matchesFilter_iff userFilter_def filterOf_def)
  have g: "grants m (all_tuples s) ut uid (ot, oid, r) \<longleftrightarrow> (\<exists>t \<in> ?S. UserType t = ut \<and> UserID t = uid)"
    if "ut \<noteq> []" "uid \<noteq> []" for ut uid
    using grants_plain [of r m ot "all_tuples s" oid ut uid] assms(3) user [OF that] by auto
  have "UserKey ` ?S = {ut @ '':'' @ uid | ut uid. ut \<noteq> [] \<and> uid \<noteq> [] \<and> CHR '':'' \<notin> set ut \<and>
                 grants m (all_tuples s) ut uid (ot, oid, r)}" (is "_ = ?R")
  proof (intro equalityI subsetI)
    fix u assume "u \<in> UserKey ` ?S"
    then obtain t where t: "t \<in> ?S" "u = UserKey t" by blast
    with key [OF t(1)] wf [of t] g [of "UserType t" "UserID t"] show "u \<in> ?R" by blast
  next
    fix u assume "u \<in> ?R"
    then obtain ut uid where u: "u = ut @ '':'' @ uid" "ut \<noteq> []" "uid \<noteq> []" "grants m (all_tuples s) ut uid (ot, oid, r)" by blast
    with g [of ut uid] obtain t where t: "t \<in> ?S" "UserType t = ut" "UserID t = uid" by blast
    then have "u = UserKey t" using key(1) [OF t(1)] u(1) by simp
    with t(1) show "u \<in> UserKey ` ?S" by (rule rev_image_eqI)
  qed
  with ListUsers_stored [OF assms(1,2), of r oid] show ?thesis by simp
qed

lemma sample_acyclic: "acyclic (computed_step sample_model ''doc'')"
proof -
  have r: "\<forall>p \<in> set (Types sample_model). \<forall>q \<in> set (Relations (snd p)). \<forall>rw \<in> set (Rewrites (snd q)).
      ComputedRelation rw \<noteq> [] \<longrightarrow> fst q = ''viewer'' \<and> ComputedRelation rw = ''owner''" by code_simp
  have "computed_step sample_model ''doc'' \<subseteq> {(''viewer'', ''owner'')}"
    using r by (fastforce simp: computed_step_def dest: rules_mem)
  moreover have "acyclic {(''viewer'', ''owner'')}" by (simp add: acyclic_insert) (simp add: acyclic_def)
  ultimately show ?thesis using acyclic_subset by blast
qed

lemma sample_owner: "rules sample_model ''doc'' ''owner'' = {directRule}"
proof -
  have "(case map_of (Types sample_model) ''doc'' of None \<Rightarrow> []
      | Some td \<Rightarrow> (case map_of (Relations td) ''owner'' of None \<Rightarrow> [] | Some rd \<Rightarrow> Rewrites rd)) = [directRule]" by code_simp
  then show ?thesis by (auto simp: rules_def split: option.splits)
qed

theorem ListUsers_exact_witness:
  "\<exists>us. ListUsers (memChecker sample_model) eng_store ''owner'' ''doc'' ''1'' = Some (Inr us) \<and> distinct us \<and>
     set us = {ut @ '':'' @ uid | ut uid. ut \<noteq> [] \<and> uid \<noteq> [] \<and> CHR '':'' \<notin> set ut \<and>
                 grants sample_model (set eng_tuples) ut uid (''doc'', ''1'', ''owner'')}"
proof -
  have "\<forall>t \<in> set eng_tuples. matchesFilter t (filterOf ''doc'' ''1'' ''owner'') \<longrightarrow>
      UserRelation t = [] \<and> UserType t \<noteq> [] \<and> UserID t \<noteq> []" by code_simp
  then have "plain_relation sample_model (set eng_tuples) ''doc'' ''1'' ''owner''"
    unfolding plain_relation_def sample_owner by (simp add: directRule_def)
  moreover have "r' = ''owner''" if "(''owner'', r') \<in> (computed_step sample_model ''doc'')\<^sup>*" for r'
    using that by (cases rule: converse_rtranclE) (auto simp: computed_step_def sample_owner directRule_def)
  ultimately show ?thesis
    using ListUsers_exact [OF _ sample_acyclic, of eng_store "''owner''" "''1''"] eng_store_spec by auto
qed

text \<open>
  A model whose two relations include each other compiles, and a check on it returns; but a
  listing of its users calls itself for ever.
\<close>

definition cyclic_yaml :: yamlModel where
  "cyclic_yaml =
     \<lparr>yVersion = [],
      ymTypes = [(''user'', \<lparr>yRelations = []\<rparr>),
        (''doc'', \<lparr>yRelations =
          [(''viewer'', \<lparr>yTypes = [''user''], yUnion = [\<lparr>yRelation = ''editor'', yFrom = [], yLookup = []\<rparr>], yRequired = False\<rparr>),
           (''editor'', \<lparr>yTypes = [''user''], yUnion = [\<lparr>yRelation = ''viewer'', yFrom = [], yLookup = []\<rparr>], yRequired = False\<rparr>)]\<rparr>)]\<rparr>"

definition cyclic_model :: Model where
  "cyclic_model =
     \<lparr>Version = ''1.0'', Types = (case compileTypes (ymTypes cyclic_yaml) of Inl _ \<Rightarrow> [] | Inr tys \<Rightarrow> tys)\<rparr>"

lemma cyclic_doc:
  "map_of (Types cyclic_model) ''doc'' = Some \<lparr>TypeName = ''doc'', Relations =
      [(''viewer'', \<lparr>RelName = [], DirectTypes = [''user''], Rewrites =
          [directRule, \<lparr>Direct = False, ComputedRelation = ''editor'', FromLookup = None\<rparr>], MinHolders = 0\<rparr>),
       (''editor'', \<lparr>RelName = [], DirectTypes = [''user''], Rewrites =
          [directRule, \<lparr>Direct = False, ComputedRelation = ''viewer'', FromLookup = None\<rparr>], MinHolders = 0\<rparr>)]\<rparr>"
  by code_simp

lemma ListUsers_none:
  assumes "ListUsers c s r ot oid = Some y"
  shows "\<not> (c = memChecker cyclic_model \<and> ot = ''doc'' \<and> (r = ''viewer'' \<or> r = ''editor'') \<and> mem_admissible s)"
proof (rule ListUsers.raw_induct [OF _ assms], goal_cases)
  case (1 f c s r ot oid y)
  show ?case
  proof
    assume a: "c = memChecker cyclic_model \<and> ot = ''doc'' \<and> (r = ''viewer'' \<or> r = ''editor'') \<and> mem_admissible s"
    then obtain ts where "tsRead memoryTupleStore (filterOf ot oid r) s = Inr ts"
      using mem.read_law by blast
    with a 1(2) have "f c s ''viewer'' ot oid \<noteq> None \<or> f c s ''editor'' ot oid \<noteq> None"
      by (auto simp: directRule_def bind_eq_Some_conv Let_def cyclic_doc)
    with 1(1) a show False by blast
  qed
qed

text \<open>
  C38. The compiler accepts a model whose computed relations form a cycle. A check on it
  terminates, but \<open>ListUsers\<close>, which keeps no visited set, does not return on any store.
\<close>

theorem ListUsers_cycle_diverges:
  "Compile Inr cyclic_yaml = Inr cyclic_model \<and>
   (\<forall>s oid. mem_admissible s \<longrightarrow> ListUsers (memChecker cyclic_model) s ''viewer'' ''doc'' oid = None)"
proof
  show "Compile Inr cyclic_yaml = Inr cyclic_model" by code_simp
  show "\<forall>s oid. mem_admissible s \<longrightarrow> ListUsers (memChecker cyclic_model) s ''viewer'' ''doc'' oid = None"
    using ListUsers_none [of "memChecker cyclic_model" _ "''viewer''" "''doc''"] by (metis option.exhaust)
qed

theorem ListUsers_cycle_diverges_witness:
  "ListUsers (memChecker cyclic_model) eng_store ''viewer'' ''doc'' ''1'' = None"
  using ListUsers_cycle_diverges eng_store_spec by blast

section \<open>Keys\<close>

text \<open>
  The parsers of user and object keys undo the printers: the key of a tuple's user parses back
  to its type, id and userset relation, and the key of its object to its type and id, whatever
  the ids contain beyond their separator. In the other direction, a user key with a separator
  parses into parts that print back to it, save for a trailing empty relation.
\<close>

theorem ParseKey_roundtrip:
  "(wf_tuple t \<longrightarrow> ParseUserKey (UserKey t) = (UserType t, UserID t, UserRelation t) \<and>
      ParseObjectKey (ObjectKey t) = (ObjectType t, ObjectID t)) \<and>
   (ParseUserKey k = (ut, uid, ur) \<longrightarrow> CHR '':'' \<in> set k \<longrightarrow>
      clean ut uid \<and> (k = ut @ '':'' @ uid @ (if ur = [] then [] else ''#'' @ ur) \<or> ur = [] \<and> k = ut @ '':'' @ uid @ ''#''))"
proof (intro conjI impI)
  assume wf: "wf_tuple t"
  have "cut (CHR '':'') (UserType t @ '':'' @ x) = (UserType t, x, True)" for x
    using cut_append [of "CHR '':''" "UserType t" x] wf by (simp add: wf_tuple_def)
  moreover have "cut (CHR ''#'') (UserID t @ ''#'' @ x) = (UserID t, x, True)" for x
    using cut_append [of "CHR ''#''" "UserID t" x] wf by (simp add: wf_tuple_def)
  moreover have "cut (CHR ''#'') (UserID t) = (UserID t, [], False)"
    using wf by (intro cut_absent) (simp add: wf_tuple_def)
  ultimately show "ParseUserKey (UserKey t) = (UserType t, UserID t, UserRelation t)"
    by (simp add: ParseUserKey_def UserKey_def Let_def)
  show "ParseObjectKey (ObjectKey t) = (ObjectType t, ObjectID t)"
    using cut_append [of "CHR '':''" "ObjectType t" "ObjectID t"] wf
    by (simp add: ParseObjectKey_def ObjectKey_def wf_tuple_def)
next
  assume p: "ParseUserKey k = (ut, uid, ur)" and sep: "CHR '':'' \<in> set k"
  obtain a rest ok where c: "cut (CHR '':'') k = (a, rest, ok)" by (cases "cut (CHR '':'') k")
  with sep have ok: "ok" using cut_not_found [of "CHR '':''" k a rest] by (cases ok) auto
  with c have k: "k = a @ CHR '':'' # rest" "CHR '':'' \<notin> set a" using cut_found [of "CHR '':''" k a rest] by auto
  obtain b x has where d: "cut (CHR ''#'') rest = (b, x, has)" by (cases "cut (CHR ''#'') rest")
  have "clean ut uid \<and> (k = ut @ '':'' @ uid @ (if ur = [] then [] else ''#'' @ ur) \<or> ur = [] \<and> k = ut @ '':'' @ uid @ ''#'')"
  proof (cases has)
    case True
    with d have "rest = b @ CHR ''#'' # x" "CHR ''#'' \<notin> set b"
      using cut_found [of "CHR ''#''" rest b x] by auto
    with p c d ok True k show ?thesis by (simp add: ParseUserKey_def clean_def)
  next
    case False
    with d have "CHR ''#'' \<notin> set rest"
      using cut_not_found [of "CHR ''#''" rest b x] by auto
    with p c d ok False k show ?thesis by (simp add: ParseUserKey_def clean_def)
  qed
  then show "clean ut uid" "k = ut @ '':'' @ uid @ (if ur = [] then [] else ''#'' @ ur) \<or> ur = [] \<and> k = ut @ '':'' @ uid @ ''#''"
    by blast+
qed

theorem ParseKey_roundtrip_witness:
  "ParseUserKey (UserKey (tup ''doc'' ''1'' ''viewer'' ''group'' ''eng'' ''member'')) = (''group'', ''eng'', ''member'')"
proof -
  have "wf_tuple (tup ''doc'' ''1'' ''viewer'' ''group'' ''eng'' ''member'')" by code_simp
  with ParseKey_roundtrip [of "tup ''doc'' ''1'' ''viewer'' ''group'' ''eng'' ''member''"] show ?thesis by simp
qed

lemma zanzibar_subject:
  "zanzibar m T ut uid n \<Longrightarrow> \<exists>t \<in> T. UserType t = ut \<and> UserID t = uid \<and> UserRelation t = []"
  by (induction rule: zanzibar.induct) force+

definition userset_store :: MemoryStore where
  "userset_store = writeLocked (tup ''doc'' ''1'' ''viewer'' ''group'' ''eng'' ''member'') NewMemoryStore"

text \<open>
  Two places where the traversal grants more than exact tuples do. A subject that is only named
  as a userset (\<open>group:eng#member\<close>) is granted the relation as a plain user (\<open>group:eng\<close>), because an
  empty user relation in the direct filter matches any; and a request on an object with an empty
  id is granted by a tuple on any object of the type.
\<close>

theorem Check_wildcards:
  "Check (memChecker sample_model) background userset_store ''group'' ''eng'' ''viewer'' ''doc'' ''1'' 0 = Some (Inr True, 1) \<and>
   \<not> zanzibar sample_model (all_tuples userset_store) ''group'' ''eng'' (''doc'', ''1'', ''viewer'') \<and>
   Check (memChecker sample_model) background eng_store ''user'' ''cat'' ''owner'' ''doc'' [] 0 = Some (Inr True, 1)"
proof (intro conjI)
  show "Check (memChecker sample_model) background userset_store ''group'' ''eng'' ''viewer'' ''doc'' ''1'' 0 = Some (Inr True, 1)"
    by code_simp
  show "Check (memChecker sample_model) background eng_store ''user'' ''cat'' ''owner'' ''doc'' [] 0 = Some (Inr True, 1)"
    by code_simp
  have "all_tuples userset_store = {tup ''doc'' ''1'' ''viewer'' ''group'' ''eng'' ''member''}"
    by code_simp
  then show "\<not> zanzibar sample_model (all_tuples userset_store) ''group'' ''eng'' (''doc'', ''1'', ''viewer'')"
    by (auto dest: zanzibar_subject)
qed

end
