(* ===== verification/Engine_Models.thy ===== *)
theory Engine_Models
  imports Checker
begin

text \<open>
  The state of the Zanzibar engine (\<open>zanzibar/zanzibar.go\<close>) and its authorization models: loading,
  persisting, activating behind the monotonic revision fence, refreshing from the model store
  (\<open>model_cache.go\<close>) and resolving the model of a tenant. The tuple operations are in
  \<open>Engine_Tuples\<close>.

  The engine's collaborators are interfaces: records of operations over their own states. The tuple
  store has the state \<open>'s\<close>, the model store \<open>'m\<close>, and everything else an operation can observe or
  affect (the subscribers of the notifier, the precommit recorder, the serving gate) the state
  \<open>'x\<close>. Operations that run under one of the engine's locks are single functions.
\<close>

section \<open>Collaborators\<close>

record StoredModel =
  smYAML :: string
  smRevision :: int

record 'm ModelStore =
  msSave :: "string \<Rightarrow> string \<Rightarrow> string \<Rightarrow> 'm \<Rightarrow> int res \<times> 'm"
  msGet :: "string \<Rightarrow> 'm \<Rightarrow> StoredModel res"
  msListAll :: "'m \<Rightarrow> (string \<times> StoredModel) list res"

text \<open>
  A change notifier; the first argument of each operation is the tenant its context carries. The
  recorder is the optional interface \<open>PrecommitTupleRecorder\<close> of the same value.
\<close>

record 'x ChangeNotifier =
  OnTupleWrite :: "string \<Rightarrow> Tuple \<Rightarrow> 'x \<Rightarrow> 'x"
  OnTupleDelete :: "string \<Rightarrow> Tuple \<Rightarrow> 'x \<Rightarrow> 'x"
  OnModelUpdate :: "string \<Rightarrow> string \<Rightarrow> Model option \<Rightarrow> 'x \<Rightarrow> 'x"
  RecordTupleWrite :: "(string \<Rightarrow> Tuple \<Rightarrow> 'x \<Rightarrow> goerror option \<times> 'x) option"
  RecordTupleDelete :: "(string \<Rightarrow> Tuple \<Rightarrow> 'x \<Rightarrow> goerror option \<times> 'x) option"

definition NoopNotifier :: "'x ChangeNotifier" where
  "NoopNotifier =
     \<lparr>OnTupleWrite = (\<lambda>_ _ x. x), OnTupleDelete = (\<lambda>_ _ x. x), OnModelUpdate = (\<lambda>_ _ _ x. x),
      RecordTupleWrite = None, RecordTupleDelete = None\<rparr>"

text \<open>A tuple store with its optional capabilities, each present or not.\<close>

record ('s, 'x) EngineStore =
  esTuples :: "'s TupleStore"
  esConditionalDeleter :: "(Tuple \<Rightarrow> int \<Rightarrow> 's \<Rightarrow> goerror option \<times> 's) option"
  esTx :: "(Tuple list \<Rightarrow> Tuple list \<Rightarrow> 's \<Rightarrow> goerror option \<times> 's) option"
  esReplace :: "(TupleFilter \<Rightarrow> Tuple list \<Rightarrow> (Tuple list \<Rightarrow> Tuple list \<Rightarrow> bool \<times> 'x \<Rightarrow> goerror option \<times> bool \<times> 'x) option \<Rightarrow>
                 's \<Rightarrow> bool \<times> 'x \<Rightarrow> (Tuple list \<times> Tuple list) res \<times> 's \<times> bool \<times> 'x) option"
  esReadPage :: "(TupleFilter \<Rightarrow> string \<Rightarrow> int \<Rightarrow> 's \<Rightarrow> (Tuple list \<times> string) res) option"
  esCursorAfter :: "(TupleFilter \<Rightarrow> Tuple \<Rightarrow> 's \<Rightarrow> string res) option"
  esReadPageExcluding :: "(TupleFilter \<Rightarrow> string \<Rightarrow> string \<Rightarrow> string \<Rightarrow> int \<Rightarrow> 's \<Rightarrow> (Tuple list \<times> string) res) option"
  esCursorAfterExcluding :: "(TupleFilter \<Rightarrow> string \<Rightarrow> string \<Rightarrow> Tuple \<Rightarrow> 's \<Rightarrow> string res) option"
  esCounter :: "('s \<Rightarrow> (string \<times> int) list res) option"

section \<open>The engine\<close>

text \<open>
  A tenant's compiled model with its source and revision. Its checker is always
  \<open>check.New(model, e.store)\<close>, so the model stands for both.
\<close>

record tenantModel =
  tmModel :: Model
  tmSource :: string
  tmRevision :: int

record ('s, 'm, 'x) Engine =
  defaultModel :: "tenantModel option"
  cache :: "(string \<times> tenantModel) list"
  eStore :: "('s, 'x) EngineStore"
  eModelStore :: "'m ModelStore option"
  eNotifier :: "'x ChangeNotifier"
  servingGate :: "(string \<Rightarrow> 'x \<Rightarrow> goerror option) option"
  tuplesState :: 's
  modelsState :: 'm
  outside :: 'x

definition NewEngine ::
    "('s, 'x) EngineStore \<Rightarrow> 'm ModelStore option \<Rightarrow> 'x ChangeNotifier option \<Rightarrow> 's \<Rightarrow> 'm \<Rightarrow> 'x \<Rightarrow> ('s, 'm, 'x) Engine" where
  "NewEngine st ms notifier s m x =
     \<lparr>defaultModel = None, cache = [], eStore = st, eModelStore = ms,
      eNotifier = (case notifier of None \<Rightarrow> NoopNotifier | Some n \<Rightarrow> n),
      servingGate = None, tuplesState = s, modelsState = m, outside = x\<rparr>"

text \<open>The context of a call: the tenant it carries (empty when none) and its cancellation.\<close>

record Context =
  ctxTenant :: string
  ctxErr :: ctx

definition notifyModel :: "string \<Rightarrow> string \<Rightarrow> Model option \<Rightarrow> ('s, 'm, 'x) Engine \<Rightarrow> ('s, 'm, 'x) Engine" where
  "notifyModel ctxTid tid m e = e\<lparr>outside := OnModelUpdate (eNotifier e) ctxTid tid m (outside e)\<rparr>"

text \<open>\<open>unm\<close> is the YAML decoder that \<open>model.Compile\<close> calls.\<close>

definition LoadModel ::
    "(string \<Rightarrow> yamlModel res) \<Rightarrow> string \<Rightarrow> ('s, 'm, 'x) Engine \<Rightarrow> goerror option \<times> ('s, 'm, 'x) Engine" where
  "LoadModel unm data e =
     (case Compile unm data of
        Inl err \<Rightarrow> (Some (Wrapf STR ''compile model: %w'' [] err), e)
      | Inr m \<Rightarrow>
          (None, notifyModel [] [] (Some m)
             (e\<lparr>defaultModel := Some \<lparr>tmModel = m, tmSource = data, tmRevision = 0\<rparr>\<rparr>)))"

definition ActivateModel ::
    "(string \<Rightarrow> yamlModel res) \<Rightarrow> string \<Rightarrow> int \<Rightarrow> ('s, 'm, 'x) Engine \<Rightarrow> goerror option \<times> ('s, 'm, 'x) Engine" where
  "ActivateModel unm data revision e =
     (if revision \<le> 0 then (Some (Errorf STR ''model revision must be positive'' []), e)
      else case Compile unm data of
        Inl err \<Rightarrow> (Some (Wrapf STR ''compile model: %w'' [] err), e)
      | Inr m \<Rightarrow>
          (case defaultModel e of
             Some cur \<Rightarrow>
               if revision \<le> tmRevision cur then (None, e)
               else (None, e\<lparr>defaultModel := Some \<lparr>tmModel = m, tmSource = data, tmRevision = revision\<rparr>\<rparr>)
           | None \<Rightarrow> (None, e\<lparr>defaultModel := Some \<lparr>tmModel = m, tmSource = data, tmRevision = revision\<rparr>\<rparr>)))"

text \<open>
  \<open>SetModel\<close> takes a compiled model. A nil argument, with which every check would dereference nil, is
  not modelled, so every tenant model has its model and its checker.
\<close>

definition SetModel :: "Model \<Rightarrow> ('s, 'm, 'x) Engine \<Rightarrow> ('s, 'm, 'x) Engine" where
  "SetModel m e =
     notifyModel [] [] (Some m) (e\<lparr>defaultModel := Some \<lparr>tmModel = m, tmSource = [], tmRevision = 0\<rparr>\<rparr>)"

definition GetModel :: "('s, 'm, 'x) Engine \<Rightarrow> Model option" where
  "GetModel e = map_option tmModel (defaultModel e)"

definition resolveModel :: "Context \<Rightarrow> string \<Rightarrow> ('s, 'm, 'x) Engine \<Rightarrow> tenantModel option" where
  "resolveModel ctx tenantID e =
     (let tid = (if tenantID = [] then ctxTenant ctx else tenantID) in
      if tid \<noteq> []
      then (case map_of (cache e) tid of Some tm \<Rightarrow> Some tm | None \<Rightarrow> defaultModel e)
      else defaultModel e)"

definition GetModelForTenant :: "Context \<Rightarrow> string \<Rightarrow> ('s, 'm, 'x) Engine \<Rightarrow> Model option" where
  "GetModelForTenant ctx tenantID e = map_option tmModel (resolveModel ctx tenantID e)"

record ModelSnapshot =
  snapYAML :: string
  snapRevision :: int

definition ModelSnapshotForTenant :: "Context \<Rightarrow> string \<Rightarrow> ('s, 'm, 'x) Engine \<Rightarrow> ModelSnapshot" where
  "ModelSnapshotForTenant ctx tenantID e =
     (case resolveModel ctx tenantID e of
        None \<Rightarrow> \<lparr>snapYAML = [], snapRevision = 0\<rparr>
      | Some tm \<Rightarrow> \<lparr>snapYAML = tmSource tm, snapRevision = tmRevision tm\<rparr>)"

definition GetModelSourceYAML :: "Context \<Rightarrow> string \<Rightarrow> ('s, 'm, 'x) Engine \<Rightarrow> string" where
  "GetModelSourceYAML ctx tenantID e = snapYAML (ModelSnapshotForTenant ctx tenantID e)"

definition ModelRevision :: "('s, 'm, 'x) Engine \<Rightarrow> int" where
  "ModelRevision e = (case defaultModel e of None \<Rightarrow> 0 | Some tm \<Rightarrow> tmRevision tm)"

definition ModelRevisionForTenant :: "Context \<Rightarrow> string \<Rightarrow> ('s, 'm, 'x) Engine \<Rightarrow> int" where
  "ModelRevisionForTenant ctx tenantID e = snapRevision (ModelSnapshotForTenant ctx tenantID e)"

definition ActivateModelForTenant ::
    "(string \<Rightarrow> yamlModel res) \<Rightarrow> string \<Rightarrow> string \<Rightarrow> int \<Rightarrow> ('s, 'm, 'x) Engine \<Rightarrow> goerror option \<times> ('s, 'm, 'x) Engine" where
  "ActivateModelForTenant unm tenantID data revision e =
     (if tenantID = [] then (Some (Errorf STR ''tenant id is required'' []), e)
      else if revision \<le> 0 then (Some (Errorf STR ''model revision must be positive'' []), e)
      else case Compile unm data of
        Inl err \<Rightarrow> (Some (Wrapf STR ''compile model: %w'' [] err), e)
      | Inr m \<Rightarrow>
          (let tm = \<lparr>tmModel = m, tmSource = data, tmRevision = revision\<rparr> in
           case map_of (cache e) tenantID of
             Some cur \<Rightarrow>
               if revision \<le> tmRevision cur then (None, e)
               else (None, e\<lparr>cache := AList.update tenantID tm (cache e)\<rparr>)
           | None \<Rightarrow> (None, e\<lparr>cache := AList.update tenantID tm (cache e)\<rparr>)))"

definition SaveModelForTenant ::
    "(string \<Rightarrow> yamlModel res) \<Rightarrow> string \<Rightarrow> string \<Rightarrow> string \<Rightarrow> ('s, 'm, 'x) Engine \<Rightarrow> int res \<times> ('s, 'm, 'x) Engine" where
  "SaveModelForTenant unm tenantID data createdBy e =
     (if tenantID = [] then (Inl (Errorf STR ''tenant id is required'' []), e)
      else case Compile unm data of
        Inl err \<Rightarrow> (Inl (Wrapf STR ''compile model: %w'' [] err), e)
      | Inr _ \<Rightarrow>
          (case eModelStore e of
             None \<Rightarrow> (Inl (Errorf STR ''persist model: model store is not configured'' []), e)
           | Some ms \<Rightarrow>
               (case msSave ms tenantID data createdBy (modelsState e) of
                  (Inl err, m') \<Rightarrow> (Inl (Wrapf STR ''persist model: %w'' [] err), e\<lparr>modelsState := m'\<rparr>)
                | (Inr revision, m') \<Rightarrow>
                    if revision \<le> 0
                    then (Inl (Errorf STR ''persist model: invalid revision %d'' []), e\<lparr>modelsState := m'\<rparr>)
                    else (Inr revision, e\<lparr>modelsState := m'\<rparr>))))"

text \<open>Go's \<open>int64\<close> addition wraps around.\<close>

definition int64 :: "int \<Rightarrow> int" where
  "int64 n = (n + 2 ^ 63) mod 2 ^ 64 - 2 ^ 63"

definition LoadModelForTenant ::
    "(string \<Rightarrow> yamlModel res) \<Rightarrow> Context \<Rightarrow> string \<Rightarrow> string \<Rightarrow> ('s, 'm, 'x) Engine \<Rightarrow> goerror option \<times> ('s, 'm, 'x) Engine" where
  "LoadModelForTenant unm ctx tenantID data e =
     (let next = int64 (ModelRevisionForTenant ctx tenantID e + 1) in
      case (case eModelStore e of
              None \<Rightarrow> (Inr next, e)
            | Some _ \<Rightarrow> SaveModelForTenant unm tenantID data ''api'' e) of
        (Inl err, e1) \<Rightarrow> (Some err, e1)
      | (Inr revision, e1) \<Rightarrow>
          (case ActivateModelForTenant unm tenantID data revision e1 of
             (Some err, e2) \<Rightarrow> (Some err, e2)
           | (None, e2) \<Rightarrow> (None, notifyModel (ctxTenant ctx) tenantID (GetModelForTenant ctx tenantID e2) e2)))"

definition RefreshModelForTenant ::
    "(string \<Rightarrow> yamlModel res) \<Rightarrow> Context \<Rightarrow> string \<Rightarrow> ('s, 'm, 'x) Engine \<Rightarrow> ModelSnapshot res \<times> ('s, 'm, 'x) Engine" where
  "RefreshModelForTenant unm ctx tenantID e =
     (if tenantID = [] then (Inl (Errorf STR ''tenant id is required'' []), e)
      else case eModelStore e of
        None \<Rightarrow> (Inl (Errorf STR ''refresh model: model store is not configured'' []), e)
      | Some ms \<Rightarrow>
          (case msGet ms tenantID (modelsState e) of
             Inl err \<Rightarrow> (Inl (Wrapf STR ''refresh model: %w'' [] err), e)
           | Inr sm \<Rightarrow>
               if smYAML sm = [] \<and> smRevision sm = 0
               then (Inr (ModelSnapshotForTenant ctx tenantID e), e)
               else if smYAML sm = [] \<or> smRevision sm \<le> 0
               then (Inl (Errorf STR ''refresh model: invalid stored model revision %d'' []), e)
               else
                 (case ActivateModelForTenant unm tenantID (smYAML sm) (smRevision sm) e of
                    (Some err, e') \<Rightarrow> (Inl (Wrapf STR ''refresh model: %w'' [] err), e')
                  | (None, e') \<Rightarrow> (Inr (ModelSnapshotForTenant ctx tenantID e'), e'))))"

definition modelForOperation ::
    "(string \<Rightarrow> yamlModel res) \<Rightarrow> Context \<Rightarrow> ('s, 'm, 'x) Engine \<Rightarrow> tenantModel option res \<times> ('s, 'm, 'x) Engine" where
  "modelForOperation unm ctx e =
     (if ctxTenant ctx \<noteq> [] \<and> eModelStore e \<noteq> None
      then (case RefreshModelForTenant unm ctx (ctxTenant ctx) e of
              (Inl err, e') \<Rightarrow> (Inl (Wrapf STR ''refresh authorization model: %w'' [] err), e')
            | (Inr _, e') \<Rightarrow> (Inr (resolveModel ctx [] e'), e'))
      else (Inr (resolveModel ctx [] e), e))"

definition RefreshModelForContext ::
    "(string \<Rightarrow> yamlModel res) \<Rightarrow> Context \<Rightarrow> ('s, 'm, 'x) Engine \<Rightarrow> Model option res \<times> ('s, 'm, 'x) Engine" where
  "RefreshModelForContext unm ctx e =
     (case modelForOperation unm ctx e of
        (Inl err, e') \<Rightarrow> (Inl err, e')
      | (Inr tm, e') \<Rightarrow> (Inr (map_option tmModel tm), e'))"

definition LoadPersistedModels ::
    "(string \<Rightarrow> yamlModel res) \<Rightarrow> ('s, 'm, 'x) Engine \<Rightarrow> goerror option \<times> ('s, 'm, 'x) Engine" where
  "LoadPersistedModels unm e =
     (case eModelStore e of
        None \<Rightarrow> (None, e)
      | Some ms \<Rightarrow>
          (case msListAll ms (modelsState e) of
             Inl err \<Rightarrow> (Some (Wrapf STR ''list persisted models: %w'' [] err), e)
           | Inr models \<Rightarrow>
               first_err_st (\<lambda>(tenantID, sm) e.
                 if smYAML sm = [] \<or> smRevision sm \<le> 0
                 then (Some (Errorf STR ''load persisted model for tenant %s: invalid revision %d'' [tenantID]), e)
                 else (case ActivateModelForTenant unm tenantID (smYAML sm) (smRevision sm) e of
                         (Some err, e') \<Rightarrow> (Some (Wrapf STR ''load persisted model for tenant %s: %w'' [tenantID] err), e')
                       | (None, e') \<Rightarrow> (None, e'))) models e))"
section \<open>The revision fence\<close>

text \<open>Every cached model is the compilation of its own source, under a positive revision.\<close>

definition tm_ok :: "(string \<Rightarrow> yamlModel res) \<Rightarrow> tenantModel \<Rightarrow> bool" where
  "tm_ok unm tm \<longleftrightarrow> tmRevision tm > 0 \<and> Compile unm (tmSource tm) = Inr (tmModel tm)"

definition cache_ok :: "(string \<Rightarrow> yamlModel res) \<Rightarrow> ('s, 'm, 'x) Engine \<Rightarrow> bool" where
  "cache_ok unm e \<longleftrightarrow> (\<forall>tid tm. map_of (cache e) tid = Some tm \<longrightarrow> tid \<noteq> [] \<and> tm_ok unm tm)"

text \<open>A tenant's entry is kept or replaced by one of a strictly newer revision.\<close>

definition entry_newer :: "tenantModel option \<Rightarrow> tenantModel option \<Rightarrow> bool" where
  "entry_newer old new \<longleftrightarrow>
     new = old \<or>
     (\<exists>tm'. new = Some tm' \<and> (case old of None \<Rightarrow> True | Some tm \<Rightarrow> tmRevision tm < tmRevision tm'))"

definition newer :: "(string \<Rightarrow> yamlModel res) \<Rightarrow> ('s, 'm, 'x) Engine \<Rightarrow> ('s, 'm, 'x) Engine \<Rightarrow> bool" where
  "newer unm e e' \<longleftrightarrow>
     (cache_ok unm e \<longrightarrow> cache_ok unm e') \<and>
     (\<forall>tid. entry_newer (map_of (cache e) tid) (map_of (cache e') tid)) \<and>
     eStore e' = eStore e \<and> eModelStore e' = eModelStore e \<and> eNotifier e' = eNotifier e \<and>
     servingGate e' = servingGate e"

lemma entry_newer_trans: "entry_newer a b \<Longrightarrow> entry_newer b c \<Longrightarrow> entry_newer a c"
  unfolding entry_newer_def by (cases a; cases b; cases c) auto

lemma newer_trans:
  assumes "newer unm e1 e2" and "newer unm e2 e3"
  shows "newer unm e1 e3"
proof -
  have "entry_newer (map_of (cache e1) tid) (map_of (cache e3) tid)" for tid
    using assms entry_newer_trans [of "map_of (cache e1) tid" "map_of (cache e2) tid"] by (simp add: newer_def)
  with assms show ?thesis by (simp add: newer_def)
qed

lemma newer_same_cache:
  "cache e' = cache e \<Longrightarrow> eStore e' = eStore e \<Longrightarrow> eModelStore e' = eModelStore e \<Longrightarrow> eNotifier e' = eNotifier e \<Longrightarrow>
   servingGate e' = servingGate e \<Longrightarrow> newer unm e e'"
  by (simp add: newer_def cache_ok_def entry_newer_def)

lemma newer_refl [simp]: "newer unm e e"
  by (rule newer_same_cache) simp_all

lemma Activate_cases:
  obtains (error) err where "ActivateModelForTenant unm tid data rv e = (Some err, e)"
    and "tid = [] \<or> rv \<le> 0 \<or> (\<exists>x. Compile unm data = Inl x)"
  | (kept) cur m where "ActivateModelForTenant unm tid data rv e = (None, e)" "map_of (cache e) tid = Some cur"
      "rv \<le> tmRevision cur" "tid \<noteq> []" "rv > 0" "Compile unm data = Inr m"
  | (activated) m where "Compile unm data = Inr m" "tid \<noteq> []" "rv > 0"
      "\<forall>cur. map_of (cache e) tid = Some cur \<longrightarrow> tmRevision cur < rv"
      "ActivateModelForTenant unm tid data rv e =
         (None, e\<lparr>cache := AList.update tid \<lparr>tmModel = m, tmSource = data, tmRevision = rv\<rparr> (cache e)\<rparr>)"
proof (cases "tid = [] \<or> rv \<le> 0")
  case True
  then show thesis by (cases "tid = []") (auto simp: ActivateModelForTenant_def intro: error)
next
  case False
  show thesis
  proof (cases "Compile unm data")
    case (Inl a)
    with False show thesis by (intro error) (auto simp: ActivateModelForTenant_def)
  next
    case (Inr m)
    show thesis
    proof (cases "\<exists>cur. map_of (cache e) tid = Some cur \<and> rv \<le> tmRevision cur")
      case True
      then obtain cur where "map_of (cache e) tid = Some cur" "rv \<le> tmRevision cur" by blast
      with False Inr show thesis by (intro kept [of cur m]) (auto simp: ActivateModelForTenant_def Let_def)
    next
      case old: False
      have "ActivateModelForTenant unm tid data rv e =
         (None, e\<lparr>cache := AList.update tid \<lparr>tmModel = m, tmSource = data, tmRevision = rv\<rparr> (cache e)\<rparr>)"
        using False Inr old by (auto simp: ActivateModelForTenant_def Let_def split: option.split)
      with False Inr old show thesis by (intro activated [of m]) auto
    qed
  qed
qed

lemma newer_Activate: "newer unm e (snd (ActivateModelForTenant unm tid data rv e))"
proof (cases rule: Activate_cases [of unm tid data rv e])
  case (activated m)
  then show ?thesis
    by (auto simp: newer_def cache_ok_def map_of_update entry_newer_def tm_ok_def split: option.split)
qed simp_all

lemma newer_ActivateD: "ActivateModelForTenant unm tid data rv e = (eo, e') \<Longrightarrow> newer unm e e'"
  using newer_Activate [of unm e tid data rv] by simp

lemma Activate_frame:
  assumes "ActivateModelForTenant unm tid data rv e = (eo, e')"
  shows "defaultModel e' = defaultModel e \<and> tuplesState e' = tuplesState e \<and> modelsState e' = modelsState e \<and> outside e' = outside e"
  using assms by (cases rule: Activate_cases [of unm tid data rv e]) auto

lemma Save_cases:
  obtains (error) err where "fst (SaveModelForTenant unm tid data cb e) = Inl err"
  | (saved) ms m' rv m where "SaveModelForTenant unm tid data cb e = (Inr rv, e\<lparr>modelsState := m'\<rparr>)"
      "eModelStore e = Some ms" "msSave ms tid data cb (modelsState e) = (Inr rv, m')" "rv > 0" "tid \<noteq> []"
      "Compile unm data = Inr m"
  by (cases "fst (SaveModelForTenant unm tid data cb e)")
    (auto simp: SaveModelForTenant_def split: if_splits sum.splits option.splits prod.splits)

lemma Save_frame:
  "\<exists>m'. snd (SaveModelForTenant unm tid data cb e) = e\<lparr>modelsState := m'\<rparr>"
  by (auto simp: SaveModelForTenant_def split: sum.split option.split prod.split
      intro: exI [of _ "modelsState e"])

lemma newer_update [simp]:
  "newer unm e (e\<lparr>modelsState := m'\<rparr>)" "newer unm e (e\<lparr>outside := x'\<rparr>)" "newer unm e (e\<lparr>tuplesState := s'\<rparr>)"
  "newer unm e (e\<lparr>defaultModel := d'\<rparr>)" "newer unm e (notifyModel t tid m e)"
  by (rule newer_same_cache; simp add: notifyModel_def)+

lemma newer_Save: "newer unm e (snd (SaveModelForTenant unm tid data cb e))"
  using Save_frame [of unm tid data cb e] newer_update(1) by metis

lemma newer_LoadModel: "newer unm e (snd (LoadModel unm data e))"
  by (auto simp: LoadModel_def split: sum.split intro!: newer_trans [OF newer_update(4) newer_update(5)])

lemma newer_ActivateModel: "newer unm e (snd (ActivateModel unm data rv e))"
  by (auto simp: ActivateModel_def split: sum.split option.split)

lemma newer_SetModel: "newer unm e (SetModel m e)"
  by (auto simp: SetModel_def intro!: newer_trans [OF newer_update(4) newer_update(5)])

lemma newer_LoadModelForTenant: "newer unm e (snd (LoadModelForTenant unm ctx tid data e))"
proof -
  let ?sv = "case eModelStore e of None \<Rightarrow> (Inr (int64 (ModelRevisionForTenant ctx tid e + 1)), e)
      | Some _ \<Rightarrow> SaveModelForTenant unm tid data ''api'' e"
  have sv: "newer unm e (snd ?sv)" using newer_Save by (auto split: option.split)
  obtain r e1 where r: "?sv = (r, e1)" by fastforce
  with sv have n1: "newer unm e e1" by simp
  show ?thesis
  proof (cases r)
    case (Inl a)
    with r n1 show ?thesis by (simp add: LoadModelForTenant_def Let_def)
  next
    case (Inr rv)
    obtain eo e2 where a: "ActivateModelForTenant unm tid data rv e1 = (eo, e2)" by fastforce
    then have "newer unm e e2" using newer_Activate [of unm e1 tid data rv] n1 newer_trans by fastforce
    with Inr r a show ?thesis
      by (cases eo) (auto simp: LoadModelForTenant_def Let_def intro: newer_trans newer_update(5))
  qed
qed

lemma newer_Refresh: "newer unm e (snd (RefreshModelForTenant unm ctx tid e))"
  by (auto simp: RefreshModelForTenant_def split: option.splits sum.splits prod.splits dest: newer_ActivateD)

lemma newer_modelForOperation: "newer unm e (snd (modelForOperation unm ctx e))"
  using newer_Refresh [of unm e ctx "ctxTenant ctx"]
  by (auto simp: modelForOperation_def split: sum.splits prod.splits)

lemma newer_LoadPersisted: "newer unm e (snd (LoadPersistedModels unm e))"
proof (cases "eModelStore e")
  case (Some ms)
  show ?thesis
  proof (cases "msListAll ms (modelsState e)")
    case (Inr models)
    let ?f = "\<lambda>(tenantID, sm) e.
         if smYAML sm = [] \<or> smRevision sm \<le> 0
         then (Some (Errorf STR ''load persisted model for tenant %s: invalid revision %d'' [tenantID]), e)
         else (case ActivateModelForTenant unm tenantID (smYAML sm) (smRevision sm) e of
                 (Some err, e') \<Rightarrow> (Some (Wrapf STR ''load persisted model for tenant %s: %w'' [tenantID] err), e')
               | (None, e') \<Rightarrow> (None, e'))"
    have step: "newer unm e1 (snd (?f p e1))" for p and e1 :: "('a, 'b, 'c) Engine"
      by (cases p) (auto split: prod.splits option.splits dest: newer_ActivateD)
    have "newer unm e (snd (first_err_st ?f models e))"
    proof (rule first_err_st_inv [where P = "newer unm e"])
      fix p and e1 :: "('a, 'b, 'c) Engine"
      assume "newer unm e e1"
      then show "newer unm e (snd (?f p e1))" using step by (rule newer_trans)
    qed simp
    then show ?thesis by (simp add: LoadPersistedModels_def Some Inr)
  qed (simp add: LoadPersistedModels_def Some)
qed (simp add: LoadPersistedModels_def)
section \<open>Histories of model operations\<close>

text \<open>
  One step of an engine's model life: any model operation with any arguments, or anything the
  rest of the system does to the stores and the outside world.
\<close>

inductive models_step ::
    "(string \<Rightarrow> yamlModel res) \<Rightarrow> ('s, 'm, 'x) Engine \<Rightarrow> ('s, 'm, 'x) Engine \<Rightarrow> bool"
  for unm :: "string \<Rightarrow> yamlModel res" where
  "models_step unm e (snd (LoadModel unm data e))"
| "models_step unm e (snd (ActivateModel unm data rv e))"
| "models_step unm e (SetModel m e)"
| "models_step unm e (snd (LoadModelForTenant unm ctx tid data e))"
| "models_step unm e (snd (SaveModelForTenant unm tid data cb e))"
| "models_step unm e (snd (ActivateModelForTenant unm tid data rv e))"
| "models_step unm e (snd (RefreshModelForTenant unm ctx tid e))"
| "models_step unm e (snd (modelForOperation unm ctx e))"
| "models_step unm e (snd (LoadPersistedModels unm e))"
| "models_step unm e (e\<lparr>tuplesState := s', modelsState := m', outside := x'\<rparr>)"

lemma models_step_newer: "models_step unm e e' \<Longrightarrow> newer unm e e'"
proof (induction rule: models_step.induct)
  case (10 e s' m' x')
  show ?case by (rule newer_same_cache) simp_all
qed (simp_all add: newer_LoadModel newer_ActivateModel newer_SetModel newer_LoadModelForTenant newer_Save
    newer_Activate newer_Refresh newer_modelForOperation newer_LoadPersisted)

lemma models_steps_newer: "(models_step unm)\<^sup>*\<^sup>* e e' \<Longrightarrow> newer unm e e'"
  by (induction rule: rtranclp_induct) (auto intro: newer_trans models_step_newer)

text \<open>
  C11. The revision fence holds over every history. From a new engine, whatever model operations run
  in whatever order and whatever the stores return, every cached tenant model is the compilation
  of the source kept beside it, is well-formed and has a positive revision, and between any two
  states of the history a tenant's model stays or is replaced by one of a strictly newer
  revision: a delayed activation never rolls a tenant back.
\<close>

theorem model_revisions_monotone:
  assumes "(models_step unm)\<^sup>*\<^sup>* (NewEngine st ms notifier s m x) e" and "(models_step unm)\<^sup>*\<^sup>* e e'"
  shows "(\<forall>tid tm. map_of (cache e') tid = Some tm \<longrightarrow>
            tid \<noteq> [] \<and> tmRevision tm > 0 \<and> Compile unm (tmSource tm) = Inr (tmModel tm) \<and> wf_model (tmModel tm)) \<and>
         (\<forall>tid tm. map_of (cache e) tid = Some tm \<longrightarrow>
            (\<exists>tm'. map_of (cache e') tid = Some tm' \<and> (tm' = tm \<or> tmRevision tm < tmRevision tm')))"
proof -
  have "cache_ok unm (NewEngine st ms notifier s m x)" by (simp add: cache_ok_def NewEngine_def)
  with models_steps_newer [OF assms(1)] models_steps_newer [OF assms(2)]
  have ok: "cache_ok unm e'" and n: "\<forall>tid. entry_newer (map_of (cache e) tid) (map_of (cache e') tid)"
    by (auto simp: newer_def)
  from n have "\<exists>tm'. map_of (cache e') tid = Some tm' \<and> (tm' = tm \<or> tmRevision tm < tmRevision tm')"
    if "map_of (cache e) tid = Some tm" for tid tm
    using that by (metis (no_types, lifting) entry_newer_def option.simps(5))
  with ok show ?thesis by (auto simp: cache_ok_def tm_ok_def intro: compiled_wf)
qed

section \<open>Commit before visibility\<close>

text \<open>
  A tenant model is durable before it is visible. When \<open>LoadModelForTenant\<close> fails, at whatever
  point, no cached model changed and no subscriber was told; when it succeeds, the model store
  has accepted the very document, the tenant's cached model is it or a strictly newer one, and
  exactly one notification, of the model now visible, went out after the activation.
\<close>

theorem LoadModelForTenant_commit:
  assumes "eModelStore e = Some ms" and "LoadModelForTenant unm ctx tid data e = (eo, e')"
  shows "(eo \<noteq> None \<longrightarrow> cache e' = cache e \<and> outside e' = outside e \<and> defaultModel e' = defaultModel e) \<and>
     (eo = None \<longrightarrow> (\<exists>rv m' m tm. msSave ms tid data ''api'' (modelsState e) = (Inr rv, m') \<and> modelsState e' = m' \<and>
        Compile unm data = Inr m \<and> map_of (cache e') tid = Some tm \<and> rv \<le> tmRevision tm \<and>
        (tm = \<lparr>tmModel = m, tmSource = data, tmRevision = rv\<rparr> \<or> map_of (cache e) tid = Some tm) \<and>
        outside e' = OnModelUpdate (eNotifier e) (ctxTenant ctx) tid (Some (tmModel tm)) (outside e)))"
proof (cases rule: Save_cases [of unm tid data "''api''" e])
  case (error err)
  then obtain e1 where s: "SaveModelForTenant unm tid data ''api'' e = (Inl err, e1)"
    by (cases "SaveModelForTenant unm tid data ''api'' e") auto
  with assms have "eo = Some err" "e' = e1" by (auto simp: LoadModelForTenant_def Let_def)
  moreover obtain m' where "e1 = e\<lparr>modelsState := m'\<rparr>" using Save_frame [of unm tid data "''api''" e] s by auto
  ultimately show ?thesis by simp
next
  case (saved ms' m' rv m)
  let ?e = "e\<lparr>modelsState := m'\<rparr>"
  obtain ao e2 where a: "ActivateModelForTenant unm tid data rv ?e = (ao, e2)" by fastforce
  have res: "eo = None \<and> e' = notifyModel (ctxTenant ctx) tid (GetModelForTenant ctx tid e2) e2" if "ao = None"
    using assms saved(1) a that by (auto simp: LoadModelForTenant_def Let_def)
  show ?thesis
  proof (cases rule: Activate_cases [of unm tid data rv ?e])
    case (kept cur m2)
    with a have "ao = None" "e2 = ?e" by auto
    with res kept saved assms(1) show ?thesis
      by (auto simp: notifyModel_def GetModelForTenant_def resolveModel_def Let_def)
  next
    case (activated m2)
    with a have "ao = None" "e2 = ?e\<lparr>cache := AList.update tid \<lparr>tmModel = m2, tmSource = data, tmRevision = rv\<rparr> (cache ?e)\<rparr>" by auto
    with res activated saved assms(1) show ?thesis
      by (auto simp: notifyModel_def GetModelForTenant_def resolveModel_def Let_def map_of_update)
  qed (use saved in auto)
qed

text \<open>
  C25. An operation in a tenant's context never decides on a model older than the authoritative
  store's: whenever the refresh succeeds, the model used has at least the stored revision, and
  it is the stored document itself unless the cache already held an equal or newer revision; when
  the store cannot be read or holds an invalid record, the operation gets an error, not a model.
\<close>

theorem modelForOperation_fresh:
  assumes "eModelStore e = Some ms" and "ctxTenant ctx \<noteq> []"
  shows "case msGet ms (ctxTenant ctx) (modelsState e) of
      Inl err \<Rightarrow> (\<exists>err'. modelForOperation unm ctx e = (Inl err', e) \<and> errors_Is err' err)
    | Inr sm \<Rightarrow>
        (if smYAML sm = [] \<and> smRevision sm = 0
         then modelForOperation unm ctx e = (Inr (resolveModel ctx [] e), e)
         else if smYAML sm = [] \<or> smRevision sm \<le> 0 \<or> (\<exists>x. Compile unm (smYAML sm) = Inl x)
         then \<exists>err'. modelForOperation unm ctx e = (Inl err', e)
         else \<exists>tm m e'. modelForOperation unm ctx e = (Inr (Some tm), e') \<and> Compile unm (smYAML sm) = Inr m \<and>
           smRevision sm \<le> tmRevision tm \<and>
           (tm = \<lparr>tmModel = m, tmSource = smYAML sm, tmRevision = smRevision sm\<rparr> \<or>
            map_of (cache e) (ctxTenant ctx) = Some tm))"
proof (cases "msGet ms (ctxTenant ctx) (modelsState e)")
  case (Inl err)
  with assms show ?thesis
    by (simp add: modelForOperation_def RefreshModelForTenant_def)
next
  case (Inr sm)
  show ?thesis
  proof (cases rule: Activate_cases [of unm "ctxTenant ctx" "smYAML sm" "smRevision sm" e])
    case (error err)
    with Inr assms show ?thesis by (auto simp: modelForOperation_def RefreshModelForTenant_def)
  next
    case (kept cur m)
    with Inr assms show ?thesis
      by (auto simp: modelForOperation_def RefreshModelForTenant_def resolveModel_def Let_def)
  next
    case (activated m)
    with Inr assms show ?thesis
      by (auto simp: modelForOperation_def RefreshModelForTenant_def resolveModel_def Let_def map_of_update)
  qed
qed
section \<open>A sample engine\<close>

text \<open>A model store kept in a map, and a decoder that reads every document as the sample model.\<close>

definition mapModelStore :: "(string \<times> StoredModel) list ModelStore" where
  "mapModelStore =
     \<lparr>msSave = (\<lambda>tid yaml _ m.
        (let r = (case map_of m tid of None \<Rightarrow> 0 | Some sm \<Rightarrow> smRevision sm) + 1 in
         (Inr r, AList.update tid \<lparr>smYAML = yaml, smRevision = r\<rparr> m))),
      msGet = (\<lambda>tid m. Inr (case map_of m tid of None \<Rightarrow> \<lparr>smYAML = [], smRevision = 0\<rparr> | Some sm \<Rightarrow> sm)),
      msListAll = Inr\<rparr>"

definition sampleDecoder :: "string \<Rightarrow> yamlModel res" where
  "sampleDecoder d = Inr sample_yaml"

definition bareStore :: "(MemoryStore, 'x) EngineStore" where
  "bareStore =
     \<lparr>esTuples = memoryTupleStore, esConditionalDeleter = None, esTx = None, esReplace = None, esReadPage = None,
      esCursorAfter = None, esReadPageExcluding = None, esCursorAfterExcluding = None, esCounter = None\<rparr>"

definition sampleEngine :: "(MemoryStore, (string \<times> StoredModel) list, nat) Engine" where
  "sampleEngine = NewEngine bareStore (Some mapModelStore)
     (Some (NoopNotifier\<lparr>OnModelUpdate := (\<lambda>_ _ _ n. Suc n)\<rparr>)) eng_store [] 0"

definition acme :: Context where
  "acme = \<lparr>ctxTenant = ''acme'', ctxErr = background\<rparr>"

lemma Compile_sampleDecoder: "Compile sampleDecoder d = Inr sample_model"
  using Compile_sample by (simp add: Compile_def sampleDecoder_def)

theorem model_revisions_monotone_witness:
  "\<exists>tm. map_of (cache (snd (ActivateModelForTenant sampleDecoder ''acme'' ''old'' 1
       (snd (ActivateModelForTenant sampleDecoder ''acme'' ''new'' 2 sampleEngine))))) ''acme'' = Some tm \<and>
     tmRevision tm = 2"
proof -
  let ?e = "snd (ActivateModelForTenant sampleDecoder ''acme'' ''new'' 2 sampleEngine)"
  let ?e' = "snd (ActivateModelForTenant sampleDecoder ''acme'' ''old'' 1 ?e)"
  have "(models_step sampleDecoder)\<^sup>*\<^sup>* sampleEngine ?e" "(models_step sampleDecoder)\<^sup>*\<^sup>* ?e ?e'"
    by (blast intro: models_step.intros)+
  moreover have "map_of (cache ?e) ''acme'' = Some \<lparr>tmModel = sample_model, tmSource = ''new'', tmRevision = 2\<rparr>"
    by (simp add: ActivateModelForTenant_def Compile_sampleDecoder sampleEngine_def NewEngine_def Let_def)
  ultimately obtain tm where "map_of (cache ?e') ''acme'' = Some tm"
    using model_revisions_monotone [of sampleDecoder bareStore "Some mapModelStore"
        "Some (NoopNotifier\<lparr>OnModelUpdate := (\<lambda>_ _ _ n. Suc n)\<rparr>)" eng_store "[]" 0 ?e ?e']
    unfolding sampleEngine_def by blast
  moreover from this have "tmRevision tm = 2"
    by (simp add: ActivateModelForTenant_def Compile_sampleDecoder sampleEngine_def NewEngine_def Let_def
        split: if_splits) auto
  ultimately show ?thesis by blast
qed

theorem LoadModelForTenant_commit_witness:
  "\<exists>e'. LoadModelForTenant sampleDecoder acme ''acme'' ''doc'' sampleEngine = (None, e') \<and> outside e' = 1 \<and>
     map_of (cache e') ''acme'' \<noteq> None"
proof -
  have ms: "eModelStore sampleEngine = Some mapModelStore" by (simp add: sampleEngine_def NewEngine_def)
  obtain eo e' where l: "LoadModelForTenant sampleDecoder acme ''acme'' ''doc'' sampleEngine = (eo, e')" by fastforce
  have "eo = None" using l
    by (auto simp: LoadModelForTenant_def Let_def ms SaveModelForTenant_def Compile_sampleDecoder mapModelStore_def
        sampleEngine_def NewEngine_def ActivateModelForTenant_def)
  with LoadModelForTenant_commit [OF ms l] l show ?thesis
    by (auto simp: sampleEngine_def NewEngine_def)
qed

theorem modelForOperation_fresh_witness:
  "\<exists>tm e'. modelForOperation sampleDecoder acme
     (sampleEngine\<lparr>modelsState := [(''acme'', \<lparr>smYAML = ''doc'', smRevision = 7\<rparr>)]\<rparr>) = (Inr (Some tm), e') \<and> 7 \<le> tmRevision tm"
  using modelForOperation_fresh [of "sampleEngine\<lparr>modelsState := [(''acme'', \<lparr>smYAML = ''doc'', smRevision = 7\<rparr>)]\<rparr>"
      mapModelStore acme sampleDecoder]
  by (auto simp: sampleEngine_def NewEngine_def acme_def mapModelStore_def Compile_sampleDecoder)

end
