(* ===== verification/Store_Pages.thy ===== *)
theory Store_Pages
  imports Tuple_Store "HOL-Library.Product_Lexorder" "HOL-Library.Multiset"
begin

text \<open>
  The bounded keyset pages of the store: the tuple order, the cursors and their binding to a scope
  and a filter (\<open>zanzibar/store/store.go\<close>), and the page reads of the memory store
  (\<open>memory.go\<close>). The serialisation of a cursor (\<open>encoding/json\<close> then \<open>encoding/base64\<close>) and the
  digest (\<open>crypto/sha256\<close>) are the record \<open>CursorCodec\<close>, a parameter of the operations that use
  them; what the theorems use of them is the hypothesis \<open>codec_ok\<close>: a decoded encoding is the value
  that was encoded.
\<close>

section \<open>The tuple order\<close>

definition keyList :: "'a Tuple_scheme \<Rightarrow> string list" where
  "keyList t = [ObjectType t, ObjectID t, Relation t, UserType t, UserID t, UserRelation t]"

text \<open>The loop over the two key arrays: the first component that differs decides.\<close>

fun keysLess :: "string list \<Rightarrow> string list \<Rightarrow> bool" where
  "keysLess (l # ls) (r # rs) = (if l \<noteq> r then l < r else keysLess ls rs)"
| "keysLess _ _ = False"

definition TupleLess :: "Tuple \<Rightarrow> Tuple \<Rightarrow> bool" where
  "TupleLess left right = keysLess (keyList left) (keyList right)"

lemma keysLess_less: "length ls = length rs \<Longrightarrow> keysLess ls rs \<longleftrightarrow> ls < rs"
  by (induction ls rs rule: keysLess.induct) auto

instantiation Tuple_ext :: (linorder) linorder
begin

definition less_eq_Tuple_ext :: "'a Tuple_ext \<Rightarrow> 'a Tuple_ext \<Rightarrow> bool" where
  "less_eq_Tuple_ext t u \<longleftrightarrow> (keyList t, Tuple.more t) \<le> (keyList u, Tuple.more u)"

definition less_Tuple_ext :: "'a Tuple_ext \<Rightarrow> 'a Tuple_ext \<Rightarrow> bool" where
  "less_Tuple_ext t u \<longleftrightarrow> (keyList t, Tuple.more t) < (keyList u, Tuple.more u)"

instance
proof
  fix t u v :: "'a Tuple_ext"
  show "t < u \<longleftrightarrow> t \<le> u \<and> \<not> u \<le> t" unfolding less_eq_Tuple_ext_def less_Tuple_ext_def by (rule less_le_not_le)
  show "t \<le> t" by (simp add: less_eq_Tuple_ext_def)
  show "t \<le> u \<Longrightarrow> u \<le> v \<Longrightarrow> t \<le> v" unfolding less_eq_Tuple_ext_def by (rule order_trans)
  show "t \<le> u \<or> u \<le> t" unfolding less_eq_Tuple_ext_def by (rule linear)
  assume "t \<le> u" "u \<le> t"
  then have "(keyList t, Tuple.more t) = (keyList u, Tuple.more u)"
    unfolding less_eq_Tuple_ext_def by (rule order_antisym)
  then show "t = u" by (simp add: keyList_def Tuple.equality)
qed

end

lemma TupleLess_less: "TupleLess t u \<longleftrightarrow> t < u"
  by (simp add: TupleLess_def less_Tuple_ext_def keysLess_less keyList_def)

section \<open>Cursors\<close>

record tuplePageCursor =
  cVersion :: int
  cScope :: string
  cKey :: "string list"

record CursorCodec =
  marshalCursor :: "tuplePageCursor \<Rightarrow> string res"
  unmarshalCursor :: "string \<Rightarrow> tuplePageCursor res"
  sha256Hex :: "string \<Rightarrow> string"

definition MaxTuplePageSize :: int where
  "MaxTuplePageSize = 500"

definition maxTupleCursorLen :: nat where
  "maxTupleCursorLen = 4096"

definition ValidateTuplePageLimit :: "int \<Rightarrow> goerror option" where
  "ValidateTuplePageLimit limit =
     (if limit < 1 \<or> limit > MaxTuplePageSize then Some ErrInvalidTuplePageLimit else None)"

abbreviation NUL :: string where
  "NUL \<equiv> [CHR 0x00]"

definition ExcludingSubjectCursorScope :: "string \<Rightarrow> string \<Rightarrow> string \<Rightarrow> string" where
  "ExcludingSubjectCursorScope tenantScope userType userID =
     tenantScope @ NUL @ ''exclude-subject'' @ NUL @ userType @ NUL @ userID"

fun strings_Join :: "string list \<Rightarrow> string \<Rightarrow> string" where
  "strings_Join [] sep = []"
| "strings_Join [x] sep = x"
| "strings_Join (x # y # xs) sep = x @ sep @ strings_Join (y # xs) sep"

definition tuplePageScope :: "CursorCodec \<Rightarrow> string \<Rightarrow> TupleFilter \<Rightarrow> string" where
  "tuplePageScope codec tenantScope f =
     sha256Hex codec (strings_Join [tenantScope, fObjectType f, fObjectID f, fRelation f,
                        fUserType f, fUserID f, fUserRelation f] NUL)"

definition EncodeTuplePageCursor :: "CursorCodec \<Rightarrow> string \<Rightarrow> TupleFilter \<Rightarrow> Tuple \<Rightarrow> string res" where
  "EncodeTuplePageCursor codec tenantScope f t =
     (if \<not> matchesTupleFilter t f
      then Inl (Wrapf STR ''%w: key does not match filter'' [] ErrInvalidTuplePageCursor)
      else case marshalCursor codec \<lparr>cVersion = 1, cScope = tuplePageScope codec tenantScope f, cKey = keyList t\<rparr> of
        Inl e \<Rightarrow> Inl (Wrapf STR ''encode tuple page cursor: %w'' [] e)
      | Inr raw \<Rightarrow> Inr raw)"

text \<open>
  The decoder: \<open>unmarshalCursor\<close> is the base64 decoding, the strict JSON decoding and the check that
  nothing follows it; all three failures return the same error. A decoded \<open>[6]string\<close> has six
  components.
\<close>

definition DecodeTuplePageCursor :: "CursorCodec \<Rightarrow> string \<Rightarrow> string \<Rightarrow> TupleFilter \<Rightarrow> Tuple res" where
  "DecodeTuplePageCursor codec cursor tenantScope f =
     (if cursor = [] \<or> length cursor > maxTupleCursorLen then Inl ErrInvalidTuplePageCursor
      else case unmarshalCursor codec cursor of
        Inl _ \<Rightarrow> Inl ErrInvalidTuplePageCursor
      | Inr decoded \<Rightarrow>
          if cVersion decoded \<noteq> 1 \<or> cScope decoded \<noteq> tuplePageScope codec tenantScope f
          then Inl ErrInvalidTuplePageCursor
          else case cKey decoded of
            [ot, oid, r, ut, uid, ur] \<Rightarrow>
              (let t = \<lparr>ObjectType = ot, ObjectID = oid, Relation = r, UserType = ut, UserID = uid, UserRelation = ur\<rparr> in
               if \<not> matchesTupleFilter t f then Inl ErrInvalidTuplePageCursor else Inr t)
          | _ \<Rightarrow> Inl ErrInvalidTuplePageCursor)"

section \<open>Page reads\<close>

text \<open>\<open>sort.Search\<close>: binary search for the least index at which a monotone predicate holds.\<close>

function searchLoop :: "(nat \<Rightarrow> bool) \<Rightarrow> nat \<Rightarrow> nat \<Rightarrow> nat" where
  "searchLoop f i j =
     (if i < j
      then (let h = (i + j) div 2 in if \<not> f h then searchLoop f (h + 1) j else searchLoop f i h)
      else i)"
  by pat_completeness auto
termination
  by (relation "measure (\<lambda>(f, i, j). j - i)") (auto simp: Let_def)

declare searchLoop.simps [simp del]

definition sort_Search :: "nat \<Rightarrow> (nat \<Rightarrow> bool) \<Rightarrow> nat" where
  "sort_Search n f = searchLoop f 0 n"

definition insertBoundedPageTuple :: "Tuple list \<Rightarrow> Tuple \<Rightarrow> Tuple \<Rightarrow> bool \<Rightarrow> nat \<Rightarrow> Tuple list" where
  "insertBoundedPageTuple page t after hasAfter capacity =
     (if hasAfter \<and> \<not> TupleLess after t then page
      else
        (let position = sort_Search (length page) (\<lambda>i. \<not> TupleLess (page ! i) t) in
         if length page = capacity \<and> position = length page then page
         else
           (let page' = take position page @ t # drop position page in
            if length page' > capacity then take capacity page' else page')))"

text \<open>The zero tuple that \<open>var after model.Tuple\<close> declares.\<close>

definition zeroTuple :: Tuple where
  "zeroTuple = \<lparr>ObjectType = [], ObjectID = [], Relation = [], UserType = [], UserID = [], UserRelation = []\<rparr>"

definition collectPage :: "(Tuple \<Rightarrow> bool) \<Rightarrow> Tuple \<Rightarrow> bool \<Rightarrow> nat \<Rightarrow> Tuple list \<Rightarrow> Tuple list \<Rightarrow> Tuple list" where
  "collectPage keep after hasAfter capacity ts page =
     fold (\<lambda>t page. if keep t then insertBoundedPageTuple page t after hasAfter capacity else page) ts page"

text \<open>The body shared by the two page reads, with the predicate each loop tests and the scope of the
  cursor.\<close>

definition readPageScoped ::
    "CursorCodec \<Rightarrow> string \<Rightarrow> (Tuple \<Rightarrow> bool) \<Rightarrow> TupleFilter \<Rightarrow> string \<Rightarrow> int \<Rightarrow> MemoryStore \<Rightarrow> (Tuple list \<times> string) res" where
  "readPageScoped codec scope keep f cursor limit s =
     (case ValidateTuplePageLimit limit of
        Some e \<Rightarrow> Inl e
      | None \<Rightarrow>
          (case (if cursor \<noteq> [] then DecodeTuplePageCursor codec cursor scope f else Inr zeroTuple) of
             Inl e \<Rightarrow> Inl e
           | Inr after \<Rightarrow>
               (let n = nat limit;
                    result = collectPage keep after (cursor \<noteq> []) (n + 1) (matTuples s)
                               (collectPage keep after (cursor \<noteq> []) (n + 1) (vals2 (byObjectRelation s)) [])
                in if length result = 0 then Inr ([], [])
                   else if length result \<le> n then Inr (result, [])
                   else
                     (let page = take n result in
                      case EncodeTuplePageCursor codec scope f (page ! (length page - 1)) of
                        Inl e \<Rightarrow> Inl e
                      | Inr next \<Rightarrow> Inr (page, next)))))"

definition ReadPage ::
    "CursorCodec \<Rightarrow> TupleFilter \<Rightarrow> string \<Rightarrow> int \<Rightarrow> MemoryStore \<Rightarrow> (Tuple list \<times> string) res" where
  "ReadPage codec f cursor limit s = readPageScoped codec [] (\<lambda>t. matchesFilter t f) f cursor limit s"

definition CursorAfter :: "CursorCodec \<Rightarrow> TupleFilter \<Rightarrow> Tuple \<Rightarrow> MemoryStore \<Rightarrow> string res" where
  "CursorAfter codec f t s = EncodeTuplePageCursor codec [] f t"

definition ReadPageExcludingSubject ::
    "CursorCodec \<Rightarrow> TupleFilter \<Rightarrow> string \<Rightarrow> string \<Rightarrow> string \<Rightarrow> int \<Rightarrow> MemoryStore \<Rightarrow> (Tuple list \<times> string) res" where
  "ReadPageExcludingSubject codec f excludedUserType excludedUserID cursor limit s =
     readPageScoped codec (ExcludingSubjectCursorScope [] excludedUserType excludedUserID)
       (\<lambda>t. matchesFilter t f \<and> (UserType t \<noteq> excludedUserType \<or> UserID t \<noteq> excludedUserID)) f cursor limit s"

definition CursorAfterExcludingSubject ::
    "CursorCodec \<Rightarrow> TupleFilter \<Rightarrow> string \<Rightarrow> string \<Rightarrow> Tuple \<Rightarrow> MemoryStore \<Rightarrow> string res" where
  "CursorAfterExcludingSubject codec f excludedUserType excludedUserID t s =
     (if UserType t = excludedUserType \<and> UserID t = excludedUserID then Inl ErrInvalidTuplePageCursor
      else EncodeTuplePageCursor codec (ExcludingSubjectCursorScope [] excludedUserType excludedUserID) f t)"
section \<open>Binary search and bounded insertion\<close>

lemma searchLoop_least:
  assumes "i \<le> j" and "j \<le> n" and "\<And>a b. a \<le> b \<Longrightarrow> b < n \<Longrightarrow> f a \<Longrightarrow> f b"
    and "\<And>k. k < i \<Longrightarrow> \<not> f k" and "\<And>k. j \<le> k \<Longrightarrow> k < n \<Longrightarrow> f k"
  shows "searchLoop f i j \<le> n \<and> (\<forall>k < searchLoop f i j. \<not> f k) \<and> (\<forall>k. searchLoop f i j \<le> k \<longrightarrow> k < n \<longrightarrow> f k)"
  using assms
proof (induction f i j rule: searchLoop.induct)
  case (1 f i j)
  let ?h = "(i + j) div 2"
  show ?case
  proof (cases "i < j")
    case True
    show ?thesis
    proof (cases "f ?h")
      case fh: True
      have "searchLoop f i ?h \<le> n \<and> (\<forall>k < searchLoop f i ?h. \<not> f k) \<and> (\<forall>k. searchLoop f i ?h \<le> k \<longrightarrow> k < n \<longrightarrow> f k)"
        by (rule "1.IH"(2)) (use True fh "1.prems" in auto)
      moreover have "searchLoop f i j = searchLoop f i ?h"
        by (subst searchLoop.simps) (simp add: True fh Let_def)
      ultimately show ?thesis by simp
    next
      case fh: False
      have "\<not> f k" if "k < ?h + 1" for k
      proof
        assume "f k"
        moreover have "k \<le> ?h" "?h < n" using that True "1.prems"(2) by auto
        ultimately show False using "1.prems"(3) fh by blast
      qed
      then have "searchLoop f (?h + 1) j \<le> n \<and> (\<forall>k < searchLoop f (?h + 1) j. \<not> f k) \<and>
          (\<forall>k. searchLoop f (?h + 1) j \<le> k \<longrightarrow> k < n \<longrightarrow> f k)"
        by (intro "1.IH"(1)) (use True fh "1.prems" in auto)
      moreover have "searchLoop f i j = searchLoop f (?h + 1) j"
        by (subst searchLoop.simps) (simp add: True fh Let_def)
      ultimately show ?thesis by simp
    qed
  next
    case False
    with "1.prems" have "searchLoop f i j = i" "i = j" by (simp_all add: searchLoop.simps)
    with "1.prems" show ?thesis by auto
  qed
qed

lemma sort_Search_takeWhile:
  fixes page :: "Tuple list"
  assumes "sorted page"
  shows "sort_Search (length page) (\<lambda>i. \<not> TupleLess (page ! i) t) = length (takeWhile (\<lambda>x. x < t) page)"
proof -
  define f where "f = (\<lambda>i. \<not> TupleLess (page ! i) t)"
  have f: "f i \<longleftrightarrow> \<not> page ! i < t" for i by (simp add: f_def TupleLess_less)
  have mono: "f b" if "a \<le> b" "b < length page" "f a" for a b
    using sorted_nth_mono [OF assms that(1,2)] that(3) unfolding f by order
  define q where "q = searchLoop f 0 (length page)"
  have q: "q \<le> length page \<and> (\<forall>k < q. \<not> f k) \<and> (\<forall>k. q \<le> k \<longrightarrow> k < length page \<longrightarrow> f k)"
    unfolding q_def by (rule searchLoop_least) (use mono in auto)
  have "takeWhile (\<lambda>x. x < t) page = take q page"
    by (rule takeWhile_eq_take_P_nth) (use q f in auto)
  with q have "length (takeWhile (\<lambda>x. x < t) page) = q" by simp
  then show ?thesis by (simp only: sort_Search_def q_def f_def)
qed

lemma insort_split:
  fixes t :: "'a :: linorder"
  shows "insort t ys = takeWhile (\<lambda>x. x < t) ys @ t # dropWhile (\<lambda>x. x < t) ys"
  by (induction ys) (auto simp: not_le)

lemma take_insort: "take c (insort t (take c ys)) = take c (insort t ys)" for t :: "'a :: linorder"
proof (induction ys arbitrary: c)
  case (Cons y ys)
  then show ?case by (cases c) (auto simp: take_Cons')
qed simp

lemma insertBounded_insort:
  assumes "sorted page" and "length page \<le> c"
  shows "insertBoundedPageTuple page t after hasAfter c =
     (if hasAfter \<and> \<not> after < t then page else take c (insort t page))"
proof -
  let ?p = "length (takeWhile (\<lambda>x. x < t) page)"
  have split: "take ?p page @ t # drop ?p page = insort t page"
    by (simp add: insort_split flip: takeWhile_eq_take dropWhile_eq_drop)
  have full: "take c (insort t page) = page" if "length page = c" "?p = length page"
    unfolding split [symmetric] using that by simp
  have "insertBoundedPageTuple page t after hasAfter c =
      (if hasAfter \<and> \<not> after < t then page
       else if length page = c \<and> ?p = length page then page
       else if length (insort t page) > c then take c (insort t page) else insort t page)"
    unfolding insertBoundedPageTuple_def TupleLess_less Let_def
      sort_Search_takeWhile [OF assms(1), unfolded TupleLess_less] split ..
  then show ?thesis using full by simp
qed

lemma insertBounded_sort:
  assumes "c > 0"
  shows "insertBoundedPageTuple (take c (sort xs)) t after hasAfter c =
     take c (sort (if hasAfter \<and> \<not> after < t then xs else t # xs))"
  using insertBounded_insort [of "take c (sort xs)" c t after hasAfter]
  by (simp add: take_insort sorted_wrt_take)

lemma collectPage_sort:
  assumes "c > 0"
  shows "collectPage keep after hasAfter c ts (take c (sort xs)) =
     take c (sort (filter (\<lambda>t. keep t \<and> (hasAfter \<longrightarrow> after < t)) ts @ xs))"
proof (induction ts arbitrary: xs)
  case (Cons t ts)
  have perm: "sort (filter P ts @ t # xs) = sort (t # filter P ts @ xs)" for P
    by (rule properties_for_sort) (simp_all add: sorted_insort)
  show ?case
    using Cons [of xs] Cons [of "t # xs"]
    by (auto simp: collectPage_def insertBounded_sort [OF assms] perm)
qed (simp add: collectPage_def)

text \<open>What is left to read after a cursor: the matching tuples above its key, in order.\<close>

definition store_list :: "MemoryStore \<Rightarrow> Tuple list" where
  "store_list s = vals2 (byObjectRelation s) @ matTuples s"

definition remaining :: "(Tuple \<Rightarrow> bool) \<Rightarrow> Tuple option \<Rightarrow> MemoryStore \<Rightarrow> Tuple list" where
  "remaining keep after s = sort (filter (\<lambda>t. keep t \<and> (case after of None \<Rightarrow> True | Some a \<Rightarrow> a < t)) (store_list s))"

lemma set_store_list: "set (store_list s) = all_tuples s"
  by (simp add: store_list_def all_tuples_def stored_def)

lemma collect_remaining:
  "collectPage keep after hasAfter (Suc n) (matTuples s)
     (collectPage keep after hasAfter (Suc n) (vals2 (byObjectRelation s)) []) =
   take (Suc n) (remaining keep (if hasAfter then Some after else None) s)"
proof -
  have "sort (filter P ys @ filter P xs) = sort (filter P (xs @ ys))" for P and xs ys :: "Tuple list"
    by (rule properties_for_sort) simp_all
  then show ?thesis
    using collectPage_sort [of "Suc n" keep after hasAfter _ "[]"]
    by (simp add: collectPage_sort remaining_def store_list_def if_distrib)
qed
section \<open>Cursors round-trip\<close>

text \<open>
  What is used of the standard library's encoders, for the tuples at hand: the cursor of a tuple
  encodes to a non-empty text, which decodes to the same value (\<open>encoding/json\<close> replaces bytes that
  are not UTF-8, so this is not assumed of every tuple). Nothing bounds the length of that
  text: \<open>EncodeTuplePageCursor\<close> issues it whatever its length, and \<open>DecodeTuplePageCursor\<close> refuses
  it when it is longer than \<open>maxTupleCursorLen\<close>.
\<close>

definition cursorOf :: "CursorCodec \<Rightarrow> string \<Rightarrow> TupleFilter \<Rightarrow> Tuple \<Rightarrow> tuplePageCursor" where
  "cursorOf codec scope f t = \<lparr>cVersion = 1, cScope = tuplePageScope codec scope f, cKey = keyList t\<rparr>"

definition codec_ok :: "CursorCodec \<Rightarrow> string \<Rightarrow> TupleFilter \<Rightarrow> Tuple set \<Rightarrow> bool" where
  "codec_ok codec scope f T \<longleftrightarrow>
     (\<forall>t \<in> T. \<exists>raw. marshalCursor codec (cursorOf codec scope f t) = Inr raw \<and> raw \<noteq> [] \<and>
        unmarshalCursor codec raw = Inr (cursorOf codec scope f t))"

definition cursor_too_long :: "CursorCodec \<Rightarrow> string \<Rightarrow> TupleFilter \<Rightarrow> Tuple \<Rightarrow> bool" where
  "cursor_too_long codec scope f t \<longleftrightarrow>
     (case EncodeTuplePageCursor codec scope f t of Inl _ \<Rightarrow> False | Inr raw \<Rightarrow> maxTupleCursorLen < length raw)"

lemma Decode_Encode:
  assumes "codec_ok codec scope f T" and "t \<in> T" and "matchesFilter t f"
  shows "\<exists>raw. EncodeTuplePageCursor codec scope f t = Inr raw \<and> raw \<noteq> [] \<and>
     DecodeTuplePageCursor codec raw scope f =
       (if cursor_too_long codec scope f t then Inl ErrInvalidTuplePageCursor else Inr t)"
proof -
  from assms(1,2) obtain raw where raw: "marshalCursor codec (cursorOf codec scope f t) = Inr raw" "raw \<noteq> []"
    "unmarshalCursor codec raw = Inr (cursorOf codec scope f t)"
    by (auto simp: codec_ok_def)
  then have enc: "EncodeTuplePageCursor codec scope f t = Inr raw"
    using assms(3) by (simp add: EncodeTuplePageCursor_def cursorOf_def matchesTupleFilter_eq)
  with raw assms(3) have "DecodeTuplePageCursor codec raw scope f =
      (if cursor_too_long codec scope f t then Inl ErrInvalidTuplePageCursor else Inr t)"
    by (cases t) (simp add: cursor_too_long_def DecodeTuplePageCursor_def cursorOf_def keyList_def matchesTupleFilter_eq Let_def)
  with enc raw(2) show ?thesis by blast
qed

text \<open>The length is checked on the way in only: a page can carry a cursor its own store refuses.\<close>

lemma long_cursor_refused:
  assumes "EncodeTuplePageCursor codec scope f t = Inr raw" and "maxTupleCursorLen < length raw"
  shows "DecodeTuplePageCursor codec raw scope f = Inl ErrInvalidTuplePageCursor"
  using assms(2) by (simp add: DecodeTuplePageCursor_def)

lemma Decode_matches:
  "DecodeTuplePageCursor codec c scope f = Inr t \<Longrightarrow> matchesFilter t f"
  by (auto simp: DecodeTuplePageCursor_def matchesTupleFilter_eq Let_def split: if_splits sum.splits list.splits)

section \<open>Scanning page by page\<close>

lemma readPage_cases:
  assumes "1 \<le> limit" and "limit \<le> 500"
    and "cursor = [] \<and> after = None \<or> cursor \<noteq> [] \<and> (\<exists>a. after = Some a \<and> DecodeTuplePageCursor codec cursor scope f = Inr a)"
  shows "readPageScoped codec scope keep f cursor limit s =
     (let R = remaining keep after s in
      if length R \<le> nat limit then Inr (R, [])
      else case EncodeTuplePageCursor codec scope f (R ! (nat limit - 1)) of
        Inl e \<Rightarrow> Inl e
      | Inr next \<Rightarrow> Inr (take (nat limit) R, next))"
proof -
  let ?n = "nat limit" and ?R = "remaining keep after s"
  have n: "0 < ?n" using assms(1) by simp
  have lim: "ValidateTuplePageLimit limit = None" using assms(1,2) by (simp add: ValidateTuplePageLimit_def MaxTuplePageSize_def)
  obtain a where a: "(if cursor \<noteq> [] then DecodeTuplePageCursor codec cursor scope f else Inr zeroTuple) = Inr a"
    and col: "(if cursor \<noteq> [] then Some a else None) = after"
    using assms(3) by auto
  have res: "collectPage keep a (cursor \<noteq> []) (?n + 1) (matTuples s)
      (collectPage keep a (cursor \<noteq> []) (?n + 1) (vals2 (byObjectRelation s)) []) = take (?n + 1) ?R"
    using collect_remaining [of keep a "cursor \<noteq> []" ?n s] col by simp
  have body: "readPageScoped codec scope keep f cursor limit s =
      (let result = take (?n + 1) ?R in
       if length result = 0 then Inr ([], [])
       else if length result \<le> ?n then Inr (result, [])
       else (let page = take ?n result in
             case EncodeTuplePageCursor codec scope f (page ! (length page - 1)) of
               Inl e \<Rightarrow> Inl e | Inr next \<Rightarrow> Inr (page, next)))"
    unfolding readPageScoped_def lim option.case a sum.case res Let_def by simp
  show ?thesis
  proof (cases "length ?R \<le> ?n")
    case True
    then show ?thesis by (simp add: body Let_def)
  next
    case False
    then have "take ?n (take (?n + 1) ?R) = take ?n ?R" "length (take ?n ?R) = ?n" "take ?n ?R ! (?n - 1) = ?R ! (?n - 1)"
      using n by auto
    moreover have "?R \<noteq> []" using False by auto
    ultimately show ?thesis using False n by (simp add: body Let_def)
  qed
qed

text \<open>The loop of a client that reads pages until the cursor is empty and joins them.\<close>

partial_function (option) scanPages :: "(string \<Rightarrow> (Tuple list \<times> string) res) \<Rightarrow> string \<Rightarrow> Tuple list res option" where
  "scanPages readPage cursor =
     (case readPage cursor of
        Inl e \<Rightarrow> Some (Inl e)
      | Inr p \<Rightarrow>
          if snd p = [] then Some (Inr (fst p))
          else Option.bind (scanPages readPage (snd p)) (\<lambda>r.
                 (case r of Inl e \<Rightarrow> Some (Inl e) | Inr rest \<Rightarrow> Some (Inr (fst p @ rest)))))"

declare scanPages.simps [code]

lemma sorted_remaining [simp]: "sorted (remaining keep after s)"
  by (simp add: remaining_def)

lemma set_remaining:
  "set (remaining keep after s) = {t \<in> all_tuples s. keep t \<and> (case after of None \<Rightarrow> True | Some a \<Rightarrow> a < t)}"
  by (auto simp: remaining_def set_store_list)

lemma remaining_next:
  assumes "l \<in> set (remaining keep after s)"
  shows "remaining keep (Some l) s = filter (\<lambda>t. l < t) (remaining keep after s)"
proof -
  have "a < l" if "after = Some a" for a using assms that by (simp add: set_remaining)
  then have "filter (\<lambda>t. keep t \<and> l < t) (store_list s) =
      filter (\<lambda>t. l < t) (filter (\<lambda>t. keep t \<and> (case after of None \<Rightarrow> True | Some a \<Rightarrow> a < t)) (store_list s))"
    unfolding filter_filter by (intro filter_cong refl) (auto split: option.splits)
  then show ?thesis by (simp add: remaining_def filter_sort)
qed

text \<open>A page and what follows its last key make up the rest of the scan.\<close>

lemma page_split:
  fixes R :: "Tuple list"
  assumes "sorted R" and "0 < n" and "n < length R" and "l = R ! (n - 1)"
  shows "l \<in> set R" "set (take n R) \<union> set (filter (\<lambda>t. l < t) R) = set R"
    "length (filter (\<lambda>t. l < t) R) < length R" "\<forall>t \<in> set (take n R). t \<le> l"
proof -
  show l: "l \<in> set R" using assms by simp
  have le: "t \<le> l" if "t \<in> set (take n R)" for t
  proof -
    from that obtain i where "i < n" "t = R ! i" using assms(3) by (auto simp: in_set_conv_nth)
    with assms show ?thesis by (simp add: sorted_nth_mono)
  qed
  then show "\<forall>t \<in> set (take n R). t \<le> l" by blast
  have lt: "l \<in> set (take n R)"
    using assms by (auto simp: in_set_conv_nth intro!: exI [of _ "n - 1"])
  have "t \<in> set (take n R) \<or> l < t" if "t \<in> set R" for t
  proof -
    from that obtain i where i: "i < length R" "t = R ! i" by (auto simp: in_set_conv_nth)
    show ?thesis
    proof (cases "i < n")
      case True
      with i show ?thesis by (auto simp: in_set_conv_nth)
    next
      case False
      with i assms have "l \<le> t" by (simp add: sorted_nth_mono)
      with lt show ?thesis by (cases "t = l") auto
    qed
  qed
  then show "set (take n R) \<union> set (filter (\<lambda>t. l < t) R) = set R" by (auto dest: in_set_takeD)
  show "length (filter (\<lambda>t. l < t) R) < length R" by (rule length_filter_less [OF l]) simp
qed

text \<open>
  What a scan of the tuples \<open>T\<close> returns: all of them in order, or the refusal of a cursor that was
  issued too long.
\<close>

definition scan_result :: "CursorCodec \<Rightarrow> string \<Rightarrow> TupleFilter \<Rightarrow> Tuple set \<Rightarrow> Tuple list res \<Rightarrow> bool" where
  "scan_result codec scope f T r \<longleftrightarrow>
     (case r of
        Inr ts \<Rightarrow> sorted ts \<and> set ts = T
      | Inl e \<Rightarrow> e = ErrInvalidTuplePageCursor \<and> (\<exists>t \<in> T. cursor_too_long codec scope f t))"

lemma readPage_refused:
  assumes "1 \<le> limit" and "limit \<le> 500" and "raw \<noteq> []" and "DecodeTuplePageCursor codec raw scope f = Inl e"
  shows "readPageScoped codec scope keep f raw limit s = Inl e"
  using assms by (simp add: readPageScoped_def ValidateTuplePageLimit_def MaxTuplePageSize_def)

lemma scan_remaining:
  assumes "1 \<le> limit" and "limit \<le> 500" and "codec_ok codec scope f (all_tuples s)"
    and "\<And>t. keep t \<Longrightarrow> matchesFilter t f"
    and "cursor = [] \<and> after = None \<or> cursor \<noteq> [] \<and> (\<exists>a. after = Some a \<and> DecodeTuplePageCursor codec cursor scope f = Inr a)"
  shows "\<exists>r. scanPages (\<lambda>c. readPageScoped codec scope keep f c limit s) cursor = Some r \<and>
     scan_result codec scope f (set (remaining keep after s)) r \<and>
     (distinct (remaining keep after s) \<longrightarrow> (\<forall>ts. r = Inr ts \<longrightarrow> distinct ts))"
  using assms(5)
proof (induction "length (remaining keep after s)" arbitrary: cursor after rule: less_induct)
  case less
  let ?R = "remaining keep after s" and ?n = "nat limit"
  let ?rd = "\<lambda>c. readPageScoped codec scope keep f c limit s"
  note page = readPage_cases [OF assms(1,2) less.prems, of keep s, unfolded Let_def]
  show ?case
  proof (cases "length ?R \<le> ?n")
    case True
    then have "scanPages ?rd cursor = Some (Inr ?R)" by (subst scanPages.simps) (simp add: page)
    then show ?thesis by (simp add: scan_result_def)
  next
    case False
    have n: "0 < ?n" "?n < length ?R" using assms(1) False by auto
    define l where "l = ?R ! (?n - 1)"
    note sp = page_split [OF sorted_remaining n l_def]
    have "l \<in> all_tuples s" "matchesFilter l f" using sp(1) assms(4) by (auto simp: set_remaining)
    from Decode_Encode [OF assms(3) this] obtain raw where raw: "EncodeTuplePageCursor codec scope f l = Inr raw"
      "raw \<noteq> []" "DecodeTuplePageCursor codec raw scope f =
         (if cursor_too_long codec scope f l then Inl ErrInvalidTuplePageCursor else Inr l)" by blast
    note next_eq = remaining_next [OF sp(1)]
    have go: "scanPages ?rd cursor = Some (case r of Inl e \<Rightarrow> Inl e | Inr ts \<Rightarrow> Inr (take ?n ?R @ ts))"
      if "scanPages ?rd raw = Some r" for r
      by (subst scanPages.simps) (use page False raw that in \<open>simp add: l_def split: sum.split\<close>)
    show ?thesis
    proof (cases "cursor_too_long codec scope f l")
      case True
      then have "?rd raw = Inl ErrInvalidTuplePageCursor"
        using readPage_refused [OF assms(1,2) raw(2)] raw(3) by simp
      then have "scanPages ?rd raw = Some (Inl ErrInvalidTuplePageCursor)" by (subst scanPages.simps) simp
      from go [OF this] True sp(1) show ?thesis by (auto simp: scan_result_def)
    next
      case False
      then obtain r where r: "scanPages ?rd raw = Some r" "scan_result codec scope f (set (remaining keep (Some l) s)) r"
        "distinct (remaining keep (Some l) s) \<longrightarrow> (\<forall>ts. r = Inr ts \<longrightarrow> distinct ts)"
        using less.hyps [of "Some l" raw] sp(3) raw(2,3) unfolding next_eq by auto
      show ?thesis
      proof (cases r)
        case (Inl e)
        with go [OF r(1)] r(2) show ?thesis by (auto simp: scan_result_def next_eq)
      next
        case (Inr ts)
        with r(2) have ts: "sorted ts" "set ts = set (remaining keep (Some l) s)" by (simp_all add: scan_result_def)
        have "sorted (take ?n ?R @ ts)"
          using ts sp(4) by (auto simp: sorted_append sorted_wrt_take next_eq intro: order_trans)
        moreover have "set (take ?n ?R @ ts) = set ?R" using sp(2) ts(2) by (simp add: next_eq)
        moreover have "distinct (take ?n ?R @ ts)" if "distinct ?R"
          using that ts(2) r(3) Inr sp(4) by (fastforce simp: next_eq)
        ultimately show ?thesis using go [OF r(1)] Inr by (simp add: scan_result_def)
      qed
    qed
  qed
qed

lemma scan_all:
  assumes "1 \<le> limit" and "limit \<le> 500" and "codec_ok codec scope f (all_tuples s)"
    and "\<forall>t \<in> all_tuples s. \<not> cursor_too_long codec scope f t" and "\<And>t. keep t \<Longrightarrow> matchesFilter t f"
  shows "\<exists>ts. scanPages (\<lambda>c. readPageScoped codec scope keep f c limit s) [] = Some (Inr ts) \<and>
     set ts = {t \<in> all_tuples s. keep t} \<and> (distinct (remaining keep None s) \<longrightarrow> distinct ts)"
proof -
  obtain r where r: "scanPages (\<lambda>c. readPageScoped codec scope keep f c limit s) [] = Some r"
    "scan_result codec scope f {t \<in> all_tuples s. keep t} r"
    "distinct (remaining keep None s) \<longrightarrow> (\<forall>ts. r = Inr ts \<longrightarrow> distinct ts)"
    using scan_remaining [OF assms(1-3), of keep "[]" None] assms(5) by (auto simp: set_remaining)
  then obtain ts where "r = Inr ts" using assms(4) by (cases r) (auto simp: scan_result_def)
  with r show ?thesis by (simp add: scan_result_def)
qed

text \<open>
  C18. Bounded pages lose nothing. For every page size between 1 and 500, a client that follows the
  cursors from the empty one always reaches an end. Either the pages it read, joined, are in the
  tuple order and hold exactly the tuples that match the filter, stored and materialized, or the
  store refuses, with the error for an invalid cursor, a cursor it has issued itself, which needs a
  matching tuple whose cursor is longer than the decoder accepts; the same holds of the scan that
  omits one subject. The hypotheses on the codec are its round trip for the tuples of the store.
\<close>

theorem paging_complete:
  assumes "1 \<le> limit" and "limit \<le> 500" and "codec_ok codec [] f (all_tuples s)"
    and "codec_ok codec (ExcludingSubjectCursorScope [] xt xid) f (all_tuples s)"
  shows "(\<exists>r. scanPages (\<lambda>c. ReadPage codec f c limit s) [] = Some r \<and>
            scan_result codec [] f {t \<in> all_tuples s. matchesFilter t f} r) \<and>
         (\<exists>r. scanPages (\<lambda>c. ReadPageExcludingSubject codec f xt xid c limit s) [] = Some r \<and>
            scan_result codec (ExcludingSubjectCursorScope [] xt xid) f
              {t \<in> all_tuples s. matchesFilter t f \<and> (UserType t \<noteq> xt \<or> UserID t \<noteq> xid)} r)"
  using scan_remaining [OF assms(1-3), of "\<lambda>t. matchesFilter t f" "[]" None]
    scan_remaining [OF assms(1,2,4), of "\<lambda>t. matchesFilter t f \<and> (UserType t \<noteq> xt \<or> UserID t \<noteq> xid)" "[]" None]
  by (simp add: ReadPage_def ReadPageExcludingSubject_def set_remaining) blast

text \<open>A codec for short keys without bars, as an instance of the hypothesis.\<close>

fun splitBars :: "string \<Rightarrow> string \<Rightarrow> string list" where
  "splitBars cur [] = []"
| "splitBars cur (x # xs) = (if x = CHR ''|'' then cur # splitBars [] xs else splitBars (cur @ [x]) xs)"

definition barCodec :: CursorCodec where
  "barCodec =
     \<lparr>marshalCursor = (\<lambda>c. Inr (concat (map (\<lambda>k. k @ ''|'') (cScope c # cKey c)))),
      unmarshalCursor = (\<lambda>raw. case splitBars [] raw of
         [] \<Rightarrow> Inl (ExternalError STR ''empty'') | k # ks \<Rightarrow> Inr \<lparr>cVersion = 1, cScope = k, cKey = ks\<rparr>),
      sha256Hex = (\<lambda>x. x)\<rparr>"

definition cursor_fits :: "CursorCodec \<Rightarrow> string \<Rightarrow> TupleFilter \<Rightarrow> Tuple \<Rightarrow> bool" where
  "cursor_fits codec scope f t \<longleftrightarrow>
     (case marshalCursor codec (cursorOf codec scope f t) of
        Inl _ \<Rightarrow> False
      | Inr raw \<Rightarrow> raw \<noteq> [] \<and> unmarshalCursor codec raw = Inr (cursorOf codec scope f t))"

lemma codec_ok_fits: "\<forall>t \<in> T. cursor_fits codec scope f t \<Longrightarrow> codec_ok codec scope f T"
  unfolding codec_ok_def
proof
  fix t assume "\<forall>t \<in> T. cursor_fits codec scope f t" and "t \<in> T"
  then have "cursor_fits codec scope f t" by blast
  then show "\<exists>raw. marshalCursor codec (cursorOf codec scope f t) = Inr raw \<and> raw \<noteq> [] \<and>
      unmarshalCursor codec raw = Inr (cursorOf codec scope f t)"
    by (cases "marshalCursor codec (cursorOf codec scope f t)") (simp_all add: cursor_fits_def)
qed

lemma codec_okI: "list_all (cursor_fits codec scope f) (store_list s) \<Longrightarrow> codec_ok codec scope f (all_tuples s)"
  by (rule codec_ok_fits) (simp add: list_all_iff set_store_list)

theorem paging_complete_witness:
  "(\<exists>ts. scanPages (\<lambda>c. ReadPage barCodec (filterOf ''doc'' [] []) c 1 sample_store) [] = Some (Inr ts) \<and> sorted ts \<and>
     set ts = {t \<in> all_tuples sample_store. matchesFilter t (filterOf ''doc'' [] [])})"
proof -
  have ok: "codec_ok barCodec [] (filterOf ''doc'' [] []) (all_tuples sample_store)"
    "codec_ok barCodec (ExcludingSubjectCursorScope [] ''user'' ''a'') (filterOf ''doc'' [] []) (all_tuples sample_store)"
    by (rule codec_okI, code_simp)+
  have "list_all (\<lambda>t. \<not> cursor_too_long barCodec [] (filterOf ''doc'' [] []) t) (store_list sample_store)" by code_simp
  then have "\<forall>t \<in> all_tuples sample_store. \<not> cursor_too_long barCodec [] (filterOf ''doc'' [] []) t"
    by (simp add: list_all_iff set_store_list)
  with paging_complete [OF _ _ ok, of 1] show ?thesis by (auto simp: scan_result_def split: sum.splits)
qed

section \<open>Cursors are bound to their scope and filter\<close>

lemma strings_Join_Cons: "xs \<noteq> [] \<Longrightarrow> strings_Join (x # xs) sep = x @ sep @ strings_Join xs sep"
  by (cases xs) simp_all

lemma strings_Join_append:
  "xs \<noteq> [] \<Longrightarrow> ys \<noteq> [] \<Longrightarrow> strings_Join (strings_Join xs sep # ys) sep = strings_Join (xs @ ys) sep"
proof (induction xs)
  case (Cons x xs)
  then show ?case by (cases "xs = []") (simp_all add: strings_Join_Cons)
qed simp

lemma strings_Join_inject:
  assumes "\<forall>x \<in> set xs. c \<notin> set x" and "\<forall>y \<in> set ys. c \<notin> set y" and "xs \<noteq> []" and "ys \<noteq> []"
    and "strings_Join xs [c] = strings_Join ys [c]"
  shows "xs = ys"
  using assms
proof (induction xs arbitrary: ys)
  case (Cons x xs)
  obtain y ys' where ys: "ys = y # ys'" using Cons.prems(4) by (cases ys) auto
  have free: "c \<notin> set x" "c \<notin> set y" using Cons.prems ys by auto
  show ?case
  proof (cases "xs = []")
    case True
    then have "ys' = []" using Cons.prems(5) free by (cases "ys' = []") (auto simp: ys strings_Join_Cons)
    with True Cons.prems(5) show ?thesis by (simp add: ys)
  next
    case False
    then have "ys' \<noteq> []" using Cons.prems(5) free by (cases "ys' = []") (auto simp: ys strings_Join_Cons)
    with False Cons.prems(5) free have "x = y \<and> strings_Join xs [c] = strings_Join ys' [c]"
      by (simp add: ys strings_Join_Cons sep_inject)
    with Cons.IH [of ys'] Cons.prems False \<open>ys' \<noteq> []\<close> show ?thesis by (simp add: ys)
  qed
qed simp

definition filterParts :: "TupleFilter \<Rightarrow> string list" where
  "filterParts f = [fObjectType f, fObjectID f, fRelation f, fUserType f, fUserID f, fUserRelation f]"

lemma filterParts_inject: "filterParts f = filterParts f' \<longleftrightarrow> f = f'"
  by (auto simp: filterParts_def intro: TupleFilter.equality)

lemma tuplePageScope_parts:
  "ps \<noteq> [] \<Longrightarrow> tuplePageScope codec (strings_Join ps NUL) f = sha256Hex codec (strings_Join (ps @ filterParts f) NUL)"
  using strings_Join_append [of ps "filterParts f" NUL] by (simp add: tuplePageScope_def filterParts_def)

text \<open>
  A cursor only continues the scan it was issued for. If a cursor that was issued under one scope
  and filter is accepted under another, the two scopes and the two filters are the same and the
  key it carries is the one that was issued, unless the digest collides on the two scope texts.
  The scopes are the tenant's own and, for a scan without one subject, the tenant's with that
  subject, so a cursor of one never serves the other.
\<close>

theorem cursor_binding:
  assumes "codec_ok codec (strings_Join ps NUL) f {t}" and "EncodeTuplePageCursor codec (strings_Join ps NUL) f t = Inr c"
    and "DecodeTuplePageCursor codec c (strings_Join ps' NUL) f' = Inr t'"
    and "ps \<noteq> []" and "ps' \<noteq> []" and "\<forall>p \<in> set (ps @ filterParts f @ ps' @ filterParts f'). CHR 0x00 \<notin> set p"
    and "sha256Hex codec (strings_Join (ps @ filterParts f) NUL) = sha256Hex codec (strings_Join (ps' @ filterParts f') NUL) \<Longrightarrow>
         strings_Join (ps @ filterParts f) NUL = strings_Join (ps' @ filterParts f') NUL"
  shows "ps' = ps \<and> f' = f \<and> t' = t"
proof -
  from assms(1,2) have un: "unmarshalCursor codec c = Inr (cursorOf codec (strings_Join ps NUL) f t)"
    by (auto simp: codec_ok_def EncodeTuplePageCursor_def cursorOf_def split: if_splits)
  from assms(3) have "tuplePageScope codec (strings_Join ps NUL) f = tuplePageScope codec (strings_Join ps' NUL) f'"
    by (auto simp: DecodeTuplePageCursor_def un cursorOf_def split: if_splits)
  then have "strings_Join (ps @ filterParts f) NUL = strings_Join (ps' @ filterParts f') NUL"
    using assms(7) by (simp only: tuplePageScope_parts [OF assms(4)] tuplePageScope_parts [OF assms(5)])
  then have "ps @ filterParts f = ps' @ filterParts f'"
    using assms(4-6) by (intro strings_Join_inject) auto
  moreover have "length (filterParts f) = length (filterParts f')" by (simp add: filterParts_def)
  ultimately have "ps = ps' \<and> filterParts f = filterParts f'" by (simp add: append_eq_append_conv)
  then have "ps = ps'" "f = f'" by (simp_all add: filterParts_inject)
  moreover have "t' = t" using assms(3)
    by (cases t) (auto simp: DecodeTuplePageCursor_def un cursorOf_def keyList_def Let_def split: if_splits)
  ultimately show ?thesis by blast
qed

lemma excluding_scope_parts:
  "ExcludingSubjectCursorScope tenant ut uid = strings_Join [tenant, ''exclude-subject'', ut, uid] NUL"
  by (simp add: ExcludingSubjectCursorScope_def)

theorem cursor_binding_witness:
  "\<exists>c. EncodeTuplePageCursor barCodec (strings_Join [''acme''] NUL) (filterOf ''doc'' ''1'' ''owner'')
          (tup ''doc'' ''1'' ''owner'' ''user'' ''a'' []) = Inr c \<and>
     (\<forall>t'. DecodeTuplePageCursor barCodec c (strings_Join [''other''] NUL) (filterOf ''doc'' ''1'' ''owner'') \<noteq> Inr t')"
proof -
  let ?f = "filterOf ''doc'' ''1'' ''owner''" and ?t = "tup ''doc'' ''1'' ''owner'' ''user'' ''a'' []"
  have fits: "cursor_fits barCodec (strings_Join [''acme''] NUL) ?f ?t" by code_simp
  then have ok: "codec_ok barCodec (strings_Join [''acme''] NUL) ?f {?t}"
    by (intro codec_ok_fits) simp
  from Decode_Encode [OF ok, of ?t] obtain c where c: "EncodeTuplePageCursor barCodec (strings_Join [''acme''] NUL) ?f ?t = Inr c"
    by (auto simp: matchesFilter_iff filterOf_def tup_def)
  moreover have "DecodeTuplePageCursor barCodec c (strings_Join [''other''] NUL) ?f \<noteq> Inr t'" for t'
    using cursor_binding [OF ok c, of "[''other'']" ?f t']
    by (auto simp: barCodec_def filterParts_def filterOf_def)
  ultimately show ?thesis by blast
qed

end
