(* ===== verification/Engine_Tuples.thy ===== *)
theory Engine_Tuples
  imports Engine_Models Store_Pages
begin

text \<open>
  The tuple operations of the Zanzibar engine: checks, single-tuple writes and deletes, lists and
  counts (\<open>zanzibar/zanzibar.go\<close>), the holder floor, batches and replacements
  (\<open>relationships.go\<close>), the page delegators (\<open>pagination.go\<close>) and the serving gate
  (\<open>tenant_serving.go\<close>).
\<close>

section \<open>Serving gate\<close>

definition SetTenantServingGate ::
    "(string \<Rightarrow> 'x \<Rightarrow> goerror option) option \<Rightarrow> ('s, 'm, 'x) Engine \<Rightarrow> ('s, 'm, 'x) Engine" where
  "SetTenantServingGate gate e = e\<lparr>servingGate := gate\<rparr>"

definition requireTenantServing :: "Context \<Rightarrow> ('s, 'm, 'x) Engine \<Rightarrow> goerror option" where
  "requireTenantServing ctx e =
     (case servingGate e of
        None \<Rightarrow> None
      | Some gate \<Rightarrow>
          (case gate (ctxTenant ctx) (outside e) of
             None \<Rightarrow> None
           | Some err \<Rightarrow> Some (Wrapf STR ''tenant authorization serving is unavailable: %w'' [] err)))"

section \<open>Checks and lists\<close>

definition checkerOf :: "tenantModel \<Rightarrow> ('s, 'm, 'x) Engine \<Rightarrow> 's Checker" where
  "checkerOf tm e = New (tmModel tm) (esTuples (eStore e))"

text \<open>An operation on the model of the context, behind the gate: \<open>k\<close> is its body once the model is
  resolved.\<close>

definition withModel ::
    "(string \<Rightarrow> yamlModel res) \<Rightarrow> Context \<Rightarrow> (tenantModel \<Rightarrow> ('s, 'm, 'x) Engine \<Rightarrow> 'r res option) \<Rightarrow>
     ('s, 'm, 'x) Engine \<Rightarrow> 'r res option \<times> ('s, 'm, 'x) Engine" where
  "withModel unm ctx k e =
     (case requireTenantServing ctx e of
        Some err \<Rightarrow> (Some (Inl err), e)
      | None \<Rightarrow>
          (case modelForOperation unm ctx e of
             (Inl err, e') \<Rightarrow> (Some (Inl err), e')
           | (Inr None, e') \<Rightarrow> (Some (Inl (Errorf STR ''no model loaded'' [])), e')
           | (Inr (Some tm), e') \<Rightarrow> (k tm e', e')))"

definition Check_Engine ::
    "(string \<Rightarrow> yamlModel res) \<Rightarrow> Context \<Rightarrow> string \<Rightarrow> string \<Rightarrow> string \<Rightarrow> ('s, 'm, 'x) Engine \<Rightarrow>
     bool res option \<times> ('s, 'm, 'x) Engine" where
  "Check_Engine unm ctx user relation object e =
     withModel unm ctx (\<lambda>tm e.
       (case ParseUserKey user of (userType, userID, _) \<Rightarrow>
          (case ParseObjectKey object of (objectType, objectID) \<Rightarrow>
             map_option fst
               (Check (checkerOf tm e) (ctxErr ctx) (tuplesState e) userType userID relation objectType objectID 0)))) e"

definition CheckWithContextTuples ::
    "(string \<Rightarrow> yamlModel res) \<Rightarrow> Context \<Rightarrow> string \<Rightarrow> string \<Rightarrow> string \<Rightarrow> Tuple list \<Rightarrow> ('s, 'm, 'x) Engine \<Rightarrow>
     bool res option \<times> ('s, 'm, 'x) Engine" where
  "CheckWithContextTuples unm ctx user relation object contextTuples e =
     (case requireTenantServing ctx e of
        Some err \<Rightarrow> (Some (Inl err), e)
      | None \<Rightarrow>
          if contextTuples = [] then Check_Engine unm ctx user relation object e
          else
            (case modelForOperation unm ctx e of
               (Inl err, e') \<Rightarrow> (Some (Inl err), e')
             | (Inr None, e') \<Rightarrow> (Some (Inl (Errorf STR ''no model loaded'' [])), e')
             | (Inr (Some tm), e') \<Rightarrow>
                 (case ParseUserKey user of (userType, userID, _) \<Rightarrow>
                    (case ParseObjectKey object of (objectType, objectID) \<Rightarrow>
                       (map_option fst
                          (CheckWithContext (checkerOf tm e') (ctxErr ctx) (tuplesState e') contextTuples
                             userType userID relation objectType objectID 0), e')))))"

text \<open>
  The debug message is its format with its string arguments and its number of stored tuples. The two
  answers of \<open>CheckDebug\<close> for a tenant model without checker or without model are left out: a tenant
  model always has a checker, and has no model only after \<open>SetModel\<close> of nil.
\<close>

record CheckDebugResult =
  dbgAllowed :: bool
  dbgFormat :: String.literal
  dbgArgs :: "string list"
  dbgTuples :: nat
  dbgErr :: "goerror option"

definition CheckDebug ::
    "(string \<Rightarrow> yamlModel res) \<Rightarrow> Context \<Rightarrow> string \<Rightarrow> string \<Rightarrow> string \<Rightarrow> ('s, 'm, 'x) Engine \<Rightarrow>
     CheckDebugResult option \<times> ('s, 'm, 'x) Engine" where
  "CheckDebug unm ctx user relation object e =
     (let say = (\<lambda>ok fmt args n err.
            Some \<lparr>dbgAllowed = ok, dbgFormat = fmt, dbgArgs = args, dbgTuples = n, dbgErr = err\<rparr>) in
      case requireTenantServing ctx e of
        Some err \<Rightarrow> (say False STR ''tenant serving gate denied'' [] 0 (Some err), e)
      | None \<Rightarrow>
          (case modelForOperation unm ctx e of
             (Inl err, e') \<Rightarrow> (say False STR ''authorization model refresh failed'' [] 0 (Some err), e')
           | (Inr None, e') \<Rightarrow> (say False STR ''no model loaded (defaultModel is nil)'' [] 0 None, e')
           | (Inr (Some tm), e') \<Rightarrow>
               (case ParseUserKey user of (userType, userID, _) \<Rightarrow>
                (case ParseObjectKey object of (objectType, objectID) \<Rightarrow>
                  (case map_of (Types (tmModel tm)) objectType of
                     None \<Rightarrow> (say False STR ''object type %q not in model (types: %v)''
                                (objectType # map fst (Types (tmModel tm))) 0 None, e')
                   | Some typeDef \<Rightarrow>
                       if map_of (Relations typeDef) relation = None
                       then (say False STR ''relation %q not on type %q (relations: %v)''
                               (relation # objectType # map fst (Relations typeDef)) 0 None, e')
                       else
                         (let tuples = (case tsRead (esTuples (eStore e'))
                                  \<lparr>fObjectType = objectType, fObjectID = objectID, fRelation = relation,
                                   fUserType = userType, fUserID = userID, fUserRelation = []\<rparr> (tuplesState e') of
                                Inl _ \<Rightarrow> 0 | Inr ts \<Rightarrow> length ts) in
                          case Check (checkerOf tm e') (ctxErr ctx) (tuplesState e') userType userID relation objectType objectID 0 of
                            None \<Rightarrow> (None, e')
                          | Some (Inl err, _) \<Rightarrow> (say False STR ''check error: %v (tuples in store: %d)'' [] tuples (Some err), e')
                          | Some (Inr allowed, _) \<Rightarrow>
                              (say allowed STR ''allowed=%v, tuples_in_store=%d, user=%s:%s, rel=%s, obj=%s:%s''
                                 [userType, userID, relation, objectType, objectID] tuples None, e')))))))"

definition ReadTuples :: "TupleFilter \<Rightarrow> ('s, 'm, 'x) Engine \<Rightarrow> Tuple list res" where
  "ReadTuples f e = tsRead (esTuples (eStore e)) f (tuplesState e)"

text \<open>A list with an error beside it: Go returns both.\<close>

definition ListObjects_Engine ::
    "(string \<Rightarrow> yamlModel res) \<Rightarrow> Context \<Rightarrow> string \<Rightarrow> string \<Rightarrow> string \<Rightarrow> ('s, 'm, 'x) Engine \<Rightarrow>
     (string list \<times> goerror option) res option \<times> ('s, 'm, 'x) Engine" where
  "ListObjects_Engine unm ctx user relation objectType e =
     withModel unm ctx (\<lambda>tm e.
       (case ParseUserKey user of (userType, userID, _) \<Rightarrow>
          map_option Inr (ListObjects (checkerOf tm e) (ctxErr ctx) (tuplesState e) userType userID relation objectType))) e"

definition ListUsers_Engine ::
    "(string \<Rightarrow> yamlModel res) \<Rightarrow> Context \<Rightarrow> string \<Rightarrow> string \<Rightarrow> ('s, 'm, 'x) Engine \<Rightarrow>
     string list res option \<times> ('s, 'm, 'x) Engine" where
  "ListUsers_Engine unm ctx relation object e =
     withModel unm ctx (\<lambda>tm e.
       (case ParseObjectKey object of (objectType, objectID) \<Rightarrow>
          ListUsers (checkerOf tm e) (tuplesState e) relation objectType objectID)) e"

definition CountTuples :: "('s, 'm, 'x) Engine \<Rightarrow> (string \<times> int) list res" where
  "CountTuples e =
     (case esCounter (eStore e) of
        Some counter \<Rightarrow> counter (tuplesState e)
      | None \<Rightarrow>
          (case tsRead (esTuples (eStore e)) (filterOf [] [] []) (tuplesState e) of
             Inl err \<Rightarrow> Inl err
           | Inr tuples \<Rightarrow> Inr (fold countType tuples [])))"

section \<open>Recording and notifying\<close>

definition recordTupleWrite :: "'x ChangeNotifier \<Rightarrow> string \<Rightarrow> Tuple \<Rightarrow> 'x \<Rightarrow> bool res \<times> 'x" where
  "recordTupleWrite n tid t x =
     (case RecordTupleWrite n of
        None \<Rightarrow> (Inr False, x)
      | Some rec \<Rightarrow>
          (case rec tid t x of
             (Some err, x') \<Rightarrow> (Inl (Wrapf STR ''record tuple write %s#%s@%s: %w'' [ObjectKey t, Relation t, UserKey t] err), x')
           | (None, x') \<Rightarrow> (Inr True, x')))"

definition recordTupleDelete :: "'x ChangeNotifier \<Rightarrow> string \<Rightarrow> Tuple \<Rightarrow> 'x \<Rightarrow> bool res \<times> 'x" where
  "recordTupleDelete n tid t x =
     (case RecordTupleDelete n of
        None \<Rightarrow> (Inr False, x)
      | Some rec \<Rightarrow>
          (case rec tid t x of
             (Some err, x') \<Rightarrow> (Inl (Wrapf STR ''record tuple delete %s#%s@%s: %w'' [ObjectKey t, Relation t, UserKey t] err), x')
           | (None, x') \<Rightarrow> (Inr True, x')))"

definition notifyWrite :: "Context \<Rightarrow> Tuple \<Rightarrow> ('s, 'm, 'x) Engine \<Rightarrow> ('s, 'm, 'x) Engine" where
  "notifyWrite ctx t e = e\<lparr>outside := OnTupleWrite (eNotifier e) (ctxTenant ctx) t (outside e)\<rparr>"

definition notifyDelete :: "Context \<Rightarrow> Tuple \<Rightarrow> ('s, 'm, 'x) Engine \<Rightarrow> ('s, 'm, 'x) Engine" where
  "notifyDelete ctx t e = e\<lparr>outside := OnTupleDelete (eNotifier e) (ctxTenant ctx) t (outside e)\<rparr>"

text \<open>
  The order every single-tuple mutation follows: record, apply to the store, notify when nothing was
  recorded. \<open>wrap\<close> is what the operation makes of a store error.
\<close>

definition mutate ::
    "(Tuple \<Rightarrow> 'x \<Rightarrow> bool res \<times> 'x) \<Rightarrow> ('s \<Rightarrow> goerror option \<times> 's) \<Rightarrow> (goerror \<Rightarrow> goerror) \<Rightarrow>
     (Tuple \<Rightarrow> ('s, 'm, 'x) Engine \<Rightarrow> ('s, 'm, 'x) Engine) \<Rightarrow> Tuple \<Rightarrow> ('s, 'm, 'x) Engine \<Rightarrow>
     goerror option \<times> ('s, 'm, 'x) Engine" where
  "mutate rec apply wrap notify t e =
     (case rec t (outside e) of
        (Inl err, x') \<Rightarrow> (Some err, e\<lparr>outside := x'\<rparr>)
      | (Inr recorded, x') \<Rightarrow>
          (case apply (tuplesState e) of
             (Some err, s') \<Rightarrow> (Some (wrap err), e\<lparr>outside := x', tuplesState := s'\<rparr>)
           | (None, s') \<Rightarrow>
               (let e' = e\<lparr>outside := x', tuplesState := s'\<rparr> in
                (None, if recorded then e' else notify t e'))))"

section \<open>Single tuples\<close>

definition parseTuple :: "string \<Rightarrow> string \<Rightarrow> string \<Rightarrow> Tuple" where
  "parseTuple user relation object =
     (case ParseUserKey user of (userType, userID, userRelation) \<Rightarrow>
        (case ParseObjectKey object of (objectType, objectID) \<Rightarrow>
           \<lparr>ObjectType = objectType, ObjectID = objectID, Relation = relation,
            UserType = userType, UserID = userID, UserRelation = userRelation\<rparr>))"

lemma parseTuple_Relation [simp]: "Relation (parseTuple user relation object) = relation"
  by (simp add: parseTuple_def case_prod_unfold)

definition WriteTuple ::
    "(string \<Rightarrow> yamlModel res) \<Rightarrow> Context \<Rightarrow> string \<Rightarrow> string \<Rightarrow> string \<Rightarrow> ('s, 'm, 'x) Engine \<Rightarrow>
     goerror option \<times> ('s, 'm, 'x) Engine" where
  "WriteTuple unm ctx user relation object e =
     (let t = parseTuple user relation object in
      case modelForOperation unm ctx e of
        (Inl err, e') \<Rightarrow> (Some err, e')
      | (Inr tm, e') \<Rightarrow>
          (case ValidateTuple (map_option tmModel tm) t of
             Some err \<Rightarrow> (Some err, e')
           | None \<Rightarrow>
               mutate (recordTupleWrite (eNotifier e') (ctxTenant ctx)) (tsWrite (esTuples (eStore e')) t)
                 (\<lambda>err. err) (notifyWrite ctx) t e'))"

definition minHolders :: "tenantModel option \<Rightarrow> string \<Rightarrow> string \<Rightarrow> int" where
  "minHolders tm objectType relation =
     (case tm of
        None \<Rightarrow> 0
      | Some tm \<Rightarrow>
          (case map_of (Types (tmModel tm)) objectType of
             None \<Rightarrow> 0
           | Some typeDef \<Rightarrow>
               (case map_of (Relations typeDef) relation of None \<Rightarrow> 0 | Some relDef \<Rightarrow> MinHolders relDef)))"

definition DeleteTuple ::
    "(string \<Rightarrow> yamlModel res) \<Rightarrow> Context \<Rightarrow> string \<Rightarrow> string \<Rightarrow> string \<Rightarrow> ('s, 'm, 'x) Engine \<Rightarrow>
     goerror option \<times> ('s, 'm, 'x) Engine" where
  "DeleteTuple unm ctx user relation object e =
     (let t = parseTuple user relation object in
      case modelForOperation unm ctx e of
        (Inl err, e') \<Rightarrow> (Some err, e')
      | (Inr tm, e') \<Rightarrow>
          (let minHeld = minHolders tm (ObjectType t) relation;
               rec = recordTupleDelete (eNotifier e') (ctxTenant ctx)
           in if minHeld \<ge> 1 \<and> UserRelation t = []
              then (case esConditionalDeleter (eStore e') of
                      None \<Rightarrow> (Some (Errorf STR ''delete %s#%s@%s: relation requires a minimum-holder floor but store does not implement store.ConditionalDeleter''
                                       [object, relation, user]), e')
                    | Some deleteIfAbove \<Rightarrow> mutate rec (deleteIfAbove t minHeld) (\<lambda>err. err) (notifyDelete ctx) t e')
              else mutate rec (tsDelete (esTuples (eStore e')) t) (\<lambda>err. err) (notifyDelete ctx) t e'))"

definition WriteRawTuple ::
    "Context \<Rightarrow> string \<Rightarrow> string \<Rightarrow> string \<Rightarrow> ('s, 'm, 'x) Engine \<Rightarrow> goerror option \<times> ('s, 'm, 'x) Engine" where
  "WriteRawTuple ctx user relation object e =
     (let t = parseTuple user relation object in
      mutate (recordTupleWrite (eNotifier e) (ctxTenant ctx)) (tsWrite (esTuples (eStore e)) t)
        (Wrapf STR ''write raw tuple %s#%s@%s: %w'' [object, relation, user]) (notifyWrite ctx) t e)"

definition DeleteRawTuple ::
    "Context \<Rightarrow> string \<Rightarrow> string \<Rightarrow> string \<Rightarrow> ('s, 'm, 'x) Engine \<Rightarrow> goerror option \<times> ('s, 'm, 'x) Engine" where
  "DeleteRawTuple ctx user relation object e =
     (let t = parseTuple user relation object in
      mutate (recordTupleDelete (eNotifier e) (ctxTenant ctx)) (tsDelete (esTuples (eStore e)) t)
        (Wrapf STR ''delete raw tuple %s#%s@%s: %w'' [object, relation, user]) (notifyDelete ctx) t e)"
section \<open>The holder floor\<close>

definition containsDirect :: "Tuple list \<Rightarrow> Tuple \<Rightarrow> bool" where
  "containsDirect tuples want =
     list_ex (\<lambda>t. UserRelation t = [] \<and> ObjectType t = ObjectType want \<and> ObjectID t = ObjectID want \<and>
                  Relation t = Relation want \<and> UserType t = UserType want \<and> UserID t = UserID want) tuples"

definition directHolders :: "string \<Rightarrow> string \<Rightarrow> string \<Rightarrow> ('s, 'm, 'x) Engine \<Rightarrow> int res" where
  "directHolders objectType objectID relation e =
     (case tsRead (esTuples (eStore e)) (filterOf objectType objectID relation) (tuplesState e) of
        Inl err \<Rightarrow> Inl (Wrapf STR ''read holders %s:%s#%s: %w'' [objectType, objectID, relation] err)
      | Inr tuples \<Rightarrow> Inr (int (length (filter (\<lambda>t. UserRelation t = []) tuples))))"

definition CanDelete ::
    "(string \<Rightarrow> yamlModel res) \<Rightarrow> Context \<Rightarrow> string \<Rightarrow> string \<Rightarrow> string \<Rightarrow> ('s, 'm, 'x) Engine \<Rightarrow>
     goerror option \<times> ('s, 'm, 'x) Engine" where
  "CanDelete unm ctx user relation object e =
     (let t = parseTuple user relation object in
      case modelForOperation unm ctx e of
        (Inl err, e') \<Rightarrow> (Some err, e')
      | (Inr tm, e') \<Rightarrow>
          (let minHeld = minHolders tm (ObjectType t) relation in
           if minHeld < 1 \<or> UserRelation t \<noteq> [] then (None, e')
           else
             (case tsRead (esTuples (eStore e'))
                     (userFilter (ObjectType t) (ObjectID t) relation (UserType t) (UserID t)) (tuplesState e') of
                Inl err \<Rightarrow> (Some (Wrapf STR ''read tuple %s#%s@%s: %w'' [object, relation, user] err), e')
              | Inr existing \<Rightarrow>
                  if \<not> containsDirect existing t then (None, e')
                  else
                    (case directHolders (ObjectType t) (ObjectID t) relation e' of
                       Inl err \<Rightarrow> (Some err, e')
                     | Inr held \<Rightarrow> if held \<le> minHeld then (Some ErrLastHolder, e') else (None, e')))))"

text \<open>The paged variant: both loops follow the store's cursors and may in principle not end.\<close>

partial_function (option) boundedTupleExists ::
    "(string \<Rightarrow> (Tuple list \<times> string) res) \<Rightarrow> Tuple \<Rightarrow> string \<Rightarrow> bool res option" where
  "boundedTupleExists readPage target cursor =
     (case readPage cursor of
        Inl err \<Rightarrow> Some (Inl err)
      | Inr p \<Rightarrow>
          if containsDirect (fst p) target then Some (Inr True)
          else if snd p = [] then Some (Inr False)
          else boundedTupleExists readPage target (snd p))"

text \<open>The counting loop: \<open>None\<close> inside is the early return once more than \<open>minimum\<close> holders are seen.\<close>

fun countDirect :: "int \<Rightarrow> Tuple list \<Rightarrow> int \<Rightarrow> int option" where
  "countDirect minimum [] direct = Some direct"
| "countDirect minimum (t # ts) direct =
     (if UserRelation t = []
      then (if direct + 1 > minimum then None else countDirect minimum ts (direct + 1))
      else countDirect minimum ts direct)"

partial_function (option) boundedCount ::
    "(string \<Rightarrow> (Tuple list \<times> string) res) \<Rightarrow> int \<Rightarrow> (goerror \<Rightarrow> goerror) \<Rightarrow> int \<Rightarrow> string \<Rightarrow> goerror option option" where
  "boundedCount readPage minimum wrap direct cursor =
     (case readPage cursor of
        Inl err \<Rightarrow> Some (Some (wrap err))
      | Inr p \<Rightarrow>
          (case countDirect minimum (fst p) direct of
             None \<Rightarrow> Some None
           | Some direct' \<Rightarrow>
               if snd p = [] then Some (Some ErrLastHolder)
               else boundedCount readPage minimum wrap direct' (snd p)))"

definition CanDeleteBounded ::
    "(string \<Rightarrow> yamlModel res) \<Rightarrow> Context \<Rightarrow> string \<Rightarrow> string \<Rightarrow> string \<Rightarrow> ('s, 'm, 'x) Engine \<Rightarrow>
     goerror option option \<times> ('s, 'm, 'x) Engine" where
  "CanDeleteBounded unm ctx user relation object e =
     (let t = parseTuple user relation object in
      case modelForOperation unm ctx e of
        (Inl err, e') \<Rightarrow> (Some (Some err), e')
      | (Inr tm, e') \<Rightarrow>
          (let minimum = minHolders tm (ObjectType t) relation in
           if minimum < 1 \<or> UserRelation t \<noteq> [] then (Some None, e')
           else
             (case esReadPage (eStore e') of
                None \<Rightarrow> (Some (Some ErrTuplePageUnsupported), e')
              | Some readPage \<Rightarrow>
                  (case boundedTupleExists
                          (\<lambda>c. readPage (userFilter (ObjectType t) (ObjectID t) relation (UserType t) (UserID t)) c
                                 MaxTuplePageSize (tuplesState e')) t [] of
                     None \<Rightarrow> (None, e')
                   | Some (Inl err) \<Rightarrow> (Some (Some (Wrapf STR ''read tuple %s#%s@%s: %w'' [object, relation, user] err)), e')
                   | Some (Inr found) \<Rightarrow>
                       if \<not> found then (Some None, e')
                       else
                         (boundedCount
                            (\<lambda>c. readPage (filterOf (ObjectType t) (ObjectID t) relation) c MaxTuplePageSize (tuplesState e'))
                            minimum (Wrapf STR ''count direct holders for %s#%s: %w'' [object, relation]) 0 [], e')))))"

section \<open>Batches and replacements\<close>

text \<open>The loop that records each tuple and remembers whether any was recorded.\<close>

fun recordLoop :: "(Tuple \<Rightarrow> 'x \<Rightarrow> bool res \<times> 'x) \<Rightarrow> Tuple list \<Rightarrow> bool \<times> 'x \<Rightarrow> goerror option \<times> bool \<times> 'x" where
  "recordLoop rec [] st = (None, st)"
| "recordLoop rec (t # ts) st =
     (case rec t (snd st) of
        (Inl err, x') \<Rightarrow> (Some err, fst st, x')
      | (Inr used, x') \<Rightarrow> recordLoop rec ts (fst st \<or> used, x'))"

definition recordAll ::
    "'x ChangeNotifier \<Rightarrow> string \<Rightarrow> Tuple list \<Rightarrow> Tuple list \<Rightarrow> bool \<times> 'x \<Rightarrow> goerror option \<times> bool \<times> 'x" where
  "recordAll n tid writes deletes st =
     (case recordLoop (recordTupleWrite n tid) writes st of
        (Some err, st') \<Rightarrow> (Some err, st')
      | (None, st') \<Rightarrow> recordLoop (recordTupleDelete n tid) deletes st')"

definition notifyAll :: "Context \<Rightarrow> Tuple list \<Rightarrow> Tuple list \<Rightarrow> ('s, 'm, 'x) Engine \<Rightarrow> ('s, 'm, 'x) Engine" where
  "notifyAll ctx writes deletes e = fold (notifyDelete ctx) deletes (fold (notifyWrite ctx) writes e)"

definition WriteRelationships ::
    "(string \<Rightarrow> yamlModel res) \<Rightarrow> Context \<Rightarrow> Tuple list \<Rightarrow> Tuple list \<Rightarrow> ('s, 'm, 'x) Engine \<Rightarrow>
     goerror option \<times> ('s, 'm, 'x) Engine" where
  "WriteRelationships unm ctx writes deletes e =
     (if writes = [] \<and> deletes = [] then (None, e)
      else case esTx (eStore e) of
        None \<Rightarrow> (Some ErrNotTransactional, e)
      | Some writeTx \<Rightarrow>
          (case modelForOperation unm ctx e of
             (Inl err, e') \<Rightarrow> (Some err, e')
           | (Inr tm, e') \<Rightarrow>
               (case first_err (\<lambda>t. map_option (Wrapf STR ''validate write %s#%s@%s: %w'' [ObjectKey t, Relation t, UserKey t])
                                      (ValidateTuple (map_option tmModel tm) t)) writes of
                  Some err \<Rightarrow> (Some err, e')
                | None \<Rightarrow>
                    (case recordAll (eNotifier e') (ctxTenant ctx) writes deletes (False, outside e') of
                       (Some err, _, x') \<Rightarrow> (Some err, e'\<lparr>outside := x'\<rparr>)
                     | (None, recorded, x') \<Rightarrow>
                         (case writeTx writes deletes (tuplesState e') of
                            (Some err, s') \<Rightarrow> (Some (Wrapf STR ''write tx: %w'' [] err), e'\<lparr>outside := x', tuplesState := s'\<rparr>)
                          | (None, s') \<Rightarrow>
                              (let e'' = e'\<lparr>outside := x', tuplesState := s'\<rparr> in
                               (None, if recorded then e'' else notifyAll ctx writes deletes e'')))))))"

definition tupleMatchesFilter :: "Tuple \<Rightarrow> TupleFilter \<Rightarrow> bool" where
  "tupleMatchesFilter t f \<longleftrightarrow>
     (fObjectType f = [] \<or> ObjectType t = fObjectType f) \<and>
     (fObjectID f = [] \<or> ObjectID t = fObjectID f) \<and>
     (fRelation f = [] \<or> Relation t = fRelation f) \<and>
     (fUserType f = [] \<or> UserType t = fUserType f) \<and>
     (fUserID f = [] \<or> UserID t = fUserID f) \<and>
     (fUserRelation f = [] \<or> UserRelation t = fUserRelation f)"

definition checkReplacement :: "tenantModel option \<Rightarrow> TupleFilter \<Rightarrow> Tuple \<Rightarrow> goerror option" where
  "checkReplacement tm f t =
     (if \<not> tupleMatchesFilter t f
      then Some (Errorf STR ''replacement tuple %s#%s@%s does not match filter'' [ObjectKey t, Relation t, UserKey t])
      else map_option (Wrapf STR ''validate replacement %s#%s@%s: %w'' [ObjectKey t, Relation t, UserKey t])
             (ValidateTuple (map_option tmModel tm) t))"

definition ReplaceRelationships ::
    "(string \<Rightarrow> yamlModel res) \<Rightarrow> Context \<Rightarrow> TupleFilter \<Rightarrow> Tuple list \<Rightarrow> ('s, 'm, 'x) Engine \<Rightarrow>
     goerror option \<times> ('s, 'm, 'x) Engine" where
  "ReplaceRelationships unm ctx f replacements e =
     (if fObjectType f = [] \<or> fObjectID f = [] \<or> fRelation f = []
      then (Some (Errorf STR ''replace relationships requires object_type, object_id, and relation'' []), e)
      else case modelForOperation unm ctx e of
        (Inl err, e') \<Rightarrow> (Some err, e')
      | (Inr tm, e') \<Rightarrow>
          (case first_err (checkReplacement tm f) replacements of
             Some err \<Rightarrow> (Some err, e')
           | None \<Rightarrow>
               (case esReplace (eStore e') of
                  None \<Rightarrow> (Some ErrNotReplaceable, e')
                | Some replaceTx \<Rightarrow>
                    (case replaceTx f replacements
                            (Some (recordAll (eNotifier e') (ctxTenant ctx))) (tuplesState e') (False, outside e') of
                       (Inl err, s', _, x') \<Rightarrow>
                         (Some (Wrapf STR ''replace relationships: %w'' [] err), e'\<lparr>outside := x', tuplesState := s'\<rparr>)
                     | (Inr (writes, deletes), s', recorded, x') \<Rightarrow>
                         (let e'' = e'\<lparr>outside := x', tuplesState := s'\<rparr> in
                          (None, if recorded then e'' else notifyAll ctx writes deletes e''))))))"

section \<open>Pages\<close>

definition ReadTuplePage :: "TupleFilter \<Rightarrow> string \<Rightarrow> int \<Rightarrow> ('s, 'm, 'x) Engine \<Rightarrow> (Tuple list \<times> string) res" where
  "ReadTuplePage f cursor limit e =
     (case esReadPage (eStore e) of
        None \<Rightarrow> Inl ErrTuplePageUnsupported
      | Some readPage \<Rightarrow> readPage f cursor limit (tuplesState e))"

definition TupleCursorAfter :: "TupleFilter \<Rightarrow> Tuple \<Rightarrow> ('s, 'm, 'x) Engine \<Rightarrow> string res" where
  "TupleCursorAfter f t e =
     (case esCursorAfter (eStore e) of
        None \<Rightarrow> Inl ErrTuplePageUnsupported
      | Some cursorAfter \<Rightarrow> cursorAfter f t (tuplesState e))"

definition ReadTuplePageExcludingSubject ::
    "TupleFilter \<Rightarrow> string \<Rightarrow> string \<Rightarrow> string \<Rightarrow> int \<Rightarrow> ('s, 'm, 'x) Engine \<Rightarrow> (Tuple list \<times> string) res" where
  "ReadTuplePageExcludingSubject f xt xid cursor limit e =
     (case esReadPageExcluding (eStore e) of
        None \<Rightarrow> Inl ErrTuplePageUnsupported
      | Some readPage \<Rightarrow> readPage f xt xid cursor limit (tuplesState e))"

definition TupleCursorAfterExcludingSubject ::
    "TupleFilter \<Rightarrow> string \<Rightarrow> string \<Rightarrow> Tuple \<Rightarrow> ('s, 'm, 'x) Engine \<Rightarrow> string res" where
  "TupleCursorAfterExcludingSubject f xt xid t e =
     (case esCursorAfterExcluding (eStore e) of
        None \<Rightarrow> Inl ErrTuplePageUnsupported
      | Some cursorAfter \<Rightarrow> cursorAfter f xt xid t (tuplesState e))"

text \<open>The memory store with every optional capability it implements.\<close>

definition memoryEngineStore :: "CursorCodec \<Rightarrow> (MemoryStore, 'x) EngineStore" where
  "memoryEngineStore codec =
     \<lparr>esTuples = memoryTupleStore, esConditionalDeleter = Some DeleteIfAbove, esTx = Some WriteTx,
      esReplace = Some ReplaceTx, esReadPage = Some (ReadPage codec), esCursorAfter = Some (CursorAfter codec),
      esReadPageExcluding = Some (ReadPageExcludingSubject codec),
      esCursorAfterExcluding = Some (CursorAfterExcludingSubject codec), esCounter = Some CountByObjectType\<rparr>"

declare boundedTupleExists.simps [code] boundedCount.simps [code]
section \<open>What the operations leave alone\<close>

lemma Refresh_frame:
  assumes "RefreshModelForTenant unm ctx tid e = (r, e')"
  shows "\<exists>c. e' = e\<lparr>cache := c\<rparr>"
proof -
  have "\<exists>c. snd (ActivateModelForTenant unm tid d rv e) = e\<lparr>cache := c\<rparr>" for d rv
    by (cases rule: Activate_cases [of unm tid d rv e]) (auto intro: exI [of _ "cache e"])
  then have act: "ActivateModelForTenant unm tid d rv e = (eo, e1) \<Longrightarrow> \<exists>c. e1 = e\<lparr>cache := c\<rparr>" for d rv eo e1
    by (metis snd_conv)
  show ?thesis using assms
    by (auto simp: RefreshModelForTenant_def split: if_splits option.splits sum.splits prod.splits
        dest: act intro: exI [of _ "cache e"])
qed

lemma modelForOperation_frame:
  assumes "modelForOperation unm ctx e = (r, e')"
  shows "\<exists>c. e' = e\<lparr>cache := c\<rparr>"
  using assms
  by (auto simp: modelForOperation_def split: if_splits sum.splits prod.splits dest: Refresh_frame
      intro: exI [of _ "cache e"])

lemma modelForOperation_keeps:
  assumes "modelForOperation unm ctx e = (r, e')"
  shows "tuplesState e' = tuplesState e" "outside e' = outside e" "eStore e' = eStore e"
    "eNotifier e' = eNotifier e" "servingGate e' = servingGate e" "eModelStore e' = eModelStore e"
    "modelsState e' = modelsState e" "defaultModel e' = defaultModel e"
  using modelForOperation_frame [OF assms] by auto

text \<open>Resolving again, after anything that keeps the models, gives the same model.\<close>

lemma modelForOperation_again:
  assumes "modelForOperation unm ctx e = (Inr tm, e1)" and "cache e2 = cache e1" and "defaultModel e2 = defaultModel e1"
    and "eModelStore e2 = eModelStore e1" and "modelsState e2 = modelsState e1"
  shows "modelForOperation unm ctx e2 = (Inr tm, e2)"
proof (cases "ctxTenant ctx \<noteq> [] \<and> eModelStore e \<noteq> None")
  case False
  with assms(1) have "tm = resolveModel ctx [] e" "e1 = e" by (auto simp: modelForOperation_def)
  moreover from this assms(2,3) have "resolveModel ctx [] e2 = resolveModel ctx [] e" by (simp add: resolveModel_def Let_def split: option.split)
  moreover have "\<not> (ctxTenant ctx \<noteq> [] \<and> eModelStore e2 \<noteq> None)" using False calculation(2) assms(4) by simp
  ultimately show ?thesis by (auto simp: modelForOperation_def)
next
  case True
  then obtain ms where ms: "eModelStore e = Some ms" and tid: "ctxTenant ctx \<noteq> []" by auto
  note keeps = modelForOperation_keeps [OF assms(1)]
  have ms2: "eModelStore e2 = Some ms" "modelsState e2 = modelsState e" using assms keeps ms by auto
  have res: "resolveModel ctx [] e2 = resolveModel ctx [] e1" using assms by (simp add: resolveModel_def Let_def split: option.split)
  from assms(1) ms tid obtain snap where rf: "RefreshModelForTenant unm ctx (ctxTenant ctx) e = (Inr snap, e1)"
    and tm: "tm = resolveModel ctx [] e1"
    by (auto simp: modelForOperation_def split: sum.splits prod.splits)
  from rf ms tid obtain sm where sm: "msGet ms (ctxTenant ctx) (modelsState e) = Inr sm"
    by (auto simp: RefreshModelForTenant_def split: sum.splits)
  show ?thesis
  proof (cases "smYAML sm = [] \<and> smRevision sm = 0")
    case True
    with ms2 tid sm tm res show ?thesis by (simp add: modelForOperation_def RefreshModelForTenant_def)
  next
    case False
    with rf ms tid sm have a: "ActivateModelForTenant unm (ctxTenant ctx) (smYAML sm) (smRevision sm) e = (None, e1)"
      and nz: "\<not> (smYAML sm = [] \<or> smRevision sm \<le> 0)"
      by (auto simp: RefreshModelForTenant_def split: if_splits option.splits prod.splits)
    have "\<exists>cur m. map_of (cache e1) (ctxTenant ctx) = Some cur \<and> smRevision sm \<le> tmRevision cur \<and> Compile unm (smYAML sm) = Inr m"
      by (cases rule: Activate_cases [of unm "ctxTenant ctx" "smYAML sm" "smRevision sm" e]) (use a in \<open>auto simp: map_of_update\<close>)
    then have "ActivateModelForTenant unm (ctxTenant ctx) (smYAML sm) (smRevision sm) e2 = (None, e2)"
      using assms(2) tid nz by (auto simp: ActivateModelForTenant_def Let_def)
    with ms2 tid sm nz tm res show ?thesis by (simp add: modelForOperation_def RefreshModelForTenant_def)
  qed
qed

section \<open>The gate fails closed\<close>

text \<open>
  C24. A denied tenant gets no decision. Whenever the serving gate refuses the tenant of the context,
  every decision and every listing of the engine returns the gate's error and no answer, before
  any model or tuple is read, and the engine is unchanged.
\<close>

theorem gate_fails_closed:
  assumes "servingGate e = Some gate" and "gate (ctxTenant ctx) (outside e) = Some err"
  shows "\<exists>err'. errors_Is err' err \<and>
     Check_Engine unm ctx user relation object e = (Some (Inl err'), e) \<and>
     CheckWithContextTuples unm ctx user relation object ctxTuples e = (Some (Inl err'), e) \<and>
     ListObjects_Engine unm ctx user relation objectType e = (Some (Inl err'), e) \<and>
     ListUsers_Engine unm ctx relation object e = (Some (Inl err'), e) \<and>
     (\<exists>r. CheckDebug unm ctx user relation object e = (Some r, e) \<and> \<not> dbgAllowed r \<and> dbgErr r = Some err')"
  using assms
  by (simp add: requireTenantServing_def Check_Engine_def CheckWithContextTuples_def ListObjects_Engine_def
      ListUsers_Engine_def CheckDebug_def withModel_def Let_def)

theorem gate_fails_closed_witness:
  "\<exists>err'. errors_Is err' ErrTenantServingRestricted \<and>
     fst (Check_Engine sampleDecoder acme ''user:ann'' ''viewer'' ''doc:1''
       (SetTenantServingGate (Some (\<lambda>_ _. Some ErrTenantServingRestricted)) sampleEngine)) = Some (Inl err')"
proof -
  let ?e = "SetTenantServingGate (Some (\<lambda>_ _. Some ErrTenantServingRestricted)) sampleEngine"
  have "servingGate ?e = Some (\<lambda>_ _. Some ErrTenantServingRestricted)" by (simp add: SetTenantServingGate_def)
  from gate_fails_closed [OF this, where ctx = acme and err = ErrTenantServingRestricted and unm = sampleDecoder
      and user = "''user:ann''" and relation = "''viewer''" and object = "''doc:1''"]
  show ?thesis by (metis fst_conv)
qed

section \<open>Checks through the engine\<close>

lemma Check_Engine_grants:
  assumes "requireTenantServing ctx e = None" and "modelForOperation unm ctx e = (Inr (Some tm), e')"
    and "esTuples (eStore e) = memoryTupleStore" and "mem_admissible (tuplesState e)"
    and "ParseUserKey user = (ut, uid, ur)" and "ParseObjectKey object = (ot, oid)" and "clean ot oid"
    and "\<forall>k. ctxErr ctx k = None"
  shows "Check_Engine unm ctx user relation object e =
     (Some (Inr (grants (tmModel tm) (all_tuples (tuplesState e)) ut uid (ot, oid, relation))), e')"
proof -
  note keeps = modelForOperation_keeps [OF assms(2)]
  have c: "checkerOf tm e' = memChecker (tmModel tm)"
    using assms(3) keeps by (simp add: checkerOf_def memChecker_def)
  obtain p where "Check (memChecker (tmModel tm)) (ctxErr ctx) (tuplesState e) ut uid relation ot oid 0 =
      Some (Inr (grants (tmModel tm) (all_tuples (tuplesState e)) ut uid (ot, oid, relation)), p)"
    using mem.Check_iff [OF assms(4), of "memChecker (tmModel tm)" ot oid "ctxErr ctx" ut uid relation 0] assms(7,8) by auto
  then show ?thesis using assms(1,2,5,6) keeps c by (simp add: Check_Engine_def withModel_def)
qed
section \<open>Writes\<close>

text \<open>What the outside world sees of one mutation: the recorder when there is one, else one
  notification after the store accepted it.\<close>

definition seenWrite :: "'x ChangeNotifier \<Rightarrow> string \<Rightarrow> Tuple \<Rightarrow> 'x \<Rightarrow> 'x" where
  "seenWrite n tid t x =
     (case RecordTupleWrite n of None \<Rightarrow> OnTupleWrite n tid t x | Some rec \<Rightarrow> snd (rec tid t x))"

lemma mutate_memory_write:
  assumes "mutate (recordTupleWrite n tid) (tsWrite memoryTupleStore t) wrap (notifyWrite ctx) t e = (eo, e')"
    and "eNotifier e = n" and "ctxTenant ctx = tid"
  shows "(eo \<noteq> None \<longrightarrow> tuplesState e' = tuplesState e) \<and>
     (eo = None \<longrightarrow> tuplesState e' = writeLocked t (tuplesState e) \<and>
        outside e' = seenWrite n tid t (outside e)) \<and>
     cache e' = cache e \<and> defaultModel e' = defaultModel e \<and> eModelStore e' = eModelStore e \<and>
     modelsState e' = modelsState e \<and> eStore e' = eStore e \<and> servingGate e' = servingGate e"
  using assms
  by (cases "RecordTupleWrite n")
    (auto simp: seenWrite_def mutate_def recordTupleWrite_def memoryTupleStore_def Write_def notifyWrite_def Let_def
      split: option.splits prod.splits sum.splits if_splits)

text \<open>
  C23. A write is validated first and applied whole. On an engine over the memory store, a write that
  returns an error leaves the tuples untouched, and when the model could not be resolved or
  rejects the tuple, nothing was recorded or notified either; a write that succeeds was accepted
  by the model in force, adds exactly that tuple, and is seen outside exactly once: by the
  recorder before the write when the notifier has one, by one notification after it otherwise.
\<close>

theorem WriteTuple_validated:
  assumes "esTuples (eStore e) = memoryTupleStore" and "mem_inv (tuplesState e)"
    and "t = parseTuple user relation object" and "wf_tuple t"
    and "WriteTuple unm ctx user relation object e = (eo, e')"
  shows "(eo \<noteq> None \<longrightarrow> tuplesState e' = tuplesState e) \<and>
     (\<forall>tm e1 err. modelForOperation unm ctx e = (Inr tm, e1) \<and> ValidateTuple (map_option tmModel tm) t = Some err \<longrightarrow>
        eo = Some err \<and> outside e' = outside e) \<and>
     (\<forall>err e1. modelForOperation unm ctx e = (Inl err, e1) \<longrightarrow> eo = Some err \<and> outside e' = outside e) \<and>
     (eo = None \<longrightarrow>
        (\<exists>tm e1. modelForOperation unm ctx e = (Inr tm, e1) \<and> ValidateTuple (map_option tmModel tm) t = None) \<and>
        stored (tuplesState e') = insert t (stored (tuplesState e)) \<and>
        materialized (tuplesState e') = materialized (tuplesState e) \<and>
        outside e' = seenWrite (eNotifier e) (ctxTenant ctx) t (outside e))"
proof (cases "modelForOperation unm ctx e")
  case (Pair r e1)
  note keeps = modelForOperation_keeps [OF Pair]
  show ?thesis
  proof (cases r)
    case (Inl err)
    with assms(5) Pair keeps show ?thesis by (auto simp: WriteTuple_def Let_def)
  next
    case (Inr tm)
    show ?thesis
    proof (cases "ValidateTuple (map_option tmModel tm) t")
      case None
      have m: "mutate (recordTupleWrite (eNotifier e) (ctxTenant ctx)) (tsWrite memoryTupleStore t) (\<lambda>err. err)
          (notifyWrite ctx) t e1 = (eo, e')"
        using assms(1,3,5) Pair Inr None keeps by (auto simp: WriteTuple_def Let_def)
      from mutate_memory_write [OF m keeps(4) refl] keeps assms(2,4) Pair Inr None show ?thesis
        by (auto simp: stored_writeLocked)
    next
      case (Some err)
      with assms(3,5) Pair Inr keeps show ?thesis by (auto simp: WriteTuple_def Let_def)
    qed
  qed
qed

text \<open>The sample engine over the full memory store, with the sample model in force.\<close>

definition readyEngine :: "(MemoryStore, (string \<times> StoredModel) list, nat) Engine" where
  "readyEngine = sampleEngine\<lparr>eStore := memoryEngineStore barCodec,
     defaultModel := Some \<lparr>tmModel = sample_model, tmSource = [], tmRevision = 0\<rparr>\<rparr>"

lemma readyEngine_sel [simp]:
  "tuplesState readyEngine = eng_store" "eStore readyEngine = memoryEngineStore barCodec" "servingGate readyEngine = None"
  by (simp_all add: readyEngine_def sampleEngine_def NewEngine_def)

lemma memoryEngineStore_sel [simp]:
  "esTuples (memoryEngineStore codec) = memoryTupleStore"
  "esConditionalDeleter (memoryEngineStore codec) = Some DeleteIfAbove"
  "esTx (memoryEngineStore codec) = Some WriteTx" "esReplace (memoryEngineStore codec) = Some ReplaceTx"
  "esReadPage (memoryEngineStore codec) = Some (ReadPage codec)"
  by (simp_all add: memoryEngineStore_def)

lemma readyEngine_model:
  "modelForOperation sampleDecoder acme readyEngine = (Inr (Some \<lparr>tmModel = sample_model, tmSource = [], tmRevision = 0\<rparr>), readyEngine)"
  by (simp add: modelForOperation_def RefreshModelForTenant_def readyEngine_def sampleEngine_def NewEngine_def
      acme_def mapModelStore_def resolveModel_def)

lemma readyEngine_write:
  "\<exists>e'. WriteTuple sampleDecoder acme ''user:dan'' ''owner'' ''doc:2'' readyEngine = (None, e')"
proof -
  have "ValidateTuple (Some sample_model) (parseTuple ''user:dan'' ''owner'' ''doc:2'') = None" by code_simp
  moreover have "RecordTupleWrite (eNotifier readyEngine) = None"
    by (simp add: readyEngine_def sampleEngine_def NewEngine_def NoopNotifier_def)
  ultimately show ?thesis
    by (simp add: WriteTuple_def readyEngine_model mutate_def recordTupleWrite_def memoryTupleStore_def Write_def Let_def)
qed

lemma dan_tuple:
  "parseTuple ''user:dan'' ''owner'' ''doc:2'' = tup ''doc'' ''2'' ''owner'' ''user'' ''dan'' []"
  "wf_tuple (tup ''doc'' ''2'' ''owner'' ''user'' ''dan'' [])"
  by code_simp+

theorem WriteTuple_validated_witness:
  "\<exists>e'. WriteTuple sampleDecoder acme ''user:dan'' ''owner'' ''doc:2'' readyEngine = (None, e') \<and>
     stored (tuplesState e') = insert (tup ''doc'' ''2'' ''owner'' ''user'' ''dan'' []) (stored eng_store)"
proof -
  obtain e' where w: "WriteTuple sampleDecoder acme ''user:dan'' ''owner'' ''doc:2'' readyEngine = (None, e')"
    using readyEngine_write by blast
  from WriteTuple_validated [OF _ _ dan_tuple(1) [symmetric] dan_tuple(2) w] w eng_store_spec
  show ?thesis by (auto simp: mem_admissible_def)
qed

lemma direct_rule_in:
  assumes "wf_model m" and "rules m ot r \<noteq> {}"
  shows "directRule \<in> rules m ot r"
proof -
  from assms(2) obtain td rd where td: "map_of (Types m) ot = Some td" "map_of (Relations td) r = Some rd" "Rewrites rd \<noteq> []"
    by (auto simp: rules_def split: option.splits)
  with wf_modelD [OF assms(1)] have "hd (Rewrites rd) = directRule" by (simp add: wf_relation_def)
  with td hd_in_set [of "Rewrites rd"] show ?thesis by (simp add: rules_def)
qed


section \<open>Deletes\<close>

definition seenDelete :: "'x ChangeNotifier \<Rightarrow> string \<Rightarrow> Tuple \<Rightarrow> 'x \<Rightarrow> 'x" where
  "seenDelete n tid t x =
     (case RecordTupleDelete n of None \<Rightarrow> OnTupleDelete n tid t x | Some rec \<Rightarrow> snd (rec tid t x))"

lemma mutate_delete:
  assumes "mutate (recordTupleDelete n tid) del wrap (notifyDelete ctx) t e = (eo, e')"
    and "eNotifier e = n" and "ctxTenant ctx = tid"
  shows "(tuplesState e' = tuplesState e \<or> tuplesState e' = snd (del (tuplesState e))) \<and>
     (eo = None \<longrightarrow> fst (del (tuplesState e)) = None \<and> tuplesState e' = snd (del (tuplesState e)) \<and>
        outside e' = seenDelete n tid t (outside e)) \<and>
     (RecordTupleDelete n = None \<longrightarrow> eo = map_option wrap (fst (del (tuplesState e)))) \<and>
     cache e' = cache e \<and> defaultModel e' = defaultModel e \<and> eModelStore e' = eModelStore e \<and>
     modelsState e' = modelsState e \<and> eStore e' = eStore e \<and> servingGate e' = servingGate e \<and> eNotifier e' = eNotifier e"
  using assms
  by (cases "RecordTupleDelete n"; cases "del (tuplesState e)")
    (auto simp: seenDelete_def mutate_def recordTupleDelete_def notifyDelete_def Let_def
      split: option.splits prod.splits sum.splits if_splits)

text \<open>The store operation a delete through the engine comes down to.\<close>

definition engineDelete :: "tenantModel option \<Rightarrow> Tuple \<Rightarrow> MemoryStore \<Rightarrow> goerror option \<times> MemoryStore" where
  "engineDelete tm t =
     (if minHolders tm (ObjectType t) (Relation t) \<ge> 1 \<and> UserRelation t = []
      then DeleteIfAbove t (minHolders tm (ObjectType t) (Relation t)) else Delete t)"

lemma DeleteTuple_memory:
  assumes "eStore e = memoryEngineStore codec" and "modelForOperation unm ctx e = (Inr tm, e1)"
    and "t = parseTuple user relation object"
  shows "DeleteTuple unm ctx user relation object e =
     mutate (recordTupleDelete (eNotifier e) (ctxTenant ctx)) (engineDelete tm t) (\<lambda>err. err) (notifyDelete ctx) t e1"
proof -
  note keeps = modelForOperation_keeps [OF assms(2)]
  have "Relation t = relation" by (simp add: assms(3) parseTuple_def case_prod_unfold)
  then show ?thesis
    using assms keeps by (auto simp: DeleteTuple_def engineDelete_def Let_def memoryTupleStore_def)
qed

lemma engineDelete_floor:
  assumes "mem_inv s" and "wf_tuple t" and "minHolders tm ot r \<ge> 1"
  shows "mem_inv (snd (engineDelete tm t s)) \<and>
     min (minHolders tm ot r) (int (card (holders ot oid r s))) \<le> int (card (holders ot oid r (snd (engineDelete tm t s))))"
proof (cases "ObjectType t = ot \<and> Relation t = r \<and> UserRelation t = []")
  case True
  with DeleteIfAbove_floor [OF assms(1,2), of "minHolders tm ot r" ot oid r] assms(3) show ?thesis
    by (simp add: engineDelete_def)
next
  case False
  then have "t \<notin> holders ot oid r s" by (auto simp: holders_def)
  moreover have "snd (engineDelete tm t s) \<in> {s, deleteLocked t s}"
    using DeleteIfAbove_spec [OF assms(1,2)] by (auto simp: engineDelete_def Delete_def)
  ultimately show ?thesis
    using assms by (auto simp: holders_delete mem_inv_deleteLocked)
qed

text \<open>
  C12. \<open>DeleteTuple\<close> never strands a required relation. On an engine over the memory store, with or
  without a model store, where the model in force for the context puts the floor \<open>n\<close> on a relation,
  whatever sequence of \<open>DeleteTuple\<close> calls runs under that model, on whatever users and objects whose
  key parts are free of the separators behind them, with or without a recorder that may fail, every
  object keeps at least \<open>n\<close> direct holders of that relation if it had them, and loses none if it had
  fewer. The other ways to delete have no floor: \<open>unguarded_deletes\<close>.
\<close>

theorem engine_deletes_keep_floor:
  assumes "eStore e = memoryEngineStore codec" and "mem_inv (tuplesState e)"
    and "modelForOperation unm ctx e = (Inr tm, e1)" and "minHolders tm ot r \<ge> 1"
    and "list_all (\<lambda>(user, relation, object). wf_tuple (parseTuple user relation object)) reqs"
  shows "min (minHolders tm ot r) (int (card (holders ot oid r (tuplesState e)))) \<le>
     int (card (holders ot oid r (tuplesState (snd
       (run_ops (\<lambda>(user, relation, object). DeleteTuple unm ctx user relation object) reqs e)))))"
  using assms(1-3,5)
proof (induction reqs arbitrary: e e1)
  case (Cons req reqs)
  obtain user relation object where req: "req = (user, relation, object)" by (cases req)
  let ?t = "parseTuple user relation object"
  note keeps = modelForOperation_keeps [OF Cons.prems(3)]
  obtain eo e' where d: "DeleteTuple unm ctx user relation object e = (eo, e')" by fastforce
  then have m: "mutate (recordTupleDelete (eNotifier e) (ctxTenant ctx)) (engineDelete tm ?t) (\<lambda>err. err)
      (notifyDelete ctx) ?t e1 = (eo, e')"
    using DeleteTuple_memory [OF Cons.prems(1,3) refl] by simp
  note eff = mutate_delete [OF m keeps(4) refl]
  have wf: "wf_tuple ?t" using Cons.prems(4) req by simp
  note fl = engineDelete_floor [OF Cons.prems(2) wf assms(4), of oid]
  have step: "mem_inv (tuplesState e')"
    "min (minHolders tm ot r) (int (card (holders ot oid r (tuplesState e)))) \<le> int (card (holders ot oid r (tuplesState e')))"
    using eff fl Cons.prems(2) keeps(1) by auto
  have "modelForOperation unm ctx e' = (Inr tm, e')"
    by (rule modelForOperation_again [OF Cons.prems(3)]) (use eff in auto)
  with Cons.IH [of e' e'] eff Cons.prems step(1) keeps(3)
  have "min (minHolders tm ot r) (int (card (holders ot oid r (tuplesState e')))) \<le>
     int (card (holders ot oid r (tuplesState (snd
       (run_ops (\<lambda>(user, relation, object). DeleteTuple unm ctx user relation object) reqs e')))))" by simp
  with step(2) d req show ?case by (simp add: case_prod_unfold)
qed simp

lemma eng_store_owner: "1 \<le> card (holders ''doc'' ''1'' ''owner'' eng_store)"
proof -
  have "tup ''doc'' ''1'' ''owner'' ''user'' ''cat'' [] \<in> set eng_tuples" by (simp add: eng_tuples_def)
  then have "tup ''doc'' ''1'' ''owner'' ''user'' ''cat'' [] \<in> holders ''doc'' ''1'' ''owner'' eng_store"
    using eng_store_spec by (simp add: holders_def all_tuples_def eng_store_mat)
  then show ?thesis by (metis One_nat_def Suc_leI card_gt_0_iff empty_iff finite_holders)
qed

theorem engine_deletes_keep_floor_witness:
  "1 \<le> card (holders ''doc'' ''1'' ''owner'' (tuplesState (snd
      (run_ops (\<lambda>(user, relation, object). DeleteTuple sampleDecoder acme user relation object)
         [(''user:cat'', ''owner'', ''doc:1'')] readyEngine))))"
proof -
  have m: "minHolders (Some \<lparr>tmModel = sample_model, tmSource = [], tmRevision = 0\<rparr>) ''doc'' ''owner'' = 1" by code_simp
  have "list_all (\<lambda>(user, relation, object). wf_tuple (parseTuple user relation object)) [(''user:cat'', ''owner'', ''doc:1'')]"
    by code_simp
  then show ?thesis
    using engine_deletes_keep_floor [OF _ _ readyEngine_model, of barCodec "''doc''" "''owner''"
        "[(''user:cat'', ''owner'', ''doc:1'')]" "''1''"] m eng_store_spec eng_store_owner
    by (simp add: mem_admissible_def del: run_ops.simps)
qed

text \<open>
  The floor is checked by \<open>DeleteTuple\<close> alone: without a recorder, \<open>DeleteRawTuple\<close> and the deletes of
  \<open>WriteRelationships\<close> remove any tuple, the last holder of a required relation included.
\<close>

lemma unguarded_deletes:
  assumes "eStore e = memoryEngineStore codec" and "mem_inv (tuplesState e)" and "RecordTupleDelete (eNotifier e) = None"
    and "modelForOperation unm ctx e = (Inr tm, e1)" and "wf_tuple (parseTuple user relation object)"
  shows "fst (DeleteRawTuple ctx user relation object e) = None \<and>
         stored (tuplesState (snd (DeleteRawTuple ctx user relation object e))) =
           stored (tuplesState e) - {parseTuple user relation object} \<and>
         fst (WriteRelationships unm ctx [] [parseTuple user relation object] e) = None \<and>
         stored (tuplesState (snd (WriteRelationships unm ctx [] [parseTuple user relation object] e))) =
           stored (tuplesState e) - {parseTuple user relation object}"
  using assms modelForOperation_keeps [OF assms(4)] stored_deleteLocked [OF assms(2,5)]
  by (simp add: DeleteRawTuple_def WriteRelationships_def mutate_def recordTupleDelete_def recordAll_def Let_def
      memoryTupleStore_def Delete_def WriteTx_def notifyDelete_def notifyAll_def)

section \<open>Asking before deleting\<close>

lemma containsDirect_iff:
  assumes "UserRelation w = []"
  shows "containsDirect ts w \<longleftrightarrow> w \<in> set ts"
proof -
  have "UserRelation t = [] \<and> ObjectType t = ObjectType w \<and> ObjectID t = ObjectID w \<and>
      Relation t = Relation w \<and> UserType t = UserType w \<and> UserID t = UserID w \<longleftrightarrow> t = w" for t :: Tuple
    using assms by (cases t; cases w) auto
  then show ?thesis by (simp add: containsDirect_def list_ex_iff)
qed

lemma set_Read_full:
  assumes "mem_inv s" and "\<forall>x \<in> set (matTuples s). \<not> matchesFilter x f" and "Read f s = Inr ts"
  shows "set ts = {t \<in> stored s. matchesFilter t f}"
  using Read_set [OF assms(1), of f] assms(2,3) by (auto simp: all_tuples_def)

lemma distinct_Read_full:
  assumes "mem_inv s" and "\<forall>x \<in> set (matTuples s). \<not> matchesFilter x (filterOf ot oid r)"
    and "ot \<noteq> []" and "oid \<noteq> []" and "r \<noteq> []" and "Read (filterOf ot oid r) s = Inr ts"
  shows "distinct ts"
proof -
  have "filter (\<lambda>t. matchesFilter t (filterOf ot oid r)) (matTuples s) = []"
    using assms(2) by (simp add: filter_empty_conv)
  with assms distinct_inner [OF assms(1), of "objectRelationKey ot oid r"] show ?thesis
    by (auto simp: Read_alt filterOf_def intro!: distinct_filter)
qed

lemma Read_holders:
  assumes "mem_inv s" and "\<forall>x \<in> set (matTuples s). \<not> matchesFilter x (filterOf ot oid r)"
    and "ot \<noteq> []" and "oid \<noteq> []" and "r \<noteq> []" and "Read (filterOf ot oid r) s = Inr ts"
  shows "int (length (filter (\<lambda>t. UserRelation t = []) ts)) = int (card (holders ot oid r s))"
proof -
  have "set (filter (\<lambda>t. UserRelation t = []) ts) = holders ot oid r s"
    using set_Read_full [OF assms(1,2,6)] assms(3-5) by (auto simp: holders_def matchesFilter_iff filterOf_def)
  with distinct_card [OF distinct_filter [OF distinct_Read_full [OF assms]], of "\<lambda>t. UserRelation t = []"]
  show ?thesis by simp
qed

lemma userFilter_below: "matchesFilter x (userFilter ot oid r ut uid) \<Longrightarrow> matchesFilter x (filterOf ot oid r)"
  by (simp add: matchesFilter_iff userFilter_def filterOf_def)

lemma Read_total: "\<exists>ts. Read f s = Inr ts"
  by (simp add: Read_alt)

lemma CanDelete_memory:
  assumes "esTuples (eStore e) = memoryTupleStore" and "modelForOperation unm ctx e = (Inr tm, e1)"
    and "t = parseTuple user relation object" and "mem_inv (tuplesState e)"
    and "\<forall>x \<in> set (matTuples (tuplesState e)). \<not> matchesFilter x (filterOf (ObjectType t) (ObjectID t) relation)" and "wf_tuple t"
    and "ObjectType t \<noteq> []" and "ObjectID t \<noteq> []" and "relation \<noteq> []"
  shows "CanDelete unm ctx user relation object e = (fst (engineDelete tm t (tuplesState e)), e1)"
proof -
  note keeps = modelForOperation_keeps [OF assms(2)]
  have rel: "Relation t = relation" by (simp add: assms(3) parseTuple_def case_prod_unfold)
  let ?s = "tuplesState e" and ?n = "minHolders tm (ObjectType t) relation"
  obtain xs where xs: "Read (userFilter (ObjectType t) (ObjectID t) relation (UserType t) (UserID t)) ?s = Inr xs"
    using Read_total by blast
  obtain ys where ys: "Read (filterOf (ObjectType t) (ObjectID t) relation) ?s = Inr ys" using Read_total by blast
  have nomat: "\<forall>x \<in> set (matTuples ?s). \<not> matchesFilter x (userFilter (ObjectType t) (ObjectID t) relation (UserType t) (UserID t))"
    using assms(5) userFilter_below by blast
  show ?thesis
  proof (cases "?n < 1 \<or> UserRelation t \<noteq> []")
    case True
    with assms(2,3) show ?thesis by (auto simp: CanDelete_def engineDelete_def Let_def rel Delete_def)
  next
    case False
    have "t \<in> set xs \<longleftrightarrow> t \<in> stored ?s"
      using set_Read_full [OF assms(4) nomat xs] by (auto simp: matchesFilter_iff userFilter_def rel)
    then have ex: "containsDirect xs t \<longleftrightarrow> t \<in> stored ?s" using False by (simp add: containsDirect_iff)
    have cnt: "int (length (filter (\<lambda>t. UserRelation t = []) ys)) = int (card (holders (ObjectType t) (ObjectID t) relation ?s))"
      by (rule Read_holders [OF assms(4,5,7-9) ys])
    have "CanDelete unm ctx user relation object e =
        (if t \<notin> stored ?s then (None, e1)
         else if int (card (holders (ObjectType t) (ObjectID t) relation ?s)) \<le> ?n then (Some ErrLastHolder, e1) else (None, e1))"
      using False assms(1,2) keeps xs ys cnt ex unfolding assms(3)
      by (simp add: CanDelete_def directHolders_def memoryTupleStore_def Let_def)
    moreover have "fst (engineDelete tm t ?s) =
        (if t \<notin> stored ?s then None
         else if int (card (holders (ObjectType t) (ObjectID t) relation ?s)) \<le> ?n then Some ErrLastHolder else None)"
      using False DeleteIfAbove_spec [OF assms(4,6), of ?n] by (simp add: engineDelete_def rel)
    ultimately show ?thesis by simp
  qed
qed

text \<open>The paged loops, read off the joined pages.\<close>

lemma scan_step:
  assumes "(case rd c of Inl e \<Rightarrow> Some (Inl e) | Inr p \<Rightarrow>
      if snd p = [] then Some (Inr (fst p))
      else Option.bind (g (snd p)) (\<lambda>r. case r of Inl e \<Rightarrow> Some (Inl e) | Inr rest \<Rightarrow> Some (Inr (fst p @ rest)))) = Some (Inr ts)"
  obtains (last) p where "rd c = Inr p" "snd p = []" "ts = fst p"
  | (more) p rest where "rd c = Inr p" "snd p \<noteq> []" "g (snd p) = Some (Inr rest)" "ts = fst p @ rest"
proof (cases "rd c")
  case (Inr p)
  show thesis
  proof (cases "snd p = []")
    case False
    with Inr assms obtain y where "g (snd p) = Some y" by (cases "g (snd p)") auto
    with Inr False assms show thesis by (cases y) (auto intro: more)
  qed (use Inr assms last in auto)
qed (use assms in simp)

lemma scan_exists:
  assumes "scanPages rd c = Some r"
  shows "\<forall>ts. r = Inr ts \<longrightarrow> boundedTupleExists rd w c = Some (Inr (containsDirect ts w))"
proof (rule scanPages.raw_induct [OF _ assms], goal_cases)
  case (1 f rd c r)
  show ?case
  proof (intro allI impI)
    fix ts assume "r = Inr ts"
    show "boundedTupleExists rd w c = Some (Inr (containsDirect ts w))"
      by (rule scan_step [where rd = rd and c = c and g = "f rd" and ts = ts, OF 1(2) [unfolded \<open>r = Inr ts\<close>]]; subst boundedTupleExists.simps)
        (use 1(1) in \<open>auto simp: containsDirect_def\<close>)
  qed
qed

lemma countDirect_append:
  "countDirect n (xs @ ys) d = Option.bind (countDirect n xs d) (countDirect n ys)"
  by (induction xs arbitrary: d) auto

lemma countDirect_spec:
  "d \<le> n \<Longrightarrow> countDirect n ts d = (let k = d + int (length (filter (\<lambda>t. UserRelation t = []) ts)) in if k > n then None else Some k)"
  by (induction ts arbitrary: d) (auto simp: Let_def)

lemma scan_count:
  assumes "scanPages rd c = Some r"
  shows "\<forall>ts d. r = Inr ts \<longrightarrow> boundedCount rd n wrap d c =
     Some (case countDirect n ts d of None \<Rightarrow> None | Some _ \<Rightarrow> Some ErrLastHolder)"
proof (rule scanPages.raw_induct [OF _ assms], goal_cases)
  case (1 f rd c r)
  show ?case
  proof (intro allI impI)
    fix ts d assume "r = Inr ts"
    show "boundedCount rd n wrap d c = Some (case countDirect n ts d of None \<Rightarrow> None | Some _ \<Rightarrow> Some ErrLastHolder)"
      by (rule scan_step [where rd = rd and c = c and g = "f rd" and ts = ts, OF 1(2) [unfolded \<open>r = Inr ts\<close>]]; subst boundedCount.simps)
        (use 1(1) in \<open>auto simp: countDirect_append split: option.split\<close>)
  qed
qed

text \<open>The cursors a paged read of the tuples of \<open>s\<close> issues can be followed.\<close>

definition cursors_usable :: "CursorCodec \<Rightarrow> TupleFilter \<Rightarrow> MemoryStore \<Rightarrow> bool" where
  "cursors_usable codec f s \<longleftrightarrow>
     codec_ok codec [] f (all_tuples s) \<and> (\<forall>t \<in> all_tuples s. \<not> cursor_too_long codec [] f t)"

lemma scan_usable:
  assumes "cursors_usable codec f s" and "mem_inv s" and "\<forall>x \<in> set (matTuples s). \<not> matchesFilter x f"
  shows "\<exists>ts. scanPages (\<lambda>c. ReadPage codec f c 500 s) [] = Some (Inr ts) \<and>
     set ts = {x \<in> stored s. matchesFilter x f} \<and> distinct ts"
proof -
  have "distinct (remaining (\<lambda>t. matchesFilter t f) None s)"
    using distinct_vals2 [OF assms(2)] assms(3) by (simp add: remaining_def store_list_def filter_empty_conv)
  with scan_all [of 500 codec "[]" f s "\<lambda>t. matchesFilter t f"] assms show ?thesis
    by (auto simp: cursors_usable_def ReadPage_def all_tuples_def)
qed

lemma mutate_answer:
  assumes "fst (rec t (outside e)) = Inr recorded"
  shows "fst (mutate rec del wrap notify t e) = map_option wrap (fst (del (tuplesState e)))"
  using assms by (cases "rec t (outside e)"; cases "del (tuplesState e)") (auto simp: mutate_def Let_def split: option.split)

lemma CanDeleteBounded_memory:
  assumes "eStore e = memoryEngineStore codec" and "modelForOperation unm ctx e = (Inr tm, e1)"
    and "t = parseTuple user relation object" and "mem_inv (tuplesState e)"
    and mat: "\<forall>x \<in> set (matTuples (tuplesState e)). \<not> matchesFilter x (filterOf (ObjectType t) (ObjectID t) relation)" and "wf_tuple t"
    and "ObjectType t \<noteq> []" and "ObjectID t \<noteq> []" and "relation \<noteq> []"
    and "cursors_usable codec (filterOf (ObjectType t) (ObjectID t) relation) (tuplesState e)"
    and "cursors_usable codec (userFilter (ObjectType t) (ObjectID t) relation (UserType t) (UserID t)) (tuplesState e)"
  shows "fst (CanDeleteBounded unm ctx user relation object e) = Some (fst (engineDelete tm t (tuplesState e)))"
proof -
  let ?s = "tuplesState e" and ?n = "minHolders tm (ObjectType t) relation"
  note keeps = modelForOperation_keeps [OF assms(2)]
  have rel: "Relation t = relation" by (simp add: assms(3) parseTuple_def case_prod_unfold)
  obtain xs where xs: "scanPages (\<lambda>c. ReadPage codec (userFilter (ObjectType t) (ObjectID t) relation (UserType t) (UserID t)) c 500 ?s) [] = Some (Inr xs)"
    "set xs = {x \<in> stored ?s. matchesFilter x (userFilter (ObjectType t) (ObjectID t) relation (UserType t) (UserID t))}"
    using scan_usable [OF assms(11,4)] mat userFilter_below by blast
  obtain ys where ys: "scanPages (\<lambda>c. ReadPage codec (filterOf (ObjectType t) (ObjectID t) relation) c 500 ?s) [] = Some (Inr ys)"
    "set ys = {x \<in> stored ?s. matchesFilter x (filterOf (ObjectType t) (ObjectID t) relation)}" "distinct ys"
    using scan_usable [OF assms(10,4) mat] by blast
  have hold: "set (filter (\<lambda>t. UserRelation t = []) ys) = holders (ObjectType t) (ObjectID t) relation ?s"
    using ys(2) assms(7-9) by (auto simp: holders_def matchesFilter_iff filterOf_def)
  then have cnt: "length (filter (\<lambda>t. UserRelation t = []) ys) = card (holders (ObjectType t) (ObjectID t) relation ?s)"
    using distinct_card [OF distinct_filter [OF ys(3)], of "\<lambda>t. UserRelation t = []"] by simp
  show ?thesis
  proof (cases "?n < 1 \<or> UserRelation t \<noteq> []")
    case True
    with assms(2,3) show ?thesis by (auto simp: CanDeleteBounded_def engineDelete_def Let_def rel Delete_def)
  next
    case False
    have ex: "containsDirect xs t \<longleftrightarrow> t \<in> stored ?s"
      using xs(2) False by (auto simp: containsDirect_iff matchesFilter_iff userFilter_def rel)
    have be: "boundedTupleExists (\<lambda>c. ReadPage codec (userFilter (ObjectType t) (ObjectID t) relation (UserType t) (UserID t)) c 500 ?s) t [] =
        Some (Inr (t \<in> stored ?s))" using scan_exists [OF xs(1)] ex by simp
    have bc: "boundedCount (\<lambda>c. ReadPage codec (filterOf (ObjectType t) (ObjectID t) relation) c 500 ?s) ?n wrap 0 [] =
        Some (if int (card (holders (ObjectType t) (ObjectID t) relation ?s)) \<le> ?n then Some ErrLastHolder else None)" for wrap
      using scan_count [OF ys(1), of ?n wrap] False countDirect_spec [of 0 ?n ys] cnt by (auto simp: Let_def)
    have "fst (engineDelete tm t ?s) =
        (if t \<notin> stored ?s then None
         else if int (card (holders (ObjectType t) (ObjectID t) relation ?s)) \<le> ?n then Some ErrLastHolder else None)"
      using False DeleteIfAbove_spec [OF assms(4,6), of ?n] by (simp add: engineDelete_def rel)
    with False assms(1,2) keeps be bc show ?thesis unfolding assms(3)
      by (simp add: CanDeleteBounded_def Let_def MaxTuplePageSize_def)
  qed
qed

text \<open>
  C28. Asking is answering. On an engine over the memory store, for a tuple whose key parts are free
  of the separators behind them and not empty, \<open>CanDelete\<close> returns the very error \<open>DeleteTuple\<close>
  would return, and the paged \<open>CanDeleteBounded\<close> terminates with the same answer although it stops
  counting at the floor and never reads more than one page at a time. This holds where no
  materialized tuple lies under the object and relation (\<open>CanDelete_counts_materialized\<close> shows why),
  where a recorder, if there is one, accepts the delete, and, for the paged variant, where the
  cursors of the tuples read are short enough for the decoder.
\<close>

theorem CanDelete_agrees:
  assumes "eStore e = memoryEngineStore codec" and "modelForOperation unm ctx e = (Inr tm, e1)"
    and "fst (recordTupleDelete (eNotifier e) (ctxTenant ctx) t (outside e)) = Inr recorded"
    and "t = parseTuple user relation object" and "wf_tuple t" and "mem_inv (tuplesState e)"
    and "\<forall>x \<in> set (matTuples (tuplesState e)). \<not> matchesFilter x (filterOf (ObjectType t) (ObjectID t) relation)"
    and "ObjectType t \<noteq> []" and "ObjectID t \<noteq> []" and "relation \<noteq> []"
    and "cursors_usable codec (filterOf (ObjectType t) (ObjectID t) relation) (tuplesState e)"
    and "cursors_usable codec (userFilter (ObjectType t) (ObjectID t) relation (UserType t) (UserID t)) (tuplesState e)"
  shows "fst (CanDelete unm ctx user relation object e) = fst (DeleteTuple unm ctx user relation object e) \<and>
         fst (CanDeleteBounded unm ctx user relation object e) = Some (fst (DeleteTuple unm ctx user relation object e))"
proof -
  note keeps = modelForOperation_keeps [OF assms(2)]
  have "fst (DeleteTuple unm ctx user relation object e) = fst (engineDelete tm t (tuplesState e))"
    using DeleteTuple_memory [OF assms(1,2,4)] assms(3) keeps by (simp add: mutate_answer option.map_ident)
  moreover have "CanDelete unm ctx user relation object e = (fst (engineDelete tm t (tuplesState e)), e1)"
    using assms by (intro CanDelete_memory) auto
  ultimately show ?thesis
    using CanDeleteBounded_memory [OF assms(1,2,4,6,7,5,8-12)] by simp
qed

lemma ready_usable:
  "cursors_usable barCodec (filterOf ''doc'' ''1'' ''owner'') eng_store"
  "cursors_usable barCodec (userFilter ''doc'' ''1'' ''owner'' ''user'' ''cat'') eng_store"
proof -
  have "codec_ok barCodec [] (filterOf ''doc'' ''1'' ''owner'') (all_tuples eng_store)"
    "codec_ok barCodec [] (userFilter ''doc'' ''1'' ''owner'' ''user'' ''cat'') (all_tuples eng_store)"
    by (rule codec_okI, code_simp)+
  moreover have "list_all (\<lambda>t. \<not> cursor_too_long barCodec [] (filterOf ''doc'' ''1'' ''owner'') t) eng_tuples"
    "list_all (\<lambda>t. \<not> cursor_too_long barCodec [] (userFilter ''doc'' ''1'' ''owner'' ''user'' ''cat'') t) eng_tuples"
    by code_simp+
  ultimately show "cursors_usable barCodec (filterOf ''doc'' ''1'' ''owner'') eng_store"
    "cursors_usable barCodec (userFilter ''doc'' ''1'' ''owner'' ''user'' ''cat'') eng_store"
    using eng_store_spec by (simp_all add: cursors_usable_def list_all_iff)
qed

theorem CanDelete_agrees_witness:
  "fst (CanDeleteBounded sampleDecoder acme ''user:cat'' ''owner'' ''doc:1'' readyEngine) =
   Some (fst (DeleteTuple sampleDecoder acme ''user:cat'' ''owner'' ''doc:1'' readyEngine))"
proof -
  have t: "parseTuple ''user:cat'' ''owner'' ''doc:1'' = tup ''doc'' ''1'' ''owner'' ''user'' ''cat'' []" by code_simp
  have "wf_tuple (tup ''doc'' ''1'' ''owner'' ''user'' ''cat'' [])" by code_simp
  moreover have "fst (recordTupleDelete (eNotifier readyEngine) (ctxTenant acme) t (outside readyEngine)) = Inr False" for t
    by (simp add: recordTupleDelete_def readyEngine_def sampleEngine_def NewEngine_def NoopNotifier_def)
  ultimately show ?thesis
    using CanDelete_agrees [OF readyEngine_sel(2) readyEngine_model _ t [symmetric], of False] eng_store_spec eng_store_mat ready_usable
    by (simp add: mem_admissible_def)
qed

text \<open>
  \<open>CanDelete\<close> counts holders through \<open>Read\<close>, which returns materialized tuples too; \<open>DeleteIfAbove\<close>
  counts stored ones. With one materialized owner beside the only stored one, \<open>CanDelete\<close> says yes
  and \<open>DeleteTuple\<close> refuses.
\<close>

definition materializedEngine :: "(MemoryStore, (string \<times> StoredModel) list, nat) Engine" where
  "materializedEngine = readyEngine\<lparr>tuplesState :=
     WriteMaterialized ''rule'' [tup ''doc'' ''1'' ''owner'' ''user'' ''dan'' []] eng_store\<rparr>"

lemma CanDelete_counts_materialized:
  "fst (CanDelete sampleDecoder acme ''user:cat'' ''owner'' ''doc:1'' materializedEngine) = None \<and>
   fst (DeleteTuple sampleDecoder acme ''user:cat'' ''owner'' ''doc:1'' materializedEngine) = Some ErrLastHolder"
  by code_simp

section \<open>Batches\<close>

lemma recordLoop_none:
  assumes "\<And>t x. rec t x = (Inr False, x)"
  shows "recordLoop rec ts st = (None, st)"
  using assms by (induction ts arbitrary: st) auto

lemma notify_fold [simp]:
  "tuplesState (fold (notifyWrite ctx) ts e) = tuplesState e" "tuplesState (fold (notifyDelete ctx) ts e) = tuplesState e"
  "eNotifier (fold (notifyWrite ctx) ts e) = eNotifier e"
  "outside (fold (notifyWrite ctx) ts e) = fold (OnTupleWrite (eNotifier e) (ctxTenant ctx)) ts (outside e)"
  "outside (fold (notifyDelete ctx) ts e) = fold (OnTupleDelete (eNotifier e) (ctxTenant ctx)) ts (outside e)"
  by (induction ts arbitrary: e) (simp_all add: notifyWrite_def notifyDelete_def)

lemma notifyAll_sel [simp]:
  "tuplesState (notifyAll ctx ws ds e) = tuplesState e"
  "outside (notifyAll ctx ws ds e) =
     fold (OnTupleDelete (eNotifier e) (ctxTenant ctx)) ds (fold (OnTupleWrite (eNotifier e) (ctxTenant ctx)) ws (outside e))"
  by (simp_all add: notifyAll_def)

lemma recordAll_none:
  "RecordTupleWrite n = None \<Longrightarrow> RecordTupleDelete n = None \<Longrightarrow> recordAll n tid ws ds st = (None, st)"
  by (simp add: recordAll_def recordLoop_none recordTupleWrite_def recordTupleDelete_def)



lemma tupleMatchesFilter_eq: "tupleMatchesFilter t f = matchesFilter t f"
  by (simp add: tupleMatchesFilter_def matchesFilter_iff)

text \<open>
  C26. A replacement leaves exactly what it was given. On an engine over the memory store,
  \<open>ReplaceRelationships\<close> on an object and relation either returns an error and leaves the tuples as
  they were (a replacement outside the filter, one the model rejects, a recorder that refuses
  inside the transaction), or afterwards the tuples that match the filter are exactly the
  replacements and every other tuple is untouched.
\<close>

theorem ReplaceRelationships_exact:
  assumes "eStore e = memoryEngineStore codec" and "mem_inv (tuplesState e)" and "list_all wf_tuple replacements"
    and "ReplaceRelationships unm ctx f replacements e = (eo, e')"
  shows "(eo \<noteq> None \<longrightarrow> tuplesState e' = tuplesState e) \<and>
     (eo = None \<longrightarrow>
        {t \<in> stored (tuplesState e'). matchesFilter t f} = set replacements \<and>
        {t \<in> stored (tuplesState e'). \<not> matchesFilter t f} = {t \<in> stored (tuplesState e). \<not> matchesFilter t f} \<and>
        materialized (tuplesState e') = materialized (tuplesState e) \<and> mem_inv (tuplesState e'))"
proof (cases "fObjectType f = [] \<or> fObjectID f = [] \<or> fRelation f = []")
  case True
  with assms(4) show ?thesis by (auto simp: ReplaceRelationships_def)
next
  case False
  obtain r e1 where mo: "modelForOperation unm ctx e = (r, e1)" by fastforce
  note keeps = modelForOperation_keeps [OF mo]
  show ?thesis
  proof (cases r)
    case (Inl err)
    with False assms(4) mo keeps show ?thesis by (auto simp: ReplaceRelationships_def)
  next
    case (Inr tm)
    show ?thesis
    proof (cases "first_err (checkReplacement tm f) replacements")
      case (Some err)
      with Inr False assms(4) mo keeps show ?thesis by (auto simp: ReplaceRelationships_def)
    next
      case None
      then have match: "\<forall>t \<in> set replacements. matchesFilter t f"
        by (auto simp: first_err_None checkReplacement_def tupleMatchesFilter_eq split: if_splits)
      have wf: "\<forall>t \<in> set replacements. wf_tuple t" using assms(3) by (simp add: list_all_iff)
      let ?pre = "recordAll (eNotifier e) (ctxTenant ctx)"
      from ReplaceTx_spec [OF assms(2) wf, of f "(False, outside e)"] obtain ws ds s' where
        rt: "ReplaceTx f replacements (Some ?pre) (tuplesState e) (False, outside e) =
          (case ?pre ws ds (False, outside e) of
             (Some err, x') \<Rightarrow> (Inl err, tuplesState e, x') | (None, x') \<Rightarrow> (Inr (ws, ds), s', x'))"
        and s': "mem_inv s'" "materialized s' = materialized (tuplesState e)"
          "stored s' = {t \<in> stored (tuplesState e). \<not> matchesFilter t f} \<union> set replacements" by blast
      obtain ro recorded x' where pre: "?pre ws ds (False, outside e) = (ro, recorded, x')" by (metis prod_cases3)
      have eff: "ReplaceRelationships unm ctx f replacements e =
          (case ro of
             Some err \<Rightarrow> (Some (Wrapf STR ''replace relationships: %w'' [] err), e1\<lparr>outside := x', tuplesState := tuplesState e\<rparr>)
           | None \<Rightarrow> (None, if recorded then e1\<lparr>outside := x', tuplesState := s'\<rparr>
                        else notifyAll ctx ws ds (e1\<lparr>outside := x', tuplesState := s'\<rparr>)))"
        using False assms(1) mo Inr None keeps rt pre
        by (auto simp: ReplaceRelationships_def Let_def split: option.split)
      show ?thesis using assms(4) eff s' match by (cases ro; cases recorded) auto
    qed
  qed
qed

theorem ReplaceRelationships_exact_witness:
  "\<exists>e'. ReplaceRelationships sampleDecoder acme (filterOf ''doc'' ''1'' ''owner'') [tup ''doc'' ''1'' ''owner'' ''user'' ''dan'' []]
       readyEngine = (None, e') \<and>
     {t \<in> stored (tuplesState e'). matchesFilter t (filterOf ''doc'' ''1'' ''owner'')} = {tup ''doc'' ''1'' ''owner'' ''user'' ''dan'' []}"
proof -
  let ?f = "filterOf ''doc'' ''1'' ''owner''" and ?r = "[tup ''doc'' ''1'' ''owner'' ''user'' ''dan'' []]"
  obtain eo e' where w: "ReplaceRelationships sampleDecoder acme ?f ?r readyEngine = (eo, e')" by fastforce
  have ok: "first_err (checkReplacement (Some \<lparr>tmModel = sample_model, tmSource = [], tmRevision = 0\<rparr>) ?f) ?r = None" by code_simp
  have nr: "RecordTupleWrite (eNotifier readyEngine) = None" "RecordTupleDelete (eNotifier readyEngine) = None"
    by (simp_all add: readyEngine_def sampleEngine_def NewEngine_def NoopNotifier_def)
  have "eo = None" using w ok recordAll_none [OF nr, of "ctxTenant acme"]
    by (auto simp: ReplaceRelationships_def readyEngine_model filterOf_def ReplaceTx_def Let_def split: prod.splits)
  moreover have "list_all wf_tuple ?r" by code_simp
  moreover have "mem_inv (tuplesState readyEngine)" using eng_store_spec by (simp add: mem_admissible_def)
  ultimately show ?thesis using ReplaceRelationships_exact [OF readyEngine_sel(2) _ _ w] w by simp
qed

end
