(* ===== verification/Policy_Engine.thy ===== *)
theory Policy_Engine
  imports Engine_Tuples
begin

text \<open>
  The embedded policy engine of \<open>policy/engine\<close>: bundles and their data overlay, the structured
  decision contract, the \<open>zanzibar.check\<close> built-in and the evaluation that falls back to a bare
  relationship check. OPA itself (bundle reader, compiler, store, evaluator) is code outside the
  repository: it is the record \<open>OPA\<close> of operations the definitions take as an argument. One OPA
  evaluation is a finite tree of calls of the built-in: \<open>CallCheck\<close> asks for
  \<open>zanzibar.check(user, relation, object)\<close> and goes on with the answer, \<open>Return\<close> ends with a
  result set or an error.

  A trace line is a value with the arguments of the source's format string. The values of a Go map
  of \<open>any\<close> are JSON values (\<open>JInt\<close> a Go integer, \<open>JNum\<close> any other number, by its text), held by value: maps that two owners share in the source are copies here.
\<close>

section \<open>Values\<close>

datatype json =
    JNull | JBool bool | JNum string | JInt int | JStr string | JArr "json list" | JObj "(string \<times> json) list"

type_synonym jobj = "(string \<times> json) list"

text \<open>The type assertions \<open>v.(string)\<close>, \<open>v.(bool)\<close> and \<open>v.(map[string]any)\<close>; a missing map key
  gives the nil interface, which satisfies none of them.\<close>

definition as_string :: "json option \<Rightarrow> string option" where
  "as_string v = (case v of Some (JStr s) \<Rightarrow> Some s | _ \<Rightarrow> None)"

definition as_bool :: "json option \<Rightarrow> bool option" where
  "as_bool v = (case v of Some (JBool b) \<Rightarrow> Some b | _ \<Rightarrow> None)"

definition as_object :: "json option \<Rightarrow> jobj option" where
  "as_object v = (case v of Some (JObj m) \<Rightarrow> Some m | _ \<Rightarrow> None)"

text \<open>\<open>strings.Split\<close> on a one-byte separator.\<close>

fun split_on :: "char \<Rightarrow> string \<Rightarrow> string list" where
  "split_on c [] = [[]]"
| "split_on c (x # xs) =
     (if x = c then [] # split_on c xs
      else (case split_on c xs of [] \<Rightarrow> [[x]] | p # ps \<Rightarrow> (x # p) # ps))"

lemma split_on_neq_Nil [simp]: "split_on c s \<noteq> []"
  by (cases s) (auto split: list.splits)

text \<open>
  \<open>strings.TrimSpace(s) == ""\<close>: the string is a sequence of UTF-8 encoded space runes, those of
  \<open>unicode.IsSpace\<close>.
\<close>

definition space_runes :: "nat list list" where
  "space_runes =
     map (\<lambda>n. [n]) [9, 10, 11, 12, 13, 32] @
     [[0xC2, 0x85], [0xC2, 0xA0], [0xE1, 0x9A, 0x80]] @
     map (\<lambda>n. [0xE2, 0x80, n]) [0x80, 0x81, 0x82, 0x83, 0x84, 0x85, 0x86, 0x87, 0x88, 0x89, 0x8A, 0xA8, 0xA9, 0xAF] @
     [[0xE2, 0x81, 0x9F], [0xE3, 0x80, 0x80]]"

definition strip_rune :: "string \<Rightarrow> string option" where
  "strip_rune s =
     (case find (\<lambda>r. map of_char (take (length r) s) = r) space_runes of
        None \<Rightarrow> None | Some r \<Rightarrow> Some (drop (length r) s))"

lemma space_runes_neq_Nil: "r \<in> set space_runes \<Longrightarrow> r \<noteq> []"
  by (auto simp: space_runes_def)

lemma strip_rune_shorter:
  assumes "strip_rune s = Some rest" shows "length rest < length s"
proof -
  from assms obtain r where f: "find (\<lambda>r. map of_char (take (length r) s) = r) space_runes = Some r"
    and rest: "rest = drop (length r) s" by (auto simp: strip_rune_def split: option.splits)
  from f have r: "r \<in> set space_runes" "map of_char (take (length r) s) = r"
    by (auto simp: find_Some_iff)
  from r(2) have "length r \<le> length s"
    by (metis length_map length_take min.cobounded1)
  with rest space_runes_neq_Nil [OF r(1)] show ?thesis by (cases r) auto
qed

function blank :: "string \<Rightarrow> bool" where
  "blank s = (case strip_rune s of None \<Rightarrow> s = [] | Some rest \<Rightarrow> blank rest)"
  by pat_completeness auto

termination blank
  by (relation "measure length") (auto dest: strip_rune_shorter)

declare blank.simps [simp del]

section \<open>Integer conversion\<close>

text \<open>\<open>int32\<close> arithmetic wraps; \<open>SafeInt32\<close> and \<open>SafeInt32From64\<close> refuse instead.\<close>

definition int32 :: "int \<Rightarrow> int" where
  "int32 n = (n + 2 ^ 31) mod 2 ^ 32 - 2 ^ 31"

definition SafeInt32 :: "int \<Rightarrow> int res" where
  "SafeInt32 v =
     (if v > 2 ^ 31 - 1 \<or> v < - (2 ^ 31)
      then Inl (Errorf STR ''integer overflow: %d exceeds int32 range [%d, %d]'' [])
      else Inr (int32 v))"

definition SafeInt32From64 :: "int \<Rightarrow> int res" where
  "SafeInt32From64 v =
     (if v > 2 ^ 31 - 1 \<or> v < - (2 ^ 31)
      then Inl (Errorf STR ''integer overflow: %d exceeds int32 range [%d, %d]'' [])
      else Inr (int32 v))"

lemma int32_id: "- (2 ^ 31) \<le> v \<Longrightarrow> v \<le> 2 ^ 31 - 1 \<Longrightarrow> int32 v = v"
  by (simp add: int32_def)

section \<open>Results\<close>

record StepUp =
  suType :: string
  suMethod :: string

datatype trace_line =
    CheckLine string string string "bool res"
  | EvalLine string string bool int

record EvalResult =
  Allowed :: bool
  MatchedRule :: string
  Reason :: string
  resStepUp :: "StepUp option"
  Trace :: "trace_line list"
  ZanzibarCalls :: int
  EvalUs :: int
  EvaluatedRulePaths :: "string list"

definition newResult :: "bool \<Rightarrow> string \<Rightarrow> EvalResult" where
  "newResult allowed matched =
     \<lparr>Allowed = allowed, MatchedRule = matched, Reason = [], resStepUp = None, Trace = [],
      ZanzibarCalls = 0, EvalUs = 0, EvaluatedRulePaths = []\<rparr>"

record EvalInput =
  inUser :: string
  inRelation :: string
  inObject :: string
  inResourceType :: string
  inResourceID :: string
  inContextTuples :: "Tuple list"
  inExtra :: jobj

section \<open>The decision contract\<close>

definition policyDecisionPackage :: string where
  "policyDecisionPackage = ''data.atol_internal_runtime''"

definition policyDecisionQuery :: string where
  "policyDecisionQuery = policyDecisionPackage @ ''.decision''"

definition policyDecisionModulePath :: string where
  "policyDecisionModulePath = ''atol/internal/decision.rego''"

text \<open>A result set is, per result, the values of its expressions.\<close>

type_synonym ResultSet = "json list list"

definition resultDefined :: "ResultSet \<Rightarrow> bool" where
  "resultDefined rs \<longleftrightarrow> length rs > 0 \<and> length (rs ! 0) > 0"

definition invalidDecision :: "String.literal \<Rightarrow> goerror" where
  "invalidDecision msg = Wrapf msg [] ErrInvalidPolicyDecision"

definition decodeStepUp :: "json option \<Rightarrow> StepUp option res" where
  "decodeStepUp raw =
     (case raw of
        None \<Rightarrow> Inr None
      | Some _ \<Rightarrow>
          (case as_object raw of
             None \<Rightarrow> Inl (invalidDecision STR ''%w: step_up must be an object'')
           | Some stepUp \<Rightarrow>
               (case as_string (map_of stepUp ''type'') of
                  None \<Rightarrow> Inl (invalidDecision STR ''%w: step_up.type must be a non-empty string'')
                | Some stepType \<Rightarrow>
                    if blank stepType
                    then Inl (invalidDecision STR ''%w: step_up.type must be a non-empty string'')
                    else case map_of stepUp ''method'' of
                      None \<Rightarrow> Inr (Some \<lparr>suType = stepType, suMethod = []\<rparr>)
                    | Some rawMethod \<Rightarrow>
                        (case as_string (Some rawMethod) of
                           None \<Rightarrow> Inl (invalidDecision STR ''%w: step_up.method must be a string'')
                         | Some m \<Rightarrow> Inr (Some \<lparr>suType = stepType, suMethod = m\<rparr>)))))"

definition decodeReason :: "json option \<Rightarrow> string res" where
  "decodeReason raw =
     (case raw of
        None \<Rightarrow> Inr []
      | Some _ \<Rightarrow>
          (case as_string raw of
             None \<Rightarrow> Inl (invalidDecision STR ''%w: reason must be a string'')
           | Some reason \<Rightarrow> Inr reason))"

definition decodePolicyDecision :: "ResultSet \<Rightarrow> EvalResult option res" where
  "decodePolicyDecision rs =
     (if \<not> resultDefined rs then Inr None
      else case as_object (Some (rs ! 0 ! 0)) of
        None \<Rightarrow> Inl (invalidDecision STR ''%w: adapter result must be an object'')
      | Some envelope \<Rightarrow>
          (case as_string (map_of envelope ''matched_rule'') of
             None \<Rightarrow> Inl (invalidDecision STR ''%w: adapter matched_rule must be a non-empty string'')
           | Some matchedRule \<Rightarrow>
               if matchedRule = []
               then Inl (invalidDecision STR ''%w: adapter matched_rule must be a non-empty string'')
               else case as_object (map_of envelope ''result'') of
                 None \<Rightarrow> Inl (invalidDecision STR ''%w: result must be an object'')
               | Some value \<Rightarrow>
                   (case as_bool (map_of value ''allow'') of
                      None \<Rightarrow> Inl (invalidDecision STR ''%w: allow must be a boolean'')
                    | Some allowed \<Rightarrow>
                        (case decodeReason (map_of value ''reason'') of
                           Inl err \<Rightarrow> Inl err
                         | Inr reason \<Rightarrow>
                             (case decodeStepUp (map_of value ''step_up'') of
                                Inl err \<Rightarrow> Inl err
                              | Inr stepUp \<Rightarrow>
                                  Inr (Some ((newResult allowed matchedRule)\<lparr>Reason := reason, resStepUp := stepUp\<rparr>)))))))"

section \<open>Policy data\<close>

text \<open>\<open>setNestedData\<close> on the parts of its path: the map at a part is entered when there is one, and
  made when the part is missing or holds a value that is no map.\<close>

definition nextMap :: "string \<Rightarrow> jobj \<Rightarrow> jobj" where
  "nextMap part current = (case map_of current part of Some (JObj m) \<Rightarrow> m | _ \<Rightarrow> [])"

fun setNestedParts :: "string list \<Rightarrow> json \<Rightarrow> jobj \<Rightarrow> jobj" where
  "setNestedParts [] value current = current"
| "setNestedParts [part] value current = AList.update part value current"
| "setNestedParts (part # part' # rest) value current =
     AList.update part (JObj (setNestedParts (part' # rest) value (nextMap part current))) current"

definition setNestedData :: "string \<Rightarrow> json \<Rightarrow> jobj \<Rightarrow> jobj" where
  "setNestedData path value data = setNestedParts (split_on CHR ''/'' path) value data"

definition overlayData :: "jobj \<Rightarrow> jobj \<Rightarrow> jobj" where
  "overlayData policyData data = fold (\<lambda>(path, value). setNestedData path value) policyData data"
section \<open>OPA\<close>

datatype opaRun =
    Return "ResultSet res"
  | CallCheck json json json "bool res \<Rightarrow> opaRun"

record 'mod ModuleFile =
  mfPackage :: string
  mfPath :: string
  mfParsed :: 'mod

record 'mod Bundle =
  bData :: "jobj option"
  bModules :: "'mod ModuleFile list"

datatype storageOp = AddOp | ReplaceOp

record ('mod, 'c, 'st, 'txn, 'q) OPA =
  readBundle :: "string \<Rightarrow> 'mod Bundle res"
  parseModule :: "string \<Rightarrow> 'mod res"
  compileModules :: "(string \<times> 'mod) list \<Rightarrow> 'c res"
  newFromObject :: "jobj \<Rightarrow> 'st"
  newTransaction :: "'st \<Rightarrow> 'txn res"
  readData :: "string list \<Rightarrow> 'txn \<Rightarrow> json res"
  writeData :: "storageOp \<Rightarrow> string list \<Rightarrow> json \<Rightarrow> 'txn \<Rightarrow> 'txn res"
  commitData :: "'txn \<Rightarrow> 'st \<Rightarrow> 'st res"
  prepareForEval :: "string \<Rightarrow> 'c \<Rightarrow> 'st \<Rightarrow> 'q res"
  evalPrepared :: "'q \<Rightarrow> 'st \<Rightarrow> jobj \<Rightarrow> opaRun"

section \<open>The engine\<close>

record ('c, 'st, 'q) bundleState =
  bsCompiler :: 'c
  bsStore :: 'st
  bsPrepared :: "(string \<times> 'q) list"

record ('s, 'm, 'x, 'c, 'st, 'q) PolicyEngine =
  pZanzibar :: "('s, 'm, 'x) Engine"
  pServingGate :: "(string \<Rightarrow> 'x \<Rightarrow> goerror option) option"
  pBundle :: "('c, 'st, 'q) bundleState option"

definition NewPolicyEngine :: "('s, 'm, 'x) Engine \<Rightarrow> ('s, 'm, 'x, 'c, 'st, 'q) PolicyEngine" where
  "NewPolicyEngine z = \<lparr>pZanzibar = z, pServingGate = None, pBundle = None\<rparr>"

definition SetPolicyServingGate ::
    "(string \<Rightarrow> 'x \<Rightarrow> goerror option) option \<Rightarrow> ('s, 'm, 'x, 'c, 'st, 'q) PolicyEngine \<Rightarrow> ('s, 'm, 'x, 'c, 'st, 'q) PolicyEngine" where
  "SetPolicyServingGate gate pe = pe\<lparr>pServingGate := gate\<rparr>"

definition preparedQuery ::
    "('mod, 'c, 'st, 'txn, 'q) OPA \<Rightarrow> string \<Rightarrow> ('c, 'st, 'q) bundleState \<Rightarrow> 'q res \<times> ('c, 'st, 'q) bundleState" where
  "preparedQuery opa query bs =
     (case map_of (bsPrepared bs) query of
        Some pq \<Rightarrow> (Inr pq, bs)
      | None \<Rightarrow>
          (case prepareForEval opa query (bsCompiler bs) (bsStore bs) of
             Inl err \<Rightarrow> (Inl (Wrapf STR ''prepare query %s: %w'' [query] err), bs)
           | Inr pq \<Rightarrow> (Inr pq, bs\<lparr>bsPrepared := AList.update query pq (bsPrepared bs)\<rparr>)))"

fun collectModules :: "'mod ModuleFile list \<Rightarrow> (string \<times> 'mod) list \<Rightarrow> (string \<times> 'mod) list res" where
  "collectModules [] modules = Inr modules"
| "collectModules (m # ms) modules =
     (if mfPackage m = policyDecisionPackage
      then Inl (Errorf STR ''compile rego: package %s is reserved'' [policyDecisionPackage])
      else collectModules ms (AList.update (mfPath m) (mfParsed m) modules))"

text \<open>
  \<open>parseModule\<close> parses the adapter module, the constant \<open>policyDecisionModule\<close>; the compiler runs with
  the \<open>zanzibar.check\<close> built-in declared.
\<close>

definition LoadBundle ::
    "('mod, 'c, 'st, 'txn, 'q) OPA \<Rightarrow> string \<Rightarrow> jobj \<Rightarrow> ('s, 'm, 'x, 'c, 'st, 'q) PolicyEngine \<Rightarrow>
     goerror option \<times> ('s, 'm, 'x, 'c, 'st, 'q) PolicyEngine" where
  "LoadBundle opa bundleData policyData pe =
     (case readBundle opa bundleData of
        Inl err \<Rightarrow> (Some (Wrapf STR ''read bundle: %w'' [] err), pe)
      | Inr b \<Rightarrow>
          (let data = overlayData policyData (case bData b of None \<Rightarrow> [] | Some d \<Rightarrow> d) in
           case collectModules (bModules b) [] of
             Inl err \<Rightarrow> (Some err, pe)
           | Inr modules \<Rightarrow>
               (case parseModule opa policyDecisionModulePath of
                  Inl err \<Rightarrow> (Some (Wrapf STR ''parse policy decision adapter: %w'' [] err), pe)
                | Inr runtimeModule \<Rightarrow>
                    (case compileModules opa (AList.update policyDecisionModulePath runtimeModule modules) of
                       Inl _ \<Rightarrow> (Some (Errorf STR ''compile rego: %v'' []), pe)
                     | Inr compiler \<Rightarrow>
                         (None, pe\<lparr>pBundle := Some \<lparr>bsCompiler = compiler, bsStore = newFromObject opa data,
                                                    bsPrepared = []\<rparr>\<rparr>)))))"

text \<open>
  A transaction of the OPA store is a value that only \<open>commitData\<close> applies to the store, so
  \<open>store.Abort\<close> after a failed write, which releases the transaction, is to drop that value.
\<close>

definition SetPolicyData ::
    "('mod, 'c, 'st, 'txn, 'q) OPA \<Rightarrow> string \<Rightarrow> json \<Rightarrow> ('s, 'm, 'x, 'c, 'st, 'q) PolicyEngine \<Rightarrow>
     goerror option \<times> ('s, 'm, 'x, 'c, 'st, 'q) PolicyEngine" where
  "SetPolicyData opa path value pe =
     (case pBundle pe of
        None \<Rightarrow> (Some (Errorf STR ''policy engine store not initialized'' []), pe)
      | Some bs \<Rightarrow>
          (let storagePath = split_on CHR ''/'' path in
           case newTransaction opa (bsStore bs) of
             Inl err \<Rightarrow> (Some (Wrapf STR ''open write transaction: %w'' [] err), pe)
           | Inr txn \<Rightarrow>
               (let op = (case readData opa storagePath txn of Inl _ \<Rightarrow> AddOp | Inr _ \<Rightarrow> ReplaceOp) in
                case writeData opa op storagePath value txn of
                  Inl err \<Rightarrow> (Some (Wrapf STR ''write policy data: %w'' [] err), pe)
                | Inr txn' \<Rightarrow>
                    (case commitData opa txn' (bsStore bs) of
                       Inl err \<Rightarrow> (Some (Wrapf STR ''commit policy data: %w'' [] err), pe)
                     | Inr st \<Rightarrow> (None, pe\<lparr>pBundle := Some (bs\<lparr>bsStore := st\<rparr>)\<rparr>)))))"

section \<open>The built-in\<close>

record ('s, 'm, 'x) evalState =
  evZanzibar :: "('s, 'm, 'x) Engine"
  evContextTuples :: "Tuple list"
  evalCtx :: "Context option"
  calls :: int
  trace :: "trace_line list"

text \<open>
  The relationship check both the built-in and the fallback make: with the context tuples overlaid
  when there are any. \<open>None\<close> is a check that does not return.
\<close>

definition relationCheck ::
    "(string \<Rightarrow> yamlModel res) \<Rightarrow> Context \<Rightarrow> Tuple list \<Rightarrow> string \<Rightarrow> string \<Rightarrow> string \<Rightarrow> ('s, 'm, 'x) Engine \<Rightarrow>
     bool res option \<times> ('s, 'm, 'x) Engine" where
  "relationCheck unm ctx contextTuples user relation object e =
     (if contextTuples \<noteq> [] then CheckWithContextTuples unm ctx user relation object contextTuples e
      else Check_Engine unm ctx user relation object e)"

definition checkAccessFn ::
    "(string \<Rightarrow> yamlModel res) \<Rightarrow> Context \<Rightarrow> json \<Rightarrow> json \<Rightarrow> json \<Rightarrow> ('s, 'm, 'x) evalState \<Rightarrow>
     (bool res \<times> ('s, 'm, 'x) evalState) option" where
  "checkAccessFn unm bctx userTerm relationTerm objectTerm s =
     (case as_string (Some userTerm) of
        None \<Rightarrow> Some (Inl (Errorf STR ''zanzibar.check: user must be a string'' []), s)
      | Some user \<Rightarrow>
          (case as_string (Some relationTerm) of
             None \<Rightarrow> Some (Inl (Errorf STR ''zanzibar.check: relation must be a string'' []), s)
           | Some relation \<Rightarrow>
               (case as_string (Some objectTerm) of
                  None \<Rightarrow> Some (Inl (Errorf STR ''zanzibar.check: object must be a string'' []), s)
                | Some object \<Rightarrow>
                    (let checkCtx = (case evalCtx s of None \<Rightarrow> bctx | Some c \<Rightarrow> c) in
                     case relationCheck unm checkCtx (evContextTuples s) user relation object (evZanzibar s) of
                       (None, _) \<Rightarrow> None
                     | (Some answer, e) \<Rightarrow>
                         Some (Inr (case answer of Inl _ \<Rightarrow> False | Inr allowed \<Rightarrow> allowed),
                               s\<lparr>evZanzibar := e, calls := int32 (calls s + 1),
                                 trace := trace s @ [CheckLine user relation object answer]\<rparr>)))))"

text \<open>One evaluation of a prepared query with \<open>dispatchCheckAccess\<close> as the built-in, which recovers
  the state that \<open>contextWithEvalState\<close> put into the context.\<close>

primrec runOPA ::
    "opaRun \<Rightarrow> (string \<Rightarrow> yamlModel res) \<Rightarrow> Context \<Rightarrow> ('s, 'm, 'x) evalState \<Rightarrow>
     (ResultSet res \<times> ('s, 'm, 'x) evalState) option" where
  "runOPA (Return r) unm bctx s = Some (r, s)"
| "runOPA (CallCheck u r ob k) unm bctx s =
     (case checkAccessFn unm bctx u r ob s of
        None \<Rightarrow> None
      | Some (answer, s') \<Rightarrow> runOPA (k answer) unm bctx s')"

section \<open>Evaluation\<close>

definition evalQuery ::
    "('mod, 'c, 'st, 'txn, 'q) OPA \<Rightarrow> (string \<Rightarrow> yamlModel res) \<Rightarrow> Context \<Rightarrow> string \<Rightarrow> jobj \<Rightarrow>
     ('c, 'st, 'q) bundleState \<Rightarrow> ('s, 'm, 'x) evalState \<Rightarrow>
     (ResultSet res \<times> ('c, 'st, 'q) bundleState \<times> ('s, 'm, 'x) evalState) option" where
  "evalQuery opa unm ctx query input bs state =
     (case preparedQuery opa query bs of
        (Inl err, bs') \<Rightarrow> Some (Inl err, bs', state)
      | (Inr pq, bs') \<Rightarrow>
          (case runOPA (evalPrepared opa pq (bsStore bs') input) unm ctx state of
             None \<Rightarrow> None
           | Some (rs, state') \<Rightarrow> Some (rs, bs', state')))"

text \<open>
  \<open>elapsed\<close> is \<open>time.Since(start).Microseconds()\<close>. A result \<open>None\<close> is an evaluation that does not
  return; the nil decision that \<open>Evaluate\<close> would dereference is such a branch too, and it is never
  taken, since a defined result decodes to a decision or an error.
\<close>

definition fallbackCheck ::
    "(string \<Rightarrow> yamlModel res) \<Rightarrow> Context \<Rightarrow> int \<Rightarrow> EvalInput \<Rightarrow> ('s, 'm, 'x, 'c, 'st, 'q) PolicyEngine \<Rightarrow>
     EvalResult res option \<times> ('s, 'm, 'x, 'c, 'st, 'q) PolicyEngine" where
  "fallbackCheck unm ctx elapsed input pe =
     (case relationCheck unm ctx (inContextTuples input) (inUser input) (inRelation input) (inObject input)
             (pZanzibar pe) of
        (None, e) \<Rightarrow> (None, pe\<lparr>pZanzibar := e\<rparr>)
      | (Some (Inl err), e) \<Rightarrow> (Some (Inl (Wrapf STR ''zanzibar check: %w'' [] err)), pe\<lparr>pZanzibar := e\<rparr>)
      | (Some (Inr allowed), e) \<Rightarrow>
          (case SafeInt32From64 elapsed of
             Inl err \<Rightarrow> (Some (Inl (Wrapf STR ''zanzibar evaluation duration: %w'' [] err)), pe\<lparr>pZanzibar := e\<rparr>)
           | Inr evalUs \<Rightarrow>
               (Some (Inr ((newResult allowed ''zanzibar.check'')
                  \<lparr>Trace := [CheckLine (inUser input) (inRelation input) (inObject input) (Inr allowed)],
                   ZanzibarCalls := 1, EvalUs := evalUs\<rparr>)), pe\<lparr>pZanzibar := e\<rparr>)))"

definition standardFields :: "EvalInput \<Rightarrow> jobj" where
  "standardFields input =
     [(''user'', JStr (inUser input)), (''action'', JStr (inRelation input)), (''resource'', JStr (inObject input)),
      (''relation'', JStr (inRelation input)), (''object'', JStr (inObject input)),
      (''resource_type'', JStr (inResourceType input)), (''resource_id'', JStr (inResourceID input))]"

text \<open>\<open>maps.Clone\<close> of the extra fields, then \<open>maps.Copy\<close> of the standard ones.\<close>

definition inputMap :: "EvalInput \<Rightarrow> jobj" where
  "inputMap input = fold (\<lambda>(k, v). AList.update k v) (standardFields input) (inExtra input)"

definition evalError :: "EvalInput \<Rightarrow> goerror \<Rightarrow> goerror" where
  "evalError input err =
     Wrapf STR ''opa eval %s (user %s, relation %s, object %s): %w''
       [policyDecisionQuery, inUser input, inRelation input, inObject input] err"

definition policyServing :: "Context \<Rightarrow> ('s, 'm, 'x, 'c, 'st, 'q) PolicyEngine \<Rightarrow> goerror option" where
  "policyServing ctx pe =
     (case pServingGate pe of
        None \<Rightarrow> None
      | Some gate \<Rightarrow> gate (ctxTenant ctx) (outside (pZanzibar pe)))"

definition Evaluate ::
    "('mod, 'c, 'st, 'txn, 'q) OPA \<Rightarrow> (string \<Rightarrow> yamlModel res) \<Rightarrow> Context \<Rightarrow> int \<Rightarrow> EvalInput \<Rightarrow>
     ('s, 'm, 'x, 'c, 'st, 'q) PolicyEngine \<Rightarrow>
     EvalResult res option \<times> ('s, 'm, 'x, 'c, 'st, 'q) PolicyEngine" where
  "Evaluate opa unm ctx elapsed input pe =
     (case policyServing ctx pe of
        Some err \<Rightarrow> (Some (Inl (Wrapf STR ''tenant policy serving is unavailable: %w'' [] err)), pe)
      | None \<Rightarrow>
          (case pBundle pe of
             None \<Rightarrow> fallbackCheck unm ctx elapsed input pe
           | Some bs \<Rightarrow>
               (let state = \<lparr>evZanzibar = pZanzibar pe, evContextTuples = inContextTuples input,
                             evalCtx = Some ctx, calls = 0, trace = []\<rparr> in
                case evalQuery opa unm ctx policyDecisionQuery (inputMap input) bs state of
                  None \<Rightarrow> (None, pe)
                | Some (answer, bs', state') \<Rightarrow>
                    (let pe' = pe\<lparr>pZanzibar := evZanzibar state', pBundle := Some bs'\<rparr> in
                     case answer of
                       Inl err \<Rightarrow> (Some (Inl (evalError input err)), pe')
                     | Inr rs \<Rightarrow>
                         if \<not> resultDefined rs then fallbackCheck unm ctx elapsed input pe'
                         else case decodePolicyDecision rs of
                           Inl err \<Rightarrow> (Some (Inl (evalError input err)), pe')
                         | Inr None \<Rightarrow> (None, pe')
                         | Inr (Some decision) \<Rightarrow>
                             (case SafeInt32From64 elapsed of
                                Inl err \<Rightarrow> (Some (Inl (Wrapf STR ''policy evaluation duration: %w'' [] err)), pe')
                              | Inr evalUs \<Rightarrow>
                                  (Some (Inr (decision
                                     \<lparr>Trace := trace state' @ [EvalLine policyDecisionQuery (MatchedRule decision) (Allowed decision) evalUs],
                                      ZanzibarCalls := calls state', EvalUs := evalUs,
                                      EvaluatedRulePaths := [policyDecisionQuery]\<rparr>)), pe'))))))"
section \<open>What the contract accepts\<close>

definition optional_string :: "json option \<Rightarrow> string \<Rightarrow> bool" where
  "optional_string raw s \<longleftrightarrow> raw = Some (JStr s) \<or> raw = None \<and> s = []"

definition encodes_step_up :: "json option \<Rightarrow> StepUp option \<Rightarrow> bool" where
  "encodes_step_up raw su \<longleftrightarrow>
     (case su of
        None \<Rightarrow> raw = None
      | Some u \<Rightarrow> \<exists>m. raw = Some (JObj m) \<and> map_of m ''type'' = Some (JStr (suType u)) \<and> \<not> blank (suType u) \<and>
                       optional_string (map_of m ''method'') (suMethod u))"

text \<open>The documents of the public contract, and the decision each stands for.\<close>

definition encodes_decision :: "json \<Rightarrow> EvalResult \<Rightarrow> bool" where
  "encodes_decision v r \<longleftrightarrow>
     (\<exists>envelope value. v = JObj envelope \<and>
        map_of envelope ''matched_rule'' = Some (JStr (MatchedRule r)) \<and> MatchedRule r \<noteq> [] \<and>
        map_of envelope ''result'' = Some (JObj value) \<and>
        map_of value ''allow'' = Some (JBool (Allowed r)) \<and>
        optional_string (map_of value ''reason'') (Reason r) \<and>
        encodes_step_up (map_of value ''step_up'') (resStepUp r) \<and>
        r = (newResult (Allowed r) (MatchedRule r))\<lparr>Reason := Reason r, resStepUp := resStepUp r\<rparr>)"

lemma as_string_Some [simp]: "as_string v = Some s \<longleftrightarrow> v = Some (JStr s)"
  by (auto simp: as_string_def split: option.splits json.splits)

lemma as_bool_Some [simp]: "as_bool v = Some b \<longleftrightarrow> v = Some (JBool b)"
  by (auto simp: as_bool_def split: option.splits json.splits)

lemma as_object_Some [simp]: "as_object v = Some m \<longleftrightarrow> v = Some (JObj m)"
  by (auto simp: as_object_def split: option.splits json.splits)

lemma as_string_JStr [simp]: "as_string (Some (JStr s)) = Some s"
  by simp

lemma decodeReason_iff: "decodeReason raw = Inr s \<longleftrightarrow> optional_string raw s"
  by (auto simp: decodeReason_def optional_string_def as_string_def split: option.splits json.splits)

lemma decodeStepUp_iff: "decodeStepUp raw = Inr su \<longleftrightarrow> encodes_step_up raw su"
proof (cases "as_object raw")
  case None
  then show ?thesis
    by (auto simp: decodeStepUp_def encodes_step_up_def as_object_def split: option.splits json.splits)
next
  case (Some m)
  then have raw: "raw = Some (JObj m)" by simp
  show ?thesis
  proof (cases "as_string (map_of m ''type'')")
    case None
    then have "map_of m ''type'' \<noteq> Some (JStr t)" for t by (auto simp: as_string_def)
    with None raw show ?thesis
      by (auto simp: decodeStepUp_def encodes_step_up_def as_object_def split: option.splits)
  next
    case (Some t)
    then have ty: "map_of m ''type'' = Some (JStr t)" by simp
    show ?thesis
      by (cases su)
        (auto simp: decodeStepUp_def encodes_step_up_def optional_string_def raw ty as_object_def as_string_def
          split: option.splits json.splits)
  qed
qed

lemma decodeReason_Inl: "decodeReason raw = Inl e \<Longrightarrow> errors_Is e ErrInvalidPolicyDecision"
  by (auto simp: decodeReason_def invalidDecision_def split: option.splits)

lemma decodeStepUp_Inl: "decodeStepUp raw = Inl e \<Longrightarrow> errors_Is e ErrInvalidPolicyDecision"
  by (auto simp: decodeStepUp_def invalidDecision_def split: option.splits if_splits)

lemma decode_Inl: "decodePolicyDecision rs = Inl e \<Longrightarrow> errors_Is e ErrInvalidPolicyDecision"
  by (auto simp: decodePolicyDecision_def split: option.splits if_splits sum.splits
      dest: decodeReason_Inl decodeStepUp_Inl) (simp_all add: invalidDecision_def)

lemma decode_defined: "resultDefined rs \<Longrightarrow> decodePolicyDecision rs \<noteq> Inr None"
  by (auto simp: decodePolicyDecision_def split: option.splits if_splits sum.splits)

lemma decode_Inr:
  assumes "resultDefined rs"
  shows "decodePolicyDecision rs = Inr (Some r) \<longleftrightarrow> encodes_decision (rs ! 0 ! 0) r"
proof
  assume "decodePolicyDecision rs = Inr (Some r)"
  then show "encodes_decision (rs ! 0 ! 0) r"
    using assms
    by (auto simp: decodePolicyDecision_def encodes_decision_def newResult_def decodeReason_iff decodeStepUp_iff
        split: option.splits if_splits sum.splits)
next
  assume "encodes_decision (rs ! 0 ! 0) r"
  then obtain envelope val where v: "rs ! 0 ! 0 = JObj envelope"
    and e: "as_string (map_of envelope ''matched_rule'') = Some (MatchedRule r)" "MatchedRule r \<noteq> []"
      "as_object (map_of envelope ''result'') = Some val" "as_bool (map_of val ''allow'') = Some (Allowed r)"
    and rr: "decodeReason (map_of val ''reason'') = Inr (Reason r)"
    and su: "decodeStepUp (map_of val ''step_up'') = Inr (resStepUp r)"
    and r: "r = (newResult (Allowed r) (MatchedRule r))\<lparr>Reason := Reason r, resStepUp := resStepUp r\<rparr>"
    unfolding encodes_decision_def decodeReason_iff decodeStepUp_iff by auto
  have "as_object (Some (rs ! 0 ! 0)) = Some envelope" by (simp add: v)
  with assms e rr su show "decodePolicyDecision rs = Inr (Some r)"
    by (simp add: decodePolicyDecision_def del: as_string_Some as_bool_Some as_object_Some) (use r in simp)
qed

text \<open>
  The structured decision contract is decoded exactly. A defined OPA result is accepted as the
  decision \<open>r\<close> if and only if it is an object with a non-empty matched rule and a result object whose
  \<open>allow\<close> is a boolean, whose reason (when present) is a string and whose step-up (when present) is
  an object with a type that is not blank and a string method; every other document is refused with
  an error that is \<open>ErrInvalidPolicyDecision\<close>, so no malformed policy result becomes an allow.
\<close>

theorem decodePolicyDecision_exact:
  assumes "resultDefined rs"
  shows "(decodePolicyDecision rs = Inr (Some r) \<longleftrightarrow> encodes_decision (rs ! 0 ! 0) r) \<and>
    ((\<nexists>r. encodes_decision (rs ! 0 ! 0) r) \<longleftrightarrow>
       (\<exists>e. decodePolicyDecision rs = Inl e \<and> errors_Is e ErrInvalidPolicyDecision))"
proof
  show "decodePolicyDecision rs = Inr (Some r) \<longleftrightarrow> encodes_decision (rs ! 0 ! 0) r"
    by (rule decode_Inr [OF assms])
  show "(\<nexists>r. encodes_decision (rs ! 0 ! 0) r) \<longleftrightarrow>
      (\<exists>e. decodePolicyDecision rs = Inl e \<and> errors_Is e ErrInvalidPolicyDecision)"
  proof (cases "decodePolicyDecision rs")
    case (Inl e)
    then show ?thesis using decode_Inr [OF assms] decode_Inl [OF Inl] by auto
  next
    case (Inr ro)
    then obtain r where "ro = Some r" using decode_defined [OF assms] by (cases ro) auto
    then show ?thesis using decode_Inr [OF assms] Inr by auto
  qed
qed

definition sampleDecision :: json where
  "sampleDecision =
     JObj [(''matched_rule'', JStr ''data.atol.allow''),
           (''result'', JObj [(''allow'', JBool True),
              (''step_up'', JObj [(''type'', JStr ''mfa'')])])]"

theorem decodePolicyDecision_exact_witness:
  "resultDefined [[sampleDecision]] \<and>
   encodes_decision sampleDecision ((newResult True ''data.atol.allow'')\<lparr>resStepUp := Some \<lparr>suType = ''mfa'', suMethod = []\<rparr>\<rparr>)"
proof -
  have d: "resultDefined [[sampleDecision]]" by (simp add: resultDefined_def)
  have "decodePolicyDecision [[sampleDecision]] =
      Inr (Some ((newResult True ''data.atol.allow'')\<lparr>resStepUp := Some \<lparr>suType = ''mfa'', suMethod = []\<rparr>\<rparr>))"
    by code_simp
  with d decodePolicyDecision_exact [OF d,
      of "(newResult True ''data.atol.allow'')\<lparr>resStepUp := Some \<lparr>suType = ''mfa'', suMethod = []\<rparr>\<rparr>"]
  show ?thesis by simp
qed
section \<open>Policy data paths\<close>

text \<open>Reading a document at a path: \<open>None\<close> when a part is missing or is no map.\<close>

fun at_path :: "string list \<Rightarrow> jobj \<Rightarrow> json option" where
  "at_path [] data = Some (JObj data)"
| "at_path [part] data = map_of data part"
| "at_path (part # part' # rest) data = at_path (part' # rest) (nextMap part data)"

text \<open>Two paths of which neither is a prefix of the other.\<close>

fun diverge :: "'a list \<Rightarrow> 'a list \<Rightarrow> bool" where
  "diverge (p # ps) (q # qs) \<longleftrightarrow> p \<noteq> q \<or> diverge ps qs"
| "diverge _ _ \<longleftrightarrow> False"

lemma nextMap_update: "nextMap q (AList.update p v d) = (if p = q then (case v of JObj m \<Rightarrow> m | _ \<Rightarrow> []) else nextMap q d)"
  by (simp add: nextMap_def map_of_update split: json.split)

lemma at_path_set: "ps \<noteq> [] \<Longrightarrow> at_path ps (setNestedParts ps v d) = Some v"
  by (induction ps v d rule: setNestedParts.induct) (simp_all add: map_of_update nextMap_update)

lemma at_path_other: "diverge ps qs \<Longrightarrow> at_path qs (setNestedParts ps v d) = at_path qs d"
proof (induction ps v d arbitrary: qs rule: setNestedParts.induct)
  case (2 p v d)
  then obtain q rest where "qs = q # rest" "p \<noteq> q" by (cases qs) auto
  then show ?case by (cases rest) (auto simp: map_of_update nextMap_update)
next
  case (3 p p' ps v d)
  then obtain q rest where q: "qs = q # rest" and d: "p \<noteq> q \<or> diverge (p' # ps) rest" by (cases qs) auto
  then show ?case using 3(1) by (cases rest) (auto simp: map_of_update nextMap_update)
qed simp

lemma split_on_join:
  "c \<notin> set p \<Longrightarrow> split_on c p = [p]"
  "c \<notin> set p \<Longrightarrow> split_on c (p @ c # rest) = p # split_on c rest"
  by (induction p) (auto split: list.split)

text \<open>
  Policy data is set where its path says and nowhere else. After \<open>setNestedData\<close> the document reads
  back the value at that path, whatever was in the way, and it reads the same as before at every path
  of which the written path is neither an extension nor a prefix.
\<close>

theorem setNestedData_exact:
  "at_path (split_on CHR ''/'' path) (setNestedData path v d) = Some v \<and>
   (\<forall>q. diverge (split_on CHR ''/'' path) q \<longrightarrow> at_path q (setNestedData path v d) = at_path q d)"
  by (simp add: setNestedData_def at_path_set at_path_other)

theorem setNestedData_exact_witness:
  "split_on CHR ''/'' ''atol/plan'' = [''atol'', ''plan''] \<and>
   at_path [''atol'', ''plan''] (setNestedData ''atol/plan'' (JBool True) [(''atol'', JObj [(''x'', JNull)])]) = Some (JBool True) \<and>
   at_path [''atol'', ''x''] (setNestedData ''atol/plan'' (JBool True) [(''atol'', JObj [(''x'', JNull)])]) = Some JNull"
proof -
  have s: "split_on CHR ''/'' ''atol/plan'' = [''atol'', ''plan'']" by code_simp
  have d: "diverge (split_on CHR ''/'' ''atol/plan'') [''atol'', ''x'']" by code_simp
  have x: "at_path [''atol'', ''x''] [(''atol'', JObj [(''x'', JNull)])] = Some JNull" by code_simp
  note all = setNestedData_exact [of "''atol/plan''" "JBool True" "[(''atol'', JObj [(''x'', JNull)])]"]
  show ?thesis using all [THEN conjunct1] all [THEN conjunct2, rule_format, OF d] unfolding s x by blast
qed
section \<open>Bundle generations\<close>

text \<open>Every prepared query of a bundle was prepared by this generation's compiler.\<close>

definition generation_ok :: "('mod, 'c, 'st, 'txn, 'q) OPA \<Rightarrow> ('s, 'm, 'x, 'c, 'st, 'q) PolicyEngine \<Rightarrow> bool" where
  "generation_ok opa pe \<longleftrightarrow>
     (case pBundle pe of
        None \<Rightarrow> True
      | Some bs \<Rightarrow> \<forall>query pq. map_of (bsPrepared bs) query = Some pq \<longrightarrow>
                    (\<exists>st. prepareForEval opa query (bsCompiler bs) st = Inr pq))"

lemma LoadBundle_cases:
  obtains (refused) err where "LoadBundle opa d pd pe = (Some err, pe)"
  | (loaded) b modules adapter compiler where "readBundle opa d = Inr b" "collectModules (bModules b) [] = Inr modules"
      "parseModule opa policyDecisionModulePath = Inr adapter"
      "compileModules opa (AList.update policyDecisionModulePath adapter modules) = Inr compiler"
      "LoadBundle opa d pd pe = (None, pe\<lparr>pBundle := Some \<lparr>bsCompiler = compiler,
         bsStore = newFromObject opa (overlayData pd (case bData b of None \<Rightarrow> [] | Some d \<Rightarrow> d)), bsPrepared = []\<rparr>\<rparr>)"
proof (cases "readBundle opa d")
  case (Inl err)
  then show thesis by (intro refused) (simp add: LoadBundle_def)
next
  case b: (Inr b)
  show thesis
  proof (cases "collectModules (bModules b) []")
    case (Inl err)
    with b show thesis by (intro refused) (simp add: LoadBundle_def)
  next
    case ms: (Inr ms)
    show thesis
    proof (cases "parseModule opa policyDecisionModulePath")
      case (Inl err)
      with b ms show thesis by (intro refused) (simp add: LoadBundle_def)
    next
      case ad: (Inr ad)
      show thesis
        by (cases "compileModules opa (AList.update policyDecisionModulePath ad ms)")
          (use b ms ad in \<open>auto simp: LoadBundle_def intro: refused loaded\<close>)
    qed
  qed
qed

lemma SetPolicyData_cases:
  obtains (refused) err where "SetPolicyData opa path v pe = (Some err, pe)"
  | (committed) bs st where "pBundle pe = Some bs"
      "SetPolicyData opa path v pe = (None, pe\<lparr>pBundle := Some (bs\<lparr>bsStore := st\<rparr>)\<rparr>)"
proof (cases "pBundle pe")
  case None
  then show thesis by (intro refused) (simp add: SetPolicyData_def)
next
  case bs: (Some bs)
  show thesis
  proof (cases "newTransaction opa (bsStore bs)")
    case (Inl err)
    with bs show thesis by (intro refused) (simp add: SetPolicyData_def Let_def)
  next
    case txn: (Inr txn)
    let ?op = "case readData opa (split_on CHR ''/'' path) txn of Inl _ \<Rightarrow> AddOp | Inr _ \<Rightarrow> ReplaceOp"
    show thesis
    proof (cases "writeData opa ?op (split_on CHR ''/'' path) v txn")
      case (Inl err)
      with bs txn show thesis by (intro refused) (simp add: SetPolicyData_def Let_def)
    next
      case w: (Inr txn')
      show thesis
        by (cases "commitData opa txn' (bsStore bs)")
          (use bs txn w in \<open>auto simp: SetPolicyData_def Let_def intro: refused committed\<close>)
    qed
  qed
qed

lemma preparedQuery_frame:
  "preparedQuery opa query bs = (r, bs') \<Longrightarrow> bsCompiler bs' = bsCompiler bs \<and> bsStore bs' = bsStore bs"
  by (auto simp: preparedQuery_def split: option.splits sum.splits)

lemma preparedQuery_generation:
  assumes "preparedQuery opa query bs = (r, bs')"
    and "\<forall>q pq. map_of (bsPrepared bs) q = Some pq \<longrightarrow> (\<exists>st. prepareForEval opa q (bsCompiler bs) st = Inr pq)"
  shows "\<forall>q pq. map_of (bsPrepared bs') q = Some pq \<longrightarrow> (\<exists>st. prepareForEval opa q (bsCompiler bs') st = Inr pq)"
    and "r = Inr pq \<Longrightarrow> \<exists>st. prepareForEval opa query (bsCompiler bs) st = Inr pq"
  using assms by (auto simp: preparedQuery_def map_of_update split: option.splits sum.splits if_splits)

lemma evalQuery_bundle:
  assumes "evalQuery opa unm ctx query input bs state = Some (r, bs', state')"
  shows "\<exists>pr. preparedQuery opa query bs = (pr, bs')"
  using assms by (auto simp: evalQuery_def split: prod.splits sum.splits option.splits)

lemma fallbackCheck_bundle: "pBundle (snd (fallbackCheck unm ctx el input pe)) = pBundle pe"
  by (auto simp: fallbackCheck_def split: prod.split option.split sum.split)

lemma Evaluate_bundle_cases:
  obtains (same) "pBundle (snd (Evaluate opa unm ctx el input pe)) = pBundle pe"
  | (used) bs r where "pBundle pe = Some bs" "pBundle (snd (Evaluate opa unm ctx el input pe)) = Some r"
      "\<exists>pr. preparedQuery opa policyDecisionQuery bs = (pr, r)"
proof (cases "policyServing ctx pe = None \<and> pBundle pe \<noteq> None")
  case False
  then show thesis
    by (intro same) (auto simp: Evaluate_def fallbackCheck_bundle split: option.split)
next
  case True
  then obtain bs where bs: "pBundle pe = Some bs" and g: "policyServing ctx pe = None" by auto
  let ?st = "\<lparr>evZanzibar = pZanzibar pe, evContextTuples = inContextTuples input, evalCtx = Some ctx, calls = 0, trace = []\<rparr>"
  show thesis
  proof (cases "evalQuery opa unm ctx policyDecisionQuery (inputMap input) bs ?st")
    case None
    with bs g show thesis by (intro same) (simp add: Evaluate_def Let_def)
  next
    case (Some t)
    obtain answer bs' st' where t: "t = (answer, bs', st')" by (cases t rule: prod_cases3)
    have "pBundle (snd (Evaluate opa unm ctx el input pe)) = Some bs'"
      using bs g Some t
      by (auto simp: Evaluate_def Let_def fallbackCheck_bundle split: sum.split option.split)
    with bs evalQuery_bundle [OF Some [unfolded t]] show thesis by (intro used)
  qed
qed

inductive policy_step ::
    "('mod, 'c, 'st, 'txn, 'q) OPA \<Rightarrow> (string \<Rightarrow> yamlModel res) \<Rightarrow>
     ('s, 'm, 'x, 'c, 'st, 'q) PolicyEngine \<Rightarrow> ('s, 'm, 'x, 'c, 'st, 'q) PolicyEngine \<Rightarrow> bool"
  for opa unm where
  load: "policy_step opa unm pe (snd (LoadBundle opa d pd pe))"
| set_data: "policy_step opa unm pe (snd (SetPolicyData opa path v pe))"
| evaluate: "policy_step opa unm pe (snd (Evaluate opa unm ctx el input pe))"
| set_gate: "policy_step opa unm pe (SetPolicyServingGate gate pe)"

lemma policy_step_generation:
  assumes "policy_step opa unm pe pe'" and "generation_ok opa pe" shows "generation_ok opa pe'"
  using assms
proof (induction rule: policy_step.induct)
  case (load pe d pd)
  then show ?case by (cases rule: LoadBundle_cases [of opa d pd pe]) (auto simp: generation_ok_def)
next
  case (set_data pe path v)
  then show ?case by (cases rule: SetPolicyData_cases [of opa path v pe]) (auto simp: generation_ok_def)
next
  case (evaluate pe ctx el input)
  then show ?case
    by (cases rule: Evaluate_bundle_cases [of opa unm ctx el input pe])
      (auto simp: generation_ok_def dest: preparedQuery_generation(1))
next
  case (set_gate pe gate)
  then show ?case by (simp add: generation_ok_def SetPolicyServingGate_def)
qed

text \<open>
  C31. A bundle generation is never mixed with another. Starting from a new engine, after any sequence
  of bundle loads, data updates, gate changes and evaluations, every cached prepared query was
  prepared by the compiler of the bundle in force; and a load or data update that fails leaves
  the engine as it was, so a broken bundle or update never half-installs.
\<close>

theorem bundle_generation:
  fixes z :: "('s, 'm, 'x) Engine" and pe :: "('s, 'm, 'x, 'c, 'st, 'q) PolicyEngine"
  assumes "(policy_step opa unm)\<^sup>*\<^sup>* (NewPolicyEngine z) pe"
  shows "generation_ok opa pe \<and>
     (\<forall>d pd err pe'. LoadBundle opa d pd pe = (Some err, pe') \<longrightarrow> pe' = pe) \<and>
     (\<forall>path v err pe'. SetPolicyData opa path v pe = (Some err, pe') \<longrightarrow> pe' = pe)"
proof (intro conjI allI impI)
  show "generation_ok opa pe"
    using assms by (induction rule: rtranclp_induct) (auto simp: NewPolicyEngine_def generation_ok_def intro: policy_step_generation [unfolded generation_ok_def])
  show "pe' = pe" if "LoadBundle opa d pd pe = (Some err, pe')" for d pd err pe'
    using that by (cases rule: LoadBundle_cases [of opa d pd pe]) auto
  show "pe' = pe" if "SetPolicyData opa path v pe = (Some err, pe')" for path v err pe'
    using that by (cases rule: SetPolicyData_cases [of opa path v pe]) auto
qed
section \<open>A sample OPA\<close>

text \<open>
  An OPA whose bundles hold one policy: allow what \<open>zanzibar.check\<close> answers on the input, and fail on
  a built-in error. Its store is the data document, whose writes need the parent to exist.
\<close>

definition checkPolicy :: "jobj \<Rightarrow> opaRun" where
  "checkPolicy input =
     (let field = (\<lambda>k. case map_of input k of None \<Rightarrow> JNull | Some v \<Rightarrow> v) in
      CallCheck (field ''user'') (field ''relation'') (field ''object'')
        (\<lambda>answer. case answer of
           Inl err \<Rightarrow> Return (Inl err)
         | Inr b \<Rightarrow> Return (Inr [[JObj [(''matched_rule'', JStr ''data.atol.allow''),
                                         (''result'', JObj [(''allow'', JBool b)])]]])))"

definition sampleOPA :: "(string, string, jobj, jobj, string) OPA" where
  "sampleOPA =
     \<lparr>readBundle = (\<lambda>d. if d = [] then Inl (ExternalError STR ''empty bundle'')
        else Inr \<lparr>bData = None, bModules = [\<lparr>mfPackage = ''data.atol'', mfPath = ''policy.rego'', mfParsed = d\<rparr>]\<rparr>),
      parseModule = (\<lambda>_. Inr []),
      compileModules = (\<lambda>ms. Inr (concat (map snd ms))),
      newFromObject = (\<lambda>d. d), newTransaction = Inr,
      readData = (\<lambda>p t. case at_path p t of None \<Rightarrow> Inl (ExternalError STR ''not found'') | Some v \<Rightarrow> Inr v),
      writeData = (\<lambda>_ p v t. case at_path (butlast p) t of
          Some (JObj _) \<Rightarrow> Inr (setNestedParts p v t) | _ \<Rightarrow> Inl (ExternalError STR ''not found'')),
      commitData = (\<lambda>t _. Inr t), prepareForEval = (\<lambda>_ c _. Inr c), evalPrepared = (\<lambda>_ _. checkPolicy)\<rparr>"

type_synonym sample_policy = "(MemoryStore, (string \<times> StoredModel) list, nat, string, jobj, string) PolicyEngine"

definition loadedPolicy :: sample_policy where
  "loadedPolicy = (NewPolicyEngine readyEngine)\<lparr>pBundle := Some \<lparr>bsCompiler = ''rego'', bsStore = [], bsPrepared = []\<rparr>\<rparr>"

lemma loadedPolicy_load: "LoadBundle sampleOPA ''rego'' [] (NewPolicyEngine readyEngine) = (None, loadedPolicy)"
  by (simp add: LoadBundle_def sampleOPA_def loadedPolicy_def overlayData_def policyDecisionPackage_def
      policyDecisionModulePath_def Let_def)

theorem bundle_generation_witness:
  "(policy_step sampleOPA sampleDecoder)\<^sup>*\<^sup>* (NewPolicyEngine readyEngine) loadedPolicy \<and>
   generation_ok sampleOPA loadedPolicy \<and>
   LoadBundle sampleOPA [] [] loadedPolicy = (Some (Wrapf STR ''read bundle: %w'' [] (ExternalError STR ''empty bundle'')), loadedPolicy)"
proof -
  have "policy_step sampleOPA sampleDecoder (NewPolicyEngine readyEngine) loadedPolicy"
    using policy_step.load [of sampleOPA sampleDecoder "NewPolicyEngine readyEngine" "''rego''" "[]"]
    by (simp add: loadedPolicy_load)
  then have st: "(policy_step sampleOPA sampleDecoder)\<^sup>*\<^sup>* (NewPolicyEngine readyEngine) loadedPolicy" by blast
  have "LoadBundle sampleOPA [] [] loadedPolicy =
      (Some (Wrapf STR ''read bundle: %w'' [] (ExternalError STR ''empty bundle'')), loadedPolicy)"
    by (simp add: LoadBundle_def sampleOPA_def)
  with st bundle_generation [OF st] show ?thesis by blast
qed

section \<open>The audit trail of an evaluation\<close>

lemma modelForOperation_idem:
  assumes "modelForOperation unm ctx e = (r, e')"
  shows "modelForOperation unm ctx e' = (r, e')"
proof (cases r)
  case (Inr tm)
  with assms have "modelForOperation unm ctx e = (Inr tm, e')" by simp
  from modelForOperation_again [OF this refl refl refl refl] Inr show ?thesis by simp
next
  case (Inl err)
  have "snd (RefreshModelForTenant unm ctx tid e) = e" if "fst (RefreshModelForTenant unm ctx tid e) = Inl x" for tid x
  proof -
    have "snd (ActivateModelForTenant unm tid d rv e) = e" if "fst (ActivateModelForTenant unm tid d rv e) \<noteq> None" for d rv
      using that by (cases rule: Activate_cases [of unm tid d rv e]) auto
    with that show ?thesis
      by (auto simp: RefreshModelForTenant_def split: if_splits option.splits sum.splits prod.splits) (metis fst_conv option.distinct(1) snd_conv)
  qed
  with assms Inl have "e' = e"
    by (auto simp: modelForOperation_def split: if_splits prod.splits sum.splits) (metis fst_conv snd_conv)
  with assms show ?thesis by simp
qed

text \<open>The body of a relationship check once the model is resolved.\<close>

definition relationBody ::
    "Context \<Rightarrow> Tuple list \<Rightarrow> string \<Rightarrow> string \<Rightarrow> string \<Rightarrow> tenantModel \<Rightarrow> ('s, 'm, 'x) Engine \<Rightarrow> bool res option" where
  "relationBody ctx contextTuples user relation object tm e =
     (case ParseUserKey user of (userType, userID, _) \<Rightarrow>
        (case ParseObjectKey object of (objectType, objectID) \<Rightarrow>
           map_option fst
             (if contextTuples \<noteq> []
              then CheckWithContext (checkerOf tm e) (ctxErr ctx) (tuplesState e) contextTuples
                     userType userID relation objectType objectID 0
              else Check (checkerOf tm e) (ctxErr ctx) (tuplesState e) userType userID relation objectType objectID 0)))"

lemma relationCheck_withModel:
  "relationCheck unm ctx cts u r ob e = withModel unm ctx (relationBody ctx cts u r ob) e"
  by (cases "cts = []")
    (auto simp: relationCheck_def Check_Engine_def CheckWithContextTuples_def withModel_def relationBody_def
      split: option.split prod.split sum.split)

lemma withModel_again:
  assumes "withModel unm ctx k e = (a, e')"
    and "\<And>tm c. k' tm (e\<lparr>cache := c\<rparr>) = k' tm e"
  shows "withModel unm ctx k' e' = (fst (withModel unm ctx k' e), e')"
proof (cases "requireTenantServing ctx e")
  case (Some err)
  with assms(1) show ?thesis by (auto simp: withModel_def)
next
  case None
  obtain r e1 where m: "modelForOperation unm ctx e = (r, e1)" by (cases "modelForOperation unm ctx e")
  with assms(1) None have e': "e' = e1" by (auto simp: withModel_def split: sum.splits option.splits)
  obtain c where c: "e1 = e\<lparr>cache := c\<rparr>" using modelForOperation_frame [OF m] by blast
  have g: "requireTenantServing ctx e1 = None" using None by (cases "servingGate e") (simp_all add: c requireTenantServing_def)
  show ?thesis
    unfolding e' using None g m modelForOperation_idem [OF m]
    by (auto simp: withModel_def split: sum.split option.split)
qed

lemma relationBody_cache: "relationBody ctx cts u r ob tm (e\<lparr>cache := c\<rparr>) = relationBody ctx cts u r ob tm e"
  by (simp add: relationBody_def checkerOf_def split: prod.split)

text \<open>A check leaves the engine where every further check answers as before and changes nothing.\<close>

lemma relationCheck_again:
  assumes "relationCheck unm ctx cts u r ob e = (a, e')"
  shows "relationCheck unm ctx cts' u' r' ob' e' = (fst (relationCheck unm ctx cts' u' r' ob' e), e')"
  using assms unfolding relationCheck_withModel by (rule withModel_again) (rule relationBody_cache)

definition is_check_line :: "trace_line \<Rightarrow> bool" where
  "is_check_line l \<longleftrightarrow> (\<exists>u r ob a. l = CheckLine u r ob a)"

text \<open>A line of the trail that tells what the engine answers.\<close>

definition truthful :: "(string \<Rightarrow> yamlModel res) \<Rightarrow> Context \<Rightarrow> Tuple list \<Rightarrow> ('s, 'm, 'x) Engine \<Rightarrow> trace_line \<Rightarrow> bool" where
  "truthful unm ctx cts e l \<longleftrightarrow>
     (\<forall>u r ob a. l = CheckLine u r ob a \<longrightarrow> fst (relationCheck unm ctx cts u r ob e) = Some a)"

lemma checkAccessFn_step:
  assumes "checkAccessFn unm bctx u r ob s = Some (a, s')" and "evalCtx s = Some ctx"
  obtains (badarg) err where "s' = s" "a = Inl err"
  | (checked) us rs obs answer e where "relationCheck unm ctx (evContextTuples s) us rs obs (evZanzibar s) = (Some answer, e)"
      "a = Inr (answer = Inr True)"
      "s' = s\<lparr>evZanzibar := e, calls := int32 (calls s + 1), trace := trace s @ [CheckLine us rs obs answer]\<rparr>"
proof (cases "as_string (Some u) = None \<or> as_string (Some r) = None \<or> as_string (Some ob) = None")
  case True
  with assms(1) show thesis by (auto simp: checkAccessFn_def split: option.splits intro: badarg)
next
  case False
  then obtain us rs obs where strs: "u = JStr us" "r = JStr rs" "ob = JStr obs" by auto
  obtain ao e where rc: "relationCheck unm ctx (evContextTuples s) us rs obs (evZanzibar s) = (ao, e)" by fastforce
  with assms strs obtain answer where "ao = Some answer"
    by (cases ao) (auto simp: checkAccessFn_def as_string_def)
  with assms strs rc show thesis
    by (cases answer; intro checked [of us rs obs answer e]) (auto simp: checkAccessFn_def as_string_def)
qed

lemma runOPA_trace:
  assumes "runOPA run unm bctx s = Some (rs, s')" and "evalCtx s = Some ctx"
    and "\<And>us rs obs. fst (relationCheck unm ctx (evContextTuples s) us rs obs (evZanzibar s)) =
           fst (relationCheck unm ctx (evContextTuples s) us rs obs e0)"
  shows "\<exists>ls. trace s' = trace s @ ls \<and> calls s' = (if ls = [] then calls s else int32 (calls s + int (length ls))) \<and>
     (\<forall>l \<in> set ls. is_check_line l \<and> truthful unm ctx (evContextTuples s) e0 l)"
  using assms
proof (induction run arbitrary: s)
  case (Return r)
  then show ?case by (auto intro: exI [of _ "[]"])
next
  case (CallCheck u r ob k)
  from CallCheck.prems(1) obtain a s1 where st: "checkAccessFn unm bctx u r ob s = Some (a, s1)"
    and rest: "runOPA (k a) unm bctx s1 = Some (rs, s')"
    by (auto split: option.splits prod.splits)
  from st CallCheck.prems(2) show ?case
  proof (cases rule: checkAccessFn_step)
    case (badarg err)
    with rest have "runOPA (k a) unm bctx s = Some (rs, s')" by simp
    from CallCheck.IH [OF _ this CallCheck.prems(2,3)] show ?thesis by blast
  next
    case (checked us rl obs answer e)
    let ?cts = "evContextTuples s"
    have again: "fst (relationCheck unm ctx ?cts us' rs' obs' e) = fst (relationCheck unm ctx ?cts us' rs' obs' e0)" for us' rs' obs'
      using relationCheck_again [OF checked(1), of ?cts us' rs' obs'] CallCheck.prems(3) by simp
    obtain ls where ls: "trace s' = trace s1 @ ls" "calls s' = (if ls = [] then calls s1 else int32 (calls s1 + int (length ls)))"
      "\<forall>l \<in> set ls. is_check_line l \<and> truthful unm ctx ?cts e0 l"
      using CallCheck.IH [of "k a" s1] rest CallCheck.prems(2) again checked(3) by auto
    have "truthful unm ctx ?cts e0 (CheckLine us rl obs answer)"
      using CallCheck.prems(3) [of us rl obs] checked(1) by (simp add: truthful_def)
    moreover have "int32 (int32 (calls s + 1) + int (length ls)) = int32 (calls s + int (length (CheckLine us rl obs answer # ls)))"
      by (simp add: int32_def mod_simps algebra_simps)
    ultimately show ?thesis
      using ls checked(3) by (intro exI [of _ "CheckLine us rl obs answer # ls"]) (auto simp: is_check_line_def)
  qed
qed

section \<open>Evaluations\<close>

lemma fallback_result:
  assumes "fallbackCheck unm ctx el input pe = (Some (Inr r), pe')"
  shows "fst (relationCheck unm ctx (inContextTuples input) (inUser input) (inRelation input) (inObject input) (pZanzibar pe)) =
      Some (Inr (Allowed r))"
    and "MatchedRule r = ''zanzibar.check''" and "ZanzibarCalls r = 1" and "resStepUp r = None" and "EvaluatedRulePaths r = []"
    and "Trace r = [CheckLine (inUser input) (inRelation input) (inObject input) (Inr (Allowed r))]"
  using assms
  by (auto simp: fallbackCheck_def newResult_def split: prod.splits option.splits sum.splits)

lemma fallback_SafeInt32:
  "fst (fallbackCheck unm ctx el input pe) = Some (Inr r) \<Longrightarrow> - (2 ^ 31) \<le> EvalUs r \<and> EvalUs r < 2 ^ 31"
  by (auto simp: fallbackCheck_def newResult_def SafeInt32From64_def int32_id split: prod.splits option.splits sum.splits if_splits)

text \<open>The state one evaluation starts with, and the document OPA is asked about.\<close>

definition startState :: "Context \<Rightarrow> EvalInput \<Rightarrow> ('s, 'm, 'x, 'c, 'st, 'q) PolicyEngine \<Rightarrow> ('s, 'm, 'x) evalState" where
  "startState ctx input pe =
     \<lparr>evZanzibar = pZanzibar pe, evContextTuples = inContextTuples input, evalCtx = Some ctx, calls = 0, trace = []\<rparr>"

lemma inputMap_lookup:
  "map_of (inputMap input) k =
     (case map_of (standardFields input) k of Some v \<Rightarrow> Some v | None \<Rightarrow> map_of (inExtra input) k)"
  by (simp add: inputMap_def standardFields_def map_of_update)

lemma evalQuery_run:
  assumes "evalQuery opa unm ctx query input bs s = Some (answer, bs', s')"
  shows "(\<exists>err. answer = Inl err \<and> s' = s \<and> fst (preparedQuery opa query bs) = Inl err) \<or>
    (\<exists>pq. preparedQuery opa query bs = (Inr pq, bs') \<and>
       runOPA (evalPrepared opa pq (bsStore bs) input) unm ctx s = Some (answer, s'))"
  using assms by (auto simp: evalQuery_def split: prod.splits sum.splits option.splits dest: preparedQuery_frame)

text \<open>After an evaluation the relationship engine answers every check as before.\<close>

lemma runOPA_answers:
  assumes "runOPA run unm bctx s = Some (rs, s')" and "evalCtx s = Some ctx"
  shows "fst (relationCheck unm ctx cts us r obs (evZanzibar s')) = fst (relationCheck unm ctx cts us r obs (evZanzibar s))"
  using assms
proof (induction run arbitrary: s)
  case (CallCheck u rl ob k)
  from CallCheck.prems(1) obtain a s1 where st: "checkAccessFn unm bctx u rl ob s = Some (a, s1)"
    and rest: "runOPA (k a) unm bctx s1 = Some (rs, s')"
    by (auto split: option.splits prod.splits)
  from st CallCheck.prems(2) show ?case
  proof (cases rule: checkAccessFn_step)
    case (badarg err)
    with CallCheck.IH [OF _ rest] CallCheck.prems(2) show ?thesis by simp
  next
    case (checked us' rl' obs' answer e)
    with CallCheck.IH [OF _ rest] CallCheck.prems(2) relationCheck_again [OF checked(1), of cts us r obs] show ?thesis by simp
  qed
qed simp

lemma evalQuery_answers:
  assumes "evalQuery opa unm ctx query input bs (startState ctx inp pe) = Some (answer, bs', s')"
  shows "fst (relationCheck unm ctx cts us r obs (evZanzibar s')) = fst (relationCheck unm ctx cts us r obs (pZanzibar pe))"
  using evalQuery_run [OF assms] runOPA_answers [of _ unm ctx "startState ctx inp pe" answer s' ctx cts us r obs]
  by (auto simp: startState_def)

lemma Evaluate_bundle:
  assumes "policyServing ctx pe = None" and "pBundle pe = Some bs"
    and "evalQuery opa unm ctx policyDecisionQuery (inputMap input) bs (startState ctx input pe) = Some (answer, bs', s')"
  shows "Evaluate opa unm ctx el input pe =
     (let pe' = pe\<lparr>pZanzibar := evZanzibar s', pBundle := Some bs'\<rparr> in
      case answer of
        Inl err \<Rightarrow> (Some (Inl (evalError input err)), pe')
      | Inr rs \<Rightarrow>
          if \<not> resultDefined rs then fallbackCheck unm ctx el input pe'
          else case decodePolicyDecision rs of
            Inl err \<Rightarrow> (Some (Inl (evalError input err)), pe')
          | Inr None \<Rightarrow> (None, pe')
          | Inr (Some decision) \<Rightarrow>
              (case SafeInt32From64 el of
                 Inl err \<Rightarrow> (Some (Inl (Wrapf STR ''policy evaluation duration: %w'' [] err)), pe')
               | Inr evalUs \<Rightarrow>
                   (Some (Inr (decision
                      \<lparr>Trace := trace s' @ [EvalLine policyDecisionQuery (MatchedRule decision) (Allowed decision) evalUs],
                       ZanzibarCalls := calls s', EvalUs := evalUs, EvaluatedRulePaths := [policyDecisionQuery]\<rparr>)), pe')))"
  using assms by (simp add: Evaluate_def startState_def Let_def)

text \<open>The three ways an evaluation ends with a result.\<close>

lemma Evaluate_result_cases:
  assumes "Evaluate opa unm ctx el input pe = (Some (Inr r), pe')"
  obtains (no_bundle) "policyServing ctx pe = None" "pBundle pe = None" "fallbackCheck unm ctx el input pe = (Some (Inr r), pe')"
  | (undefined) bs rs bs' s' where "policyServing ctx pe = None" "pBundle pe = Some bs"
      "evalQuery opa unm ctx policyDecisionQuery (inputMap input) bs (startState ctx input pe) = Some (Inr rs, bs', s')"
      "\<not> resultDefined rs" "fallbackCheck unm ctx el input (pe\<lparr>pZanzibar := evZanzibar s', pBundle := Some bs'\<rparr>) = (Some (Inr r), pe')"
  | (decided) bs rs bs' s' d evalUs where "policyServing ctx pe = None" "pBundle pe = Some bs"
      "evalQuery opa unm ctx policyDecisionQuery (inputMap input) bs (startState ctx input pe) = Some (Inr rs, bs', s')"
      "resultDefined rs" "encodes_decision (rs ! 0 ! 0) d" "SafeInt32From64 el = Inr evalUs"
      "r = d\<lparr>Trace := trace s' @ [EvalLine policyDecisionQuery (MatchedRule d) (Allowed d) evalUs],
             ZanzibarCalls := calls s', EvalUs := evalUs, EvaluatedRulePaths := [policyDecisionQuery]\<rparr>"
proof (cases "policyServing ctx pe")
  case (Some err)
  with assms show thesis by (simp add: Evaluate_def)
next
  case g: None
  show thesis
  proof (cases "pBundle pe")
    case None
    with g assms show thesis by (intro no_bundle) (simp_all add: Evaluate_def)
  next
    case bs: (Some bs)
    show thesis
    proof (cases "evalQuery opa unm ctx policyDecisionQuery (inputMap input) bs (startState ctx input pe)")
      case None
      with g bs assms show thesis by (simp add: Evaluate_def startState_def Let_def)
    next
      case (Some t)
      obtain answer bs' s' where t: "t = (answer, bs', s')" by (cases t rule: prod_cases3)
      note ev = Evaluate_bundle [OF g bs Some [unfolded t], of el]
      from assms obtain rs where rs: "answer = Inr rs" by (cases answer) (auto simp: ev Let_def)
      show thesis
      proof (cases "resultDefined rs")
        case False
        with assms g bs Some t rs show thesis by (intro undefined) (auto simp: ev Let_def)
      next
        case True
        with assms rs obtain d evalUs where d: "decodePolicyDecision rs = Inr (Some d)" and us: "SafeInt32From64 el = Inr evalUs"
          by (auto simp: ev Let_def split: sum.splits option.splits)
        from assms rs True d us have r: "r = d\<lparr>Trace := trace s' @ [EvalLine policyDecisionQuery (MatchedRule d) (Allowed d) evalUs],
             ZanzibarCalls := calls s', EvalUs := evalUs, EvaluatedRulePaths := [policyDecisionQuery]\<rparr>"
          by (simp add: ev Let_def)
        show thesis by (rule decided [OF g bs _ True _ us r]) (use Some t rs d decode_Inr [OF True] in auto)
      qed
    qed
  qed
qed

text \<open>
  C10. An evaluation never invents an allow. Whenever \<open>Evaluate\<close> returns a result, the serving gate let
  the tenant through. If no bundle is loaded, or OPA answered on the authoritative input that the decision is undefined, the result is the answer of the
  bare relationship check; otherwise OPA answered with a well-shaped document, and the result is the decision of this document. So an OPA error, a
  malformed document or a gate refusal never ends in a result, in particular not in the fallback. In the authoritative input the standard fields are
  those of the request, whatever the extra fields say.
\<close>

theorem Evaluate_sound:
  assumes "Evaluate opa unm ctx el input pe = (Some (Inr r), pe')"
  shows "policyServing ctx pe = None \<and>
    ((pBundle pe = None \<or>
      (\<exists>bs pq rs s'. pBundle pe = Some bs \<and> fst (preparedQuery opa policyDecisionQuery bs) = Inr pq \<and>
        runOPA (evalPrepared opa pq (bsStore bs) (inputMap input)) unm ctx (startState ctx input pe) = Some (Inr rs, s') \<and> \<not> resultDefined rs)) \<and>
     fst (relationCheck unm ctx (inContextTuples input) (inUser input) (inRelation input) (inObject input) (pZanzibar pe)) =
       Some (Inr (Allowed r)) \<and> MatchedRule r = ''zanzibar.check'' \<and> resStepUp r = None \<or>
     (\<exists>bs pq rs s' d. pBundle pe = Some bs \<and> fst (preparedQuery opa policyDecisionQuery bs) = Inr pq \<and>
        runOPA (evalPrepared opa pq (bsStore bs) (inputMap input)) unm ctx (startState ctx input pe) = Some (Inr rs, s') \<and>
        resultDefined rs \<and> encodes_decision (rs ! 0 ! 0) d \<and> Allowed r = Allowed d \<and> MatchedRule r = MatchedRule d \<and>
        Reason r = Reason d \<and> resStepUp r = resStepUp d)) \<and>
    (\<forall>k v. map_of (standardFields input) k = Some v \<longrightarrow> map_of (inputMap input) k = Some v)"
  (is "?served \<and> (?fallback \<or> ?decision) \<and> ?input")
proof (intro conjI)
  show ?input by (simp add: inputMap_lookup)
  from assms show ?served by (cases rule: Evaluate_result_cases) auto
  from assms show "?fallback \<or> ?decision"
  proof (cases rule: Evaluate_result_cases)
    case no_bundle
    then show ?thesis using fallback_result(1,2,4) [OF no_bundle(3)] by simp
  next
    case (undefined bs rs bs' s')
    obtain pq where "preparedQuery opa policyDecisionQuery bs = (Inr pq, bs')"
      "runOPA (evalPrepared opa pq (bsStore bs) (inputMap input)) unm ctx (startState ctx input pe) = Some (Inr rs, s')"
      using evalQuery_run [OF undefined(3)] by auto
    moreover have "fst (relationCheck unm ctx (inContextTuples input) (inUser input) (inRelation input) (inObject input) (evZanzibar s')) =
        Some (Inr (Allowed r))"
      using fallback_result(1) [OF undefined(5)] by simp
    ultimately show ?thesis
      using fallback_result(2,4) [OF undefined(5)] evalQuery_answers [OF undefined(3)] undefined(2,4) by auto
  next
    case (decided bs rs bs' s' d evalUs)
    then obtain pq where "preparedQuery opa policyDecisionQuery bs = (Inr pq, bs')"
      "runOPA (evalPrepared opa pq (bsStore bs) (inputMap input)) unm ctx (startState ctx input pe) = Some (Inr rs, s')"
      using evalQuery_run [OF decided(3)] by auto
    with decided show ?thesis
      by (intro disjI2 exI [of _ bs] exI [of _ pq] exI [of _ rs] exI [of _ s'] exI [of _ d]) simp
  qed
qed

text \<open>
  The audit trail of a decision is truthful. The trace of every result \<open>Evaluate\<close> returns holds one
  line per relationship check that was made, the reported number of checks is the number of those lines
  (as a 32-bit integer), and each line gives the answer that the relationship engine has for that
  question, errors included, in the tenant of the caller.
\<close>

theorem Evaluate_audit:
  assumes "Evaluate opa unm ctx el input pe = (Some (Inr r), pe')"
  shows "ZanzibarCalls r = int32 (int (length (filter is_check_line (Trace r)))) \<and>
    (\<forall>l \<in> set (Trace r). truthful unm ctx (inContextTuples input) (pZanzibar pe) l)"
  using assms
proof (cases rule: Evaluate_result_cases)
  case no_bundle
  from fallback_result [OF no_bundle(3)] show ?thesis by (simp add: truthful_def is_check_line_def int32_def)
next
  case (undefined bs rs bs' s')
  have "fst (relationCheck unm ctx (inContextTuples input) (inUser input) (inRelation input) (inObject input) (evZanzibar s')) =
      Some (Inr (Allowed r))"
    using fallback_result(1) [OF undefined(5)] by simp
  with fallback_result(3,6) [OF undefined(5)] evalQuery_answers [OF undefined(3)] show ?thesis
    by (simp add: truthful_def is_check_line_def int32_def)
next
  case (decided bs rs bs' s' d evalUs)
  then obtain pq where "runOPA (evalPrepared opa pq (bsStore bs) (inputMap input)) unm ctx (startState ctx input pe) = Some (Inr rs, s')"
    using evalQuery_run [OF decided(3)] by auto
  from runOPA_trace [OF this, of ctx "pZanzibar pe"] obtain ls where ls: "trace s' = ls"
    "calls s' = (if ls = [] then 0 else int32 (int (length ls)))"
    "\<forall>l \<in> set ls. is_check_line l \<and> truthful unm ctx (inContextTuples input) (pZanzibar pe) l"
    by (auto simp: startState_def)
  then have "filter is_check_line ls = ls" by simp
  with ls decided(7) show ?thesis by (auto simp: truthful_def is_check_line_def int32_def)
qed

text \<open>A request of the sample owner, with a forged user among its extra fields.\<close>

definition catInput :: EvalInput where
  "catInput = \<lparr>inUser = ''user:cat'', inRelation = ''owner'', inObject = ''doc:1'', inResourceType = ''doc'',
     inResourceID = ''1'', inContextTuples = [], inExtra = [(''user'', JStr ''user:root'')]\<rparr>"

lemma readyEngine_cat: "Check_Engine sampleDecoder acme ''user:cat'' ''owner'' ''doc:1'' readyEngine = (Some (Inr True), readyEngine)"
proof -
  have p: "ParseUserKey ''user:cat'' = (''user'', ''cat'', [])" "ParseObjectKey ''doc:1'' = (''doc'', ''1'')" by code_simp+
  have cl: "clean ''doc'' ''1''" by (simp add: clean_def)
  have rl: "directRule \<in> rules sample_model ''doc'' ''owner''" by code_simp
  have t: "tup ''doc'' ''1'' ''owner'' ''user'' ''cat'' [] \<in> all_tuples eng_store"
    using eng_store_spec by (simp add: eng_tuples_def)
  have "grants sample_model (all_tuples eng_store) ''user'' ''cat'' (''doc'', ''1'', ''owner'')"
    by (rule grants.direct [OF rl _ t]) (simp_all add: directRule_def matchesFilter_iff userFilter_def tup_def)
  moreover have "\<forall>k. ctxErr acme k = None" by (simp add: acme_def)
  ultimately show ?thesis
    using Check_Engine_grants [OF _ readyEngine_model _ _ p cl, of "''owner''"] eng_store_spec
    by (simp add: requireTenantServing_def)
qed

lemma cat_allowed:
  "\<exists>r pe'. Evaluate sampleOPA sampleDecoder acme 7 catInput loadedPolicy = (Some (Inr r), pe') \<and> Allowed r \<and>
     MatchedRule r = ''data.atol.allow'' \<and> ZanzibarCalls r = 1"
proof -
  have im: "map_of (inputMap catInput) ''user'' = Some (JStr ''user:cat'')" "map_of (inputMap catInput) ''relation'' = Some (JStr ''owner'')"
    "map_of (inputMap catInput) ''object'' = Some (JStr ''doc:1'')" by code_simp+
  have z: "pZanzibar loadedPolicy = readyEngine" by (simp add: loadedPolicy_def NewPolicyEngine_def)
  have ca: "checkAccessFn sampleDecoder acme (JStr ''user:cat'') (JStr ''owner'') (JStr ''doc:1'') (startState acme catInput loadedPolicy) =
      Some (Inr True, (startState acme catInput loadedPolicy)\<lparr>calls := 1, trace := [CheckLine ''user:cat'' ''owner'' ''doc:1'' (Inr True)]\<rparr>)"
    unfolding checkAccessFn_def as_string_JStr option.case Let_def
    by (simp add: startState_def z catInput_def relationCheck_def readyEngine_cat int32_def)
  have "runOPA (checkPolicy (inputMap catInput)) sampleDecoder acme (startState acme catInput loadedPolicy) =
      Some (Inr [[JObj [(''matched_rule'', JStr ''data.atol.allow''), (''result'', JObj [(''allow'', JBool True)])]]],
        (startState acme catInput loadedPolicy)\<lparr>calls := 1, trace := [CheckLine ''user:cat'' ''owner'' ''doc:1'' (Inr True)]\<rparr>)"
    by (simp add: checkPolicy_def im ca Let_def)
  moreover have "decodePolicyDecision [[JObj [(''matched_rule'', JStr ''data.atol.allow''), (''result'', JObj [(''allow'', JBool True)])]]] =
      Inr (Some (newResult True ''data.atol.allow''))" by code_simp
  ultimately show ?thesis
    by (simp add: Evaluate_def policyServing_def evalQuery_def preparedQuery_def sampleOPA_def loadedPolicy_def NewPolicyEngine_def
        startState_def resultDefined_def SafeInt32From64_def newResult_def Let_def)
qed

theorem Evaluate_sound_witness:
  "\<exists>r pe'. Evaluate sampleOPA sampleDecoder acme 7 catInput loadedPolicy = (Some (Inr r), pe') \<and> Allowed r \<and>
     policyServing acme loadedPolicy = None \<and> map_of (inputMap catInput) ''user'' = Some (JStr ''user:cat'')"
proof -
  obtain r pe' where ev: "Evaluate sampleOPA sampleDecoder acme 7 catInput loadedPolicy = (Some (Inr r), pe')" "Allowed r"
    using cat_allowed by blast
  have "map_of (standardFields catInput) ''user'' = Some (JStr ''user:cat'')" by code_simp
  with ev Evaluate_sound [OF ev(1)] show ?thesis by blast
qed

theorem Evaluate_audit_witness:
  "\<exists>r pe'. Evaluate sampleOPA sampleDecoder acme 7 catInput loadedPolicy = (Some (Inr r), pe') \<and>
     int32 (int (length (filter is_check_line (Trace r)))) = 1 \<and>
     (\<forall>l \<in> set (Trace r). truthful sampleDecoder acme [] readyEngine l)"
proof -
  obtain r pe' where ev: "Evaluate sampleOPA sampleDecoder acme 7 catInput loadedPolicy = (Some (Inr r), pe')" "ZanzibarCalls r = 1"
    using cat_allowed by blast
  have "pZanzibar loadedPolicy = readyEngine" "inContextTuples catInput = []"
    by (simp_all add: loadedPolicy_def NewPolicyEngine_def catInput_def)
  with ev Evaluate_audit [OF ev(1)] show ?thesis by auto
qed

end
