(* ===== verification/Serving_Gate.thy ===== *)
theory Serving_Gate
  imports Memory_Store
begin

text \<open>
  The fail-closed serving gate of \<open>sync/tenant_serving_gate.go\<close>: binding a tenant, renewing a
  challenge-bound lease, restricting a tenant for good, and the test every decision passes. Times
  are nanoseconds since the Unix epoch. The identifier parser (\<open>github.com/oklog/ulid\<close>) is the
  parameter \<open>ulid_ParseStrict\<close>, and a protobuf timestamp is what its \<open>CheckValid\<close> and \<open>AsTime\<close>
  answer.
\<close>

section \<open>The gate\<close>

definition seconds :: int where
  "seconds = 1000000000"

definition maxServingLease :: int where
  "maxServingLease = 30 * seconds"

text \<open>\<open>time.Time{}\<close> is the first of January of the year 1.\<close>

definition zeroTime :: int where
  "zeroTime = - 62135596800 * seconds"

datatype TenantServingState =
  TENANT_SERVING_STATE_UNSPECIFIED | TENANT_SERVING_STATE_ACTIVE | TENANT_SERVING_STATE_RESTRICTED

record TenantServingStateUpdate =
  uState :: TenantServingState
  uEpoch :: int
  uRestrictionRequestId :: string
  uRestrictionReason :: string
  uAuthorityEventId :: string
  uAuthorityAppendOrdinal :: int
  uServingChallenge :: string
  uLeaseExpiresAt :: "int res option"

record TenantServingRestriction =
  rEpoch :: int
  rRequestID :: string
  rReason :: string
  rAuthorityEventID :: string
  rAuthorityAppendOrdinal :: int

text \<open>\<open>TenantServingRestrictedError\<close> with its \<open>Unwrap\<close>.\<close>

definition restrictedError :: "TenantServingRestriction \<Rightarrow> goerror" where
  "restrictedError r = Wrapf STR ''tenant serving is restricted by request %s'' [rRequestID r] ErrTenantServingRestricted"

record TenantServingGate =
  gTenantID :: string
  gLeaseExpiresAt :: int
  gRestriction :: "TenantServingRestriction option"

definition NewTenantServingGate :: TenantServingGate where
  "NewTenantServingGate = \<lparr>gTenantID = [], gLeaseExpiresAt = zeroTime, gRestriction = None\<rparr>"

definition BindTenant :: "string \<Rightarrow> TenantServingGate \<Rightarrow> goerror option \<times> TenantServingGate" where
  "BindTenant tenantID g =
     (if tenantID = [] then (Some (Errorf STR ''bind tenant: tenant ID is empty'' []), g)
      else if gTenantID g \<noteq> [] \<and> gTenantID g \<noteq> tenantID
      then (Some (Wrapf STR ''bind tenant %q: %w'' [tenantID] ErrTenantServingScopeMismatch), g)
      else (None, g\<lparr>gTenantID := tenantID\<rparr>))"

definition requireTenantLocked :: "string \<Rightarrow> TenantServingGate \<Rightarrow> goerror option" where
  "requireTenantLocked tenantID g =
     (if gTenantID g = [] then Some ErrTenantServingLeaseUnavailable
      else if tenantID \<noteq> [] \<and> tenantID \<noteq> gTenantID g
      then Some (Wrapf STR ''tenant %q does not match bound tenant: %w'' [tenantID] ErrTenantServingScopeMismatch)
      else None)"

definition Renew ::
    "int \<Rightarrow> string \<Rightarrow> string \<Rightarrow> TenantServingStateUpdate option \<Rightarrow> TenantServingGate \<Rightarrow> goerror option \<times> TenantServingGate" where
  "Renew now tenantID expectedChallenge update g =
     (case update of
        None \<Rightarrow> (Some (Errorf STR ''renew tenant serving lease: active update required'' []), g)
      | Some u \<Rightarrow>
          if uState u \<noteq> TENANT_SERVING_STATE_ACTIVE
          then (Some (Errorf STR ''renew tenant serving lease: active update required'' []), g)
          else if uEpoch u \<noteq> 0 \<or> uRestrictionRequestId u \<noteq> [] \<or> uRestrictionReason u \<noteq> [] \<or>
                  uAuthorityEventId u \<noteq> [] \<or> uAuthorityAppendOrdinal u \<noteq> 0
          then (Some (Errorf STR ''renew tenant serving lease: active update contains restriction authority'' []), g)
          else if expectedChallenge = [] \<or> uServingChallenge u \<noteq> expectedChallenge
          then (Some (Errorf STR ''renew tenant serving lease: challenge mismatch'' []), g)
          else case uLeaseExpiresAt u of
            None \<Rightarrow> (Some (Errorf STR ''renew tenant serving lease: expiration required'' []), g)
          | Some (Inl err) \<Rightarrow> (Some (Wrapf STR ''renew tenant serving lease: invalid expiration: %w'' [] err), g)
          | Some (Inr expiresAt) \<Rightarrow>
              if \<not> expiresAt > now \<or> expiresAt > now + maxServingLease
              then (Some (Errorf STR ''renew tenant serving lease: expiration outside allowed window'' []), g)
              else case requireTenantLocked tenantID g of
                Some err \<Rightarrow> (Some err, g)
              | None \<Rightarrow>
                  (case gRestriction g of
                     Some r \<Rightarrow> (Some (restrictedError r), g)
                   | None \<Rightarrow> (None, g\<lparr>gLeaseExpiresAt := expiresAt\<rparr>)))"

definition validRestrictionReason :: "string \<Rightarrow> bool" where
  "validRestrictionReason reason \<longleftrightarrow>
     reason \<in> {''admitted_target_missing'', ''admitted_source_generation_missing'', ''admitted_model_revision_missing''}"

definition restrictionFromUpdate ::
    "(string \<Rightarrow> goerror option) \<Rightarrow> TenantServingStateUpdate option \<Rightarrow> TenantServingRestriction res" where
  "restrictionFromUpdate ulid_ParseStrict update =
     (case update of
        None \<Rightarrow> Inl (Errorf STR ''restrict tenant serving: restricted update required'' [])
      | Some u \<Rightarrow>
          if uState u \<noteq> TENANT_SERVING_STATE_RESTRICTED
          then Inl (Errorf STR ''restrict tenant serving: restricted update required'' [])
          else if uLeaseExpiresAt u \<noteq> None \<or> uServingChallenge u \<noteq> []
          then Inl (Errorf STR ''restrict tenant serving: restriction contains active lease'' [])
          else if uEpoch u < 1 \<or> uAuthorityAppendOrdinal u < 1
          then Inl (Errorf STR ''restrict tenant serving: positive epoch and authority ordinal required'' [])
          else case ulid_ParseStrict (uRestrictionRequestId u) of
            Some err \<Rightarrow> Inl (Wrapf STR ''restrict tenant serving: invalid request ID: %w'' [] err)
          | None \<Rightarrow>
              (case ulid_ParseStrict (uAuthorityEventId u) of
                 Some err \<Rightarrow> Inl (Wrapf STR ''restrict tenant serving: invalid authority event ID: %w'' [] err)
               | None \<Rightarrow>
                   if \<not> validRestrictionReason (uRestrictionReason u)
                   then Inl (Errorf STR ''restrict tenant serving: invalid reason'' [])
                   else Inr \<lparr>rEpoch = uEpoch u, rRequestID = uRestrictionRequestId u, rReason = uRestrictionReason u,
                             rAuthorityEventID = uAuthorityEventId u,
                             rAuthorityAppendOrdinal = uAuthorityAppendOrdinal u\<rparr>))"

definition Restrict ::
    "(string \<Rightarrow> goerror option) \<Rightarrow> string \<Rightarrow> TenantServingStateUpdate option \<Rightarrow> TenantServingGate \<Rightarrow>
     goerror option \<times> TenantServingGate" where
  "Restrict ulid_ParseStrict tenantID update g =
     (case restrictionFromUpdate ulid_ParseStrict update of
        Inl err \<Rightarrow> (Some err, g)
      | Inr restriction \<Rightarrow>
          (case requireTenantLocked tenantID g of
             Some err \<Rightarrow> (Some err, g)
           | None \<Rightarrow>
               (let apply = (None, g\<lparr>gRestriction := Some restriction, gLeaseExpiresAt := zeroTime\<rparr>) in
                case gRestriction g of
                  None \<Rightarrow> apply
                | Some cur \<Rightarrow>
                    if rEpoch restriction < rEpoch cur then (None, g)
                    else if rEpoch restriction = rEpoch cur
                    then (if restriction = cur then (None, g)
                          else (Some (Errorf STR ''restrict tenant serving: conflicting authority at epoch %d'' []), g))
                    else apply)))"

definition RequireActive :: "int \<Rightarrow> string \<Rightarrow> TenantServingGate \<Rightarrow> goerror option" where
  "RequireActive now tenantID g =
     (case requireTenantLocked tenantID g of
        Some err \<Rightarrow> Some err
      | None \<Rightarrow>
          (case gRestriction g of
             Some r \<Rightarrow> Some (restrictedError r)
           | None \<Rightarrow> if \<not> now < gLeaseExpiresAt g then Some ErrTenantServingLeaseUnavailable else None))"

section \<open>Histories\<close>

text \<open>The calls that change a gate, each at the time it reads the clock.\<close>

datatype gate_op =
    GBind string
  | GRenew string string "TenantServingStateUpdate option"
  | GRestrict string "TenantServingStateUpdate option"

fun gate_step ::
    "(string \<Rightarrow> goerror option) \<Rightarrow> int \<times> gate_op \<Rightarrow> TenantServingGate \<Rightarrow> goerror option \<times> TenantServingGate" where
  "gate_step ulid (now, GBind tid) g = BindTenant tid g"
| "gate_step ulid (now, GRenew tid challenge u) g = Renew now tid challenge u g"
| "gate_step ulid (now, GRestrict tid u) g = Restrict ulid tid u g"

inductive gate_reach :: "(string \<Rightarrow> goerror option) \<Rightarrow> (int \<times> gate_op) list \<Rightarrow> TenantServingGate \<Rightarrow> bool"
  for ulid :: "string \<Rightarrow> goerror option" where
  start: "gate_reach ulid [] NewTenantServingGate"
| step: "gate_reach ulid h g \<Longrightarrow> gate_reach ulid (h @ [ev]) (snd (gate_step ulid ev g))"

inductive_cases gate_reach_cases: "gate_reach ulid h g"

lemma gate_step_tenant:
  "gTenantID g \<noteq> [] \<Longrightarrow> gTenantID (snd (gate_step ulid ev g)) = gTenantID g"
  by (cases "(ulid, ev, g)" rule: gate_step.cases)
    (auto simp: BindTenant_def Renew_def Restrict_def Let_def split: option.splits sum.splits)

lemma gate_step_restriction:
  assumes "gRestriction g = Some r"
  shows "\<exists>r'. gRestriction (snd (gate_step ulid ev g)) = Some r' \<and> rEpoch r \<le> rEpoch r' \<and> (rEpoch r' = rEpoch r \<longrightarrow> r' = r)"
  using assms
  by (cases "(ulid, ev, g)" rule: gate_step.cases)
    (auto simp: BindTenant_def Renew_def Restrict_def Let_def split: option.splits sum.splits)

lemma gate_run_restriction:
  assumes "gRestriction g = Some r"
  shows "\<exists>r'. gRestriction (snd (run_ops (gate_step ulid) evs g)) = Some r' \<and> rEpoch r \<le> rEpoch r' \<and> (rEpoch r' = rEpoch r \<longrightarrow> r' = r)"
  using assms
proof (induction evs arbitrary: g r)
  case (Cons ev evs)
  obtain r1 where r1: "gRestriction (snd (gate_step ulid ev g)) = Some r1" "rEpoch r \<le> rEpoch r1" "rEpoch r1 = rEpoch r \<longrightarrow> r1 = r"
    using gate_step_restriction [OF Cons.prems] by blast
  from Cons.IH [OF r1(1)] obtain r2 where
    "gRestriction (snd (run_ops (gate_step ulid) evs (snd (gate_step ulid ev g)))) = Some r2" "rEpoch r1 \<le> rEpoch r2"
    "rEpoch r2 = rEpoch r1 \<longrightarrow> r2 = r1" by blast
  with r1 show ?case by (auto simp: case_prod_unfold)
qed simp

text \<open>
  A restriction is sticky. Once a gate is restricted, whatever frames arrive afterwards, renewals
  included, every later test of every tenant at every time is refused, the bound tenant's with the
  restriction error; the restriction in force only moves to strictly newer epochs.
\<close>

theorem restriction_sticky:
  assumes "gRestriction g = Some r" and "gTenantID g \<noteq> []"
  shows "(\<exists>err. RequireActive now tid (snd (run_ops (gate_step ulid) evs g)) = Some err \<and>
            (tid = [] \<or> tid = gTenantID g \<longrightarrow> errors_Is err ErrTenantServingRestricted)) \<and>
         (\<exists>r'. gRestriction (snd (run_ops (gate_step ulid) evs g)) = Some r' \<and> (r' = r \<or> rEpoch r < rEpoch r'))"
proof -
  have tid: "gTenantID (snd (run_ops (gate_step ulid) evs g)) = gTenantID g"
    using assms(2)
  proof (induction evs arbitrary: g)
    case (Cons ev evs)
    have "gTenantID (snd (gate_step ulid ev g)) = gTenantID g" using gate_step_tenant Cons.prems by blast
    with Cons.IH [of "snd (gate_step ulid ev g)"] Cons.prems show ?case by (simp add: case_prod_unfold)
  qed simp
  from gate_run_restriction [OF assms(1), of ulid evs] obtain r' where
    r': "gRestriction (snd (run_ops (gate_step ulid) evs g)) = Some r'" "rEpoch r \<le> rEpoch r'" "rEpoch r' = rEpoch r \<longrightarrow> r' = r" by blast
  have "\<exists>err. RequireActive now tid (snd (run_ops (gate_step ulid) evs g)) = Some err \<and>
      (tid = [] \<or> tid = gTenantID g \<longrightarrow> errors_Is err ErrTenantServingRestricted)"
    using r' assms(2) by (auto simp: RequireActive_def requireTenantLocked_def tid restrictedError_def)
  moreover have "r' = r \<or> rEpoch r < rEpoch r'" using r' by force
  ultimately show ?thesis using r'(1) by blast
qed

definition sample_gate :: TenantServingGate where
  "sample_gate = \<lparr>gTenantID = ''acme'', gLeaseExpiresAt = zeroTime,
     gRestriction = Some \<lparr>rEpoch = 1, rRequestID = ''r'', rReason = ''admitted_target_missing'', rAuthorityEventID = ''e'',
       rAuthorityAppendOrdinal = 1\<rparr>\<rparr>"

definition active_update :: "string \<Rightarrow> int \<Rightarrow> TenantServingStateUpdate" where
  "active_update challenge expires =
     \<lparr>uState = TENANT_SERVING_STATE_ACTIVE, uEpoch = 0, uRestrictionRequestId = [], uRestrictionReason = [],
      uAuthorityEventId = [], uAuthorityAppendOrdinal = 0, uServingChallenge = challenge,
      uLeaseExpiresAt = Some (Inr expires)\<rparr>"

theorem restriction_sticky_witness:
  "\<exists>err. RequireActive 5 ''acme'' (snd (run_ops (gate_step (\<lambda>_. None)) [(1, GRenew ''acme'' ''c'' (Some (active_update ''c'' 9)))] sample_gate)) =
     Some err \<and> errors_Is err ErrTenantServingRestricted"
proof -
  have g: "gTenantID sample_gate = ''acme''" "gRestriction sample_gate \<noteq> None" by (simp_all add: sample_gate_def)
  then obtain r where "gRestriction sample_gate = Some r" by blast
  from restriction_sticky [OF this, of 5 "''acme''"] g show ?thesis by (auto simp del: run_ops.simps)
qed

section \<open>Leases\<close>

text \<open>The renewal that a gate's lease comes from: accepted at its own time, bound to the challenge
  that was sent, and for at most the longest lease from then.\<close>

definition accepted_renewal :: "(string \<Rightarrow> goerror option) \<Rightarrow> (int \<times> gate_op) list \<Rightarrow> int \<Rightarrow> int \<Rightarrow> bool" where
  "accepted_renewal ulid h t0 expires \<longleftrightarrow>
     (\<exists>h1 h2 g1 tid challenge u.
        h = h1 @ (t0, GRenew tid challenge (Some u)) # h2 \<and> gate_reach ulid h1 g1 \<and>
        fst (Renew t0 tid challenge (Some u) g1) = None \<and> challenge \<noteq> [] \<and> uServingChallenge u = challenge \<and>
        uState u = TENANT_SERVING_STATE_ACTIVE \<and> uLeaseExpiresAt u = Some (Inr expires) \<and>
        t0 < expires \<and> expires \<le> t0 + maxServingLease)"

lemma accepted_renewal_later: "accepted_renewal ulid h t0 x \<Longrightarrow> accepted_renewal ulid (h @ [ev]) t0 x"
  unfolding accepted_renewal_def by (metis append.assoc append_Cons)

lemma Renew_accepted:
  assumes "Renew now tid challenge u g = (None, g')"
  obtains v x where "u = Some v" "challenge \<noteq> []" "uServingChallenge v = challenge" "uState v = TENANT_SERVING_STATE_ACTIVE"
    "uLeaseExpiresAt v = Some (Inr x)" "now < x" "x \<le> now + maxServingLease" "g' = g\<lparr>gLeaseExpiresAt := x\<rparr>"
  using assms by (auto simp: Renew_def split: option.splits sum.splits if_splits)

lemma Renew_refused: "Renew now tid challenge u g = (Some e, g') \<Longrightarrow> g' = g"
  by (auto simp: Renew_def split: option.splits sum.splits if_splits)

lemma lease_origin:
  assumes "gate_reach ulid h g"
  shows "gLeaseExpiresAt g = zeroTime \<or> (\<exists>t0. accepted_renewal ulid h t0 (gLeaseExpiresAt g))"
  using assms
proof (induction rule: gate_reach.induct)
  case (step h g ev)
  have keep: ?case if "gLeaseExpiresAt (snd (gate_step ulid ev g)) = gLeaseExpiresAt g"
    using step.IH that accepted_renewal_later by metis
  obtain now op where ev: "ev = (now, op)" by (cases ev)
  show ?case
  proof (cases op)
    case (GBind tid)
    then show ?thesis by (intro keep) (auto simp: ev BindTenant_def)
  next
    case (GRenew tid challenge u)
    show ?thesis
    proof (cases "Renew now tid challenge u g")
      case (Pair eo g')
      show ?thesis
      proof (cases eo)
        case None
        with Pair have rn: "Renew now tid challenge u g = (None, g')" by simp
        from Renew_accepted [OF rn] obtain v x where v: "u = Some v" "challenge \<noteq> []" "uServingChallenge v = challenge"
          "uState v = TENANT_SERVING_STATE_ACTIVE" "uLeaseExpiresAt v = Some (Inr x)" "now < x" "x \<le> now + maxServingLease"
          "g' = g\<lparr>gLeaseExpiresAt := x\<rparr>" by metis
        have "accepted_renewal ulid (h @ [ev]) now x"
          unfolding accepted_renewal_def using v rn step.hyps
          by (intro exI [of _ h] exI [of _ "[]"] exI [of _ g] exI [of _ tid] exI [of _ challenge] exI [of _ v])
            (simp add: ev GRenew)
        with v(8) rn show ?thesis by (auto simp: ev GRenew)
      next
        case (Some e)
        with Pair Renew_refused have "g' = g" by blast
        with Pair show ?thesis by (intro keep) (simp add: ev GRenew)
      qed
    qed
  next
    case (GRestrict tid u)
    then have "gLeaseExpiresAt (snd (gate_step ulid ev g)) \<in> {zeroTime, gLeaseExpiresAt g}"
      by (auto simp: ev Restrict_def Let_def split: sum.splits option.splits)
    with keep show ?thesis by auto
  qed
qed (simp add: NewTenantServingGate_def)

text \<open>
  C8. No lease, no decision. In every history of a gate, a decision is allowed only within a lease:
  some renewal of the history was accepted, it answered the challenge that was sent with it, and
  the decision comes less than 30 seconds after it; the gate is bound to the tenant asked for and
  not restricted. Without renewals every tenant goes dark within 30 seconds.
\<close>

theorem decision_needs_lease:
  assumes "gate_reach ulid h g" and "RequireActive now tid g = None" and "zeroTime \<le> now"
  shows "(\<exists>t0 expires. accepted_renewal ulid h t0 expires \<and> now < expires \<and> now < t0 + 30 * seconds) \<and>
         gTenantID g \<noteq> [] \<and> (tid = [] \<or> tid = gTenantID g) \<and> gRestriction g = None"
proof -
  have act: "gTenantID g \<noteq> []" "tid = [] \<or> tid = gTenantID g" "gRestriction g = None" "now < gLeaseExpiresAt g"
    using assms(2) by (auto simp: RequireActive_def requireTenantLocked_def split: option.splits if_splits)
  with lease_origin [OF assms(1)] assms(3) obtain t0 where t0: "accepted_renewal ulid h t0 (gLeaseExpiresAt g)" by auto
  then have "gLeaseExpiresAt g \<le> t0 + 30 * seconds" by (auto simp: accepted_renewal_def maxServingLease_def)
  with t0 act show ?thesis by force
qed

theorem decision_needs_lease_witness:
  "\<exists>t0 expires. accepted_renewal (\<lambda>_. None) [(0, GBind ''acme''), (1, GRenew ''acme'' ''c'' (Some (active_update ''c'' 9)))] t0 expires \<and> 5 < expires"
proof -
  let ?e1 = "(0, GBind ''acme'')" and ?e2 = "(1, GRenew ''acme'' ''c'' (Some (active_update ''c'' 9)))"
  let ?g = "snd (gate_step (\<lambda>_. None) ?e2 (snd (gate_step (\<lambda>_. None) ?e1 NewTenantServingGate)))"
  have "gate_reach (\<lambda>_. None) (([] @ [?e1]) @ [?e2]) ?g" by (intro gate_reach.intros)
  moreover have "RequireActive 5 ''acme'' ?g = None" by code_simp
  ultimately show ?thesis
    using decision_needs_lease [of "\<lambda>_. None" "[?e1, ?e2]" ?g 5 "''acme''"] by (auto simp: zeroTime_def seconds_def)
qed

end
