(* ===== verification/Sync_Client.thy ===== *)
theory Sync_Client
  imports Policy_Engine Serving_Gate
begin

text \<open>
  Live sync from the control plane (\<open>sync/sync.go\<close>, \<open>sync/status.go\<close>): the client that receives
  mutation frames, applies them to the engines and the serving gate, and moves its continuation
  token; reconnection with backoff; and the status snapshot. The connection is its sequence of events
  in a \<open>Session\<close>: the challenge, the answer to the request, the frames with the clock reading
  at each, and the error the stream ends with. A connect error comes with whether its code is
  \<open>FailedPrecondition\<close>. Frames are handled one at a time by one goroutine, as in the source.

  The gate the client shares with the engines, the clock and the state of the notifier are the world
  outside the engines (\<open>World\<close>).
\<close>

section \<open>State\<close>

record 'n World =
  wGate :: TenantServingGate
  wNow :: int
  wHost :: 'n

text \<open>The shared gate as the engines call it.\<close>

definition worldGate :: "string \<Rightarrow> 'n World \<Rightarrow> goerror option" where
  "worldGate tenantID w = RequireActive (wNow w) tenantID (wGate w)"

record ('s, 'm, 'n, 'c, 'st, 'q) Client =
  orgID :: string
  cPolicy :: "('s, 'm, 'n World, 'c, 'st, 'q) PolicyEngine"
  continuationToken :: string
  connected :: bool
  lastStreamActivity :: int
  lastAppliedServerTime :: int
  rebootstraps :: nat
  lastBundleVersion :: int
  lastDataVersion :: "(string \<times> int) list"
  lastDataValue :: "(string \<times> json) list"
  baselineData :: jobj

text \<open>The relationship engine is the one the policy engine embeds; an operation on it, or on the
  gate, as an operation of the client.\<close>

definition cWorld :: "('s, 'm, 'n, 'c, 'st, 'q) Client \<Rightarrow> 'n World" where
  "cWorld c = outside (pZanzibar (cPolicy c))"

definition onPolicy ::
    "(('s, 'm, 'n World, 'c, 'st, 'q) PolicyEngine \<Rightarrow> goerror option \<times> ('s, 'm, 'n World, 'c, 'st, 'q) PolicyEngine) \<Rightarrow>
     ('s, 'm, 'n, 'c, 'st, 'q) Client \<Rightarrow> goerror option \<times> ('s, 'm, 'n, 'c, 'st, 'q) Client" where
  "onPolicy f c = (case f (cPolicy c) of (err, pe) \<Rightarrow> (err, c\<lparr>cPolicy := pe\<rparr>))"

definition onZanzibar ::
    "(('s, 'm, 'n World) Engine \<Rightarrow> goerror option \<times> ('s, 'm, 'n World) Engine) \<Rightarrow>
     ('s, 'm, 'n, 'c, 'st, 'q) Client \<Rightarrow> goerror option \<times> ('s, 'm, 'n, 'c, 'st, 'q) Client" where
  "onZanzibar f c = onPolicy (\<lambda>pe. case f (pZanzibar pe) of (err, e) \<Rightarrow> (err, pe\<lparr>pZanzibar := e\<rparr>)) c"

definition onGate ::
    "(int \<Rightarrow> TenantServingGate \<Rightarrow> goerror option \<times> TenantServingGate) \<Rightarrow>
     ('s, 'm, 'n, 'c, 'st, 'q) Client \<Rightarrow> goerror option \<times> ('s, 'm, 'n, 'c, 'st, 'q) Client" where
  "onGate f c =
     onZanzibar (\<lambda>e. case f (wNow (outside e)) (wGate (outside e)) of
        (err, g) \<Rightarrow> (err, e\<lparr>outside := (outside e)\<lparr>wGate := g\<rparr>\<rparr>)) c"

definition tick :: "int \<Rightarrow> ('s, 'm, 'n, 'c, 'st, 'q) Client \<Rightarrow> ('s, 'm, 'n, 'c, 'st, 'q) Client" where
  "tick now c =
     c\<lparr>cPolicy := (cPolicy c)\<lparr>pZanzibar := (pZanzibar (cPolicy c))\<lparr>outside := (cWorld c)\<lparr>wNow := now\<rparr>\<rparr>\<rparr>\<rparr>"

text \<open>\<open>NewClient\<close> with the gate of \<open>WithTenantServingGate\<close>, when there is one.\<close>

definition NewClient ::
    "string \<Rightarrow> string \<Rightarrow> TenantServingGate option \<Rightarrow> ('s, 'm, 'n World, 'c, 'st, 'q) PolicyEngine \<Rightarrow>
     ('s, 'm, 'n, 'c, 'st, 'q) Client" where
  "NewClient org token gateOpt pe =
     (let defaultServingGate =
            (if org \<noteq> [] then snd (BindTenant org NewTenantServingGate) else NewTenantServingGate);
          gate = (case gateOpt of None \<Rightarrow> defaultServingGate | Some g \<Rightarrow> g);
          z = pZanzibar pe;
          z' = SetTenantServingGate (Some worldGate) (z\<lparr>outside := (outside z)\<lparr>wGate := gate\<rparr>\<rparr>)
      in \<lparr>orgID = org, cPolicy = SetPolicyServingGate (Some worldGate) (pe\<lparr>pZanzibar := z'\<rparr>),
          continuationToken = token, connected = False, lastStreamActivity = zeroTime,
          lastAppliedServerTime = zeroTime, rebootstraps = 0, lastBundleVersion = 0,
          lastDataVersion = [], lastDataValue = [], baselineData = []\<rparr>)"

section \<open>Frames\<close>

datatype mutation =
    TupleWrite "(string \<times> string \<times> string) option"
  | TupleDelete "(string \<times> string \<times> string) option"
  | ModelUpdate "(string \<times> int) option"
  | PolicyBundleUpdate "(string \<times> int) option"
  | PolicyDataUpdate "(string \<times> jobj option \<times> int) option"
  | TenantServingStateUpdateM "TenantServingStateUpdate option"
  | NoMutation

record Message =
  msgTenantId :: string
  msgContinuationToken :: string
  msgMutation :: mutation

section \<open>Freshness\<close>

text \<open>\<open>ulidTime\<close> is the ULID parser of \<open>github.com/oklog/ulid\<close> with the time of the parsed identifier.\<close>

definition tokenServerTime :: "(string \<Rightarrow> int res) \<Rightarrow> string \<Rightarrow> int" where
  "tokenServerTime ulidTime token = (case ulidTime token of Inl _ \<Rightarrow> zeroTime | Inr t \<Rightarrow> t)"

definition setContinuationToken ::
    "(string \<Rightarrow> int res) \<Rightarrow> string \<Rightarrow> ('s, 'm, 'n, 'c, 'st, 'q) Client \<Rightarrow> ('s, 'm, 'n, 'c, 'st, 'q) Client" where
  "setContinuationToken ulidTime token c =
     c\<lparr>continuationToken := token, lastAppliedServerTime := tokenServerTime ulidTime token\<rparr>"

definition markStreamOpen :: "('s, 'm, 'n, 'c, 'st, 'q) Client \<Rightarrow> ('s, 'm, 'n, 'c, 'st, 'q) Client" where
  "markStreamOpen c = c\<lparr>connected := True, lastStreamActivity := wNow (cWorld c)\<rparr>"

definition markStreamClosed :: "('s, 'm, 'n, 'c, 'st, 'q) Client \<Rightarrow> ('s, 'm, 'n, 'c, 'st, 'q) Client" where
  "markStreamClosed c = c\<lparr>connected := False\<rparr>"

definition markActivity :: "('s, 'm, 'n, 'c, 'st, 'q) Client \<Rightarrow> ('s, 'm, 'n, 'c, 'st, 'q) Client" where
  "markActivity c = c\<lparr>lastStreamActivity := wNow (cWorld c)\<rparr>"

definition onRebootstrap ::
    "(string \<Rightarrow> int res) \<Rightarrow> string \<Rightarrow> ('s, 'm, 'n, 'c, 'st, 'q) Client \<Rightarrow> ('s, 'm, 'n, 'c, 'st, 'q) Client" where
  "onRebootstrap ulidTime token c =
     c\<lparr>continuationToken := token, lastAppliedServerTime := tokenServerTime ulidTime token,
       rebootstraps := Suc (rebootstraps c)\<rparr>"

definition SeedPolicyData :: "jobj \<Rightarrow> ('s, 'm, 'n, 'c, 'st, 'q) Client \<Rightarrow> ('s, 'm, 'n, 'c, 'st, 'q) Client" where
  "SeedPolicyData data c = c\<lparr>baselineData := data\<rparr>"

record Status =
  stConnected :: bool
  stLastStreamActivity :: int
  stLastAppliedAt :: int
  stLag :: int
  stLastToken :: string
  stRebootstraps :: nat

definition Status_Client :: "int \<Rightarrow> ('s, 'm, 'n, 'c, 'st, 'q) Client \<Rightarrow> Status" where
  "Status_Client now c =
     \<lparr>stConnected = connected c, stLastStreamActivity = lastStreamActivity c,
      stLastAppliedAt = lastAppliedServerTime c,
      stLag = (if lastAppliedServerTime c \<noteq> zeroTime then now - lastAppliedServerTime c else 0),
      stLastToken = continuationToken c, stRebootstraps = rebootstraps c\<rparr>"

section \<open>Applying frames\<close>

definition applyPolicyBundle ::
    "('mod, 'c, 'st, 'txn, 'q) OPA \<Rightarrow> (string \<times> int) option \<Rightarrow> ('s, 'm, 'n, 'c, 'st, 'q) Client \<Rightarrow>
     goerror option \<times> ('s, 'm, 'n, 'c, 'st, 'q) Client" where
  "applyPolicyBundle opa upd c =
     (case upd of
        None \<Rightarrow> (None, c)
      | Some (policyBundle, version) \<Rightarrow>
          if policyBundle = [] then (None, c)
          else if version \<noteq> 0 \<and> version \<le> lastBundleVersion c then (None, c)
          else case onPolicy (LoadBundle opa policyBundle (baselineData c)) c of
            (Some err, c1) \<Rightarrow> (Some err, c1)
          | (None, c1) \<Rightarrow>
              (case first_err_st (\<lambda>(path, v). onPolicy (SetPolicyData opa path v)) (lastDataValue c) c1 of
                 (Some err, c2) \<Rightarrow> (Some err, c2)
               | (None, c2) \<Rightarrow> (None, c2\<lparr>lastBundleVersion := version\<rparr>)))"

text \<open>A missing key of the Go map \<open>lastDataVersion\<close> reads 0.\<close>

definition dataVersion :: "string \<Rightarrow> ('s, 'm, 'n, 'c, 'st, 'q) Client \<Rightarrow> int" where
  "dataVersion path c = (case map_of (lastDataVersion c) path of None \<Rightarrow> 0 | Some v \<Rightarrow> v)"

definition applyPolicyData ::
    "('mod, 'c, 'st, 'txn, 'q) OPA \<Rightarrow> (string \<times> jobj option \<times> int) option \<Rightarrow> ('s, 'm, 'n, 'c, 'st, 'q) Client \<Rightarrow>
     goerror option \<times> ('s, 'm, 'n, 'c, 'st, 'q) Client" where
  "applyPolicyData opa upd c =
     (case upd of
        None \<Rightarrow> (None, c)
      | Some (path, data, version) \<Rightarrow>
          if path = [] then (None, c)
          else if version \<noteq> 0 \<and> version \<le> dataVersion path c then (None, c)
          else (let val = (case data of None \<Rightarrow> JNull | Some m \<Rightarrow> JObj m) in
                case onPolicy (SetPolicyData opa path val) c of
                  (Some err, c1) \<Rightarrow> (Some err, c1)
                | (None, c1) \<Rightarrow>
                    (None, c1\<lparr>lastDataVersion := AList.update path version (lastDataVersion c1),
                              lastDataValue := AList.update path val (lastDataValue c1)\<rparr>)))"

definition applyServingState ::
    "(string \<Rightarrow> goerror option) \<Rightarrow> string \<Rightarrow> string list \<Rightarrow> TenantServingStateUpdate option \<Rightarrow>
     ('s, 'm, 'n, 'c, 'st, 'q) Client \<Rightarrow> goerror option \<times> ('s, 'm, 'n, 'c, 'st, 'q) Client" where
  "applyServingState ulid tenantID challenge upd c =
     (if tenantID = [] then (Some (Errorf STR ''apply tenant serving state: tenant ID is empty'' []), c)
      else case upd of
        None \<Rightarrow> (Some (Errorf STR ''apply tenant serving state: update is nil'' []), c)
      | Some u \<Rightarrow>
          (case uState u of
             TENANT_SERVING_STATE_ACTIVE \<Rightarrow>
               if length challenge \<noteq> 1
               then (Some (Errorf STR ''apply tenant serving state: stream challenge unavailable'' []), c)
               else onGate (\<lambda>now. Renew now tenantID (challenge ! 0) (Some u)) c
           | TENANT_SERVING_STATE_RESTRICTED \<Rightarrow> onGate (\<lambda>_. Restrict ulid tenantID (Some u)) c
           | TENANT_SERVING_STATE_UNSPECIFIED \<Rightarrow>
               (Some (Errorf STR ''apply tenant serving state: unspecified state'' []), c)))"

definition applyMutation ::
    "('mod, 'c, 'st, 'txn, 'q) OPA \<Rightarrow> (string \<Rightarrow> yamlModel res) \<Rightarrow> (string \<Rightarrow> goerror option) \<Rightarrow> Context \<Rightarrow>
     string list \<Rightarrow> Message option \<Rightarrow> ('s, 'm, 'n, 'c, 'st, 'q) Client \<Rightarrow>
     goerror option \<times> ('s, 'm, 'n, 'c, 'st, 'q) Client" where
  "applyMutation opa unm ulid ctx challenge msgOpt c =
     (case msgOpt of
        None \<Rightarrow> (Some (Errorf STR ''apply mutation: response is nil'' []), c)
      | Some msg \<Rightarrow>
          if msgTenantId msg \<noteq> [] \<and> msgTenantId msg \<noteq> orgID c
          then (Some (Wrapf STR ''apply mutation for tenant %q: %w'' [msgTenantId msg] ErrTenantServingScopeMismatch), c)
          else case msgMutation msg of
            TupleWrite None \<Rightarrow> (None, c)
          | TupleWrite (Some (user, relation, object)) \<Rightarrow> onZanzibar (WriteTuple unm ctx user relation object) c
          | TupleDelete None \<Rightarrow> (None, c)
          | TupleDelete (Some (user, relation, object)) \<Rightarrow> onZanzibar (DeleteTuple unm ctx user relation object) c
          | ModelUpdate None \<Rightarrow> (None, c)
          | ModelUpdate (Some (model, revision)) \<Rightarrow>
              if model = [] then (None, c) else onZanzibar (ActivateModel unm model revision) c
          | PolicyBundleUpdate upd \<Rightarrow> applyPolicyBundle opa upd c
          | PolicyDataUpdate upd \<Rightarrow> applyPolicyData opa upd c
          | TenantServingStateUpdateM upd \<Rightarrow> applyServingState ulid (msgTenantId msg) challenge upd c
          | NoMutation \<Rightarrow> (None, c))"

section \<open>The stream\<close>

text \<open>The outside world of one connection: \<open>ulid\<close> and \<open>ulidTime\<close> are the identifier parser, the rest
  are the arguments of \<open>applyMutation\<close>.\<close>

record ('mod, 'c, 'st, 'txn, 'q) SyncEnv =
  envOPA :: "('mod, 'c, 'st, 'txn, 'q) OPA"
  envYAML :: "string \<Rightarrow> yamlModel res"
  envULID :: "string \<Rightarrow> goerror option"
  envULIDTime :: "string \<Rightarrow> int res"
  envCtx :: Context

text \<open>
  What happens in one round of \<open>Run\<close>: the challenge, the answer to the request, the frames, the end of
  the stream, what the control plane answers to a re-bootstrap, and the three polls of the context: the
  select at the head of the loop, \<open>ctx.Err\<close> after the stream, and the select of the wait.
\<close>

record 'r Session =
  sChallenge :: "string res"
  sOpen :: "(goerror \<times> bool) option"
  sOpenedAt :: int
  sFrames :: "(int \<times> Message) list"
  sEnd :: "(goerror \<times> bool) option"
  sRebootstrap :: 'r
  sDone :: bool
  sCancelled :: bool
  sDoneWaiting :: bool

definition advanceToken ::
    "('mod, 'c, 'st, 'txn, 'q) SyncEnv \<Rightarrow> Message \<Rightarrow> ('s, 'm, 'n, 'c, 'st, 'q) Client \<Rightarrow> ('s, 'm, 'n, 'c, 'st, 'q) Client" where
  "advanceToken env msg c =
     (if msgContinuationToken msg \<noteq> []
      then setContinuationToken (envULIDTime env) (msgContinuationToken msg) c else c)"

text \<open>The receive loop: the error of the first frame that fails to apply, if any.\<close>

fun receiveLoop ::
    "('mod, 'c, 'st, 'txn, 'q) SyncEnv \<Rightarrow> string \<Rightarrow> (int \<times> Message) list \<Rightarrow> ('s, 'm, 'n, 'c, 'st, 'q) Client \<Rightarrow>
     goerror option \<times> ('s, 'm, 'n, 'c, 'st, 'q) Client" where
  "receiveLoop env challenge [] c = (None, c)"
| "receiveLoop env challenge ((now, msg) # frames) c =
     (let c0 = markActivity (tick now c) in
      case applyMutation (envOPA env) (envYAML env) (envULID env) (envCtx env) [challenge] (Some msg) c0 of
        (Some err, c1) \<Rightarrow> (Some err, c1)
      | (None, c1) \<Rightarrow>
          receiveLoop env challenge frames (advanceToken env msg c1))"

definition stream ::
    "('mod, 'c, 'st, 'txn, 'q) SyncEnv \<Rightarrow> 'r Session \<Rightarrow> ('s, 'm, 'n, 'c, 'st, 'q) Client \<Rightarrow>
     (bool \<times> goerror option) \<times> ('s, 'm, 'n, 'c, 'st, 'q) Client" where
  "stream env s c =
     (case sChallenge s of
        Inl err \<Rightarrow> ((False, Some err), c)
      | Inr challenge \<Rightarrow>
          (case sOpen s of
             Some (err, failedPrecondition) \<Rightarrow> ((failedPrecondition, Some err), c)
           | None \<Rightarrow>
               (case receiveLoop env challenge (sFrames s) (markStreamOpen (tick (sOpenedAt s) c)) of
                  (Some applyErr, c1) \<Rightarrow> ((True, Some applyErr), markStreamClosed c1)
                | (None, c1) \<Rightarrow>
                    (case sEnd s of
                       Some (err, failedPrecondition) \<Rightarrow> ((failedPrecondition, Some err), markStreamClosed c1)
                     | None \<Rightarrow> ((False, None), markStreamClosed c1)))))"

section \<open>Reconnecting\<close>

text \<open>
  One round of \<open>Run\<close>: the loop returns, for its context or for a refused token, or it goes on with the
  next backoff, after a wait or, after a clean disconnect, at once (\<open>None\<close>). \<open>rebootstrap\<close> is the
  callback on what the control plane answers to it in this round. \<open>Run\<close> goes through the rounds that
  happen and yields the pause after each round it completed and how it ended, \<open>Running\<close> when it has not.
\<close>

datatype runEnd = Running | ContextDone | TokenRefused

datatype 'k round = Returned runEnd 'k | Again "int option" int 'k

definition maxBackoff :: int where
  "maxBackoff = 30 * seconds"

definition nextBackoff :: "int \<Rightarrow> int" where
  "nextBackoff backoff = (if backoff * 2 > maxBackoff then maxBackoff else backoff * 2)"

definition waitRound :: "'r Session \<Rightarrow> int \<Rightarrow> 'k \<Rightarrow> 'k round" where
  "waitRound s backoff c =
     (if sDoneWaiting s then Returned ContextDone c else Again (Some backoff) (nextBackoff backoff) c)"

definition runRound ::
    "('mod, 'c, 'st, 'txn, 'q) SyncEnv \<Rightarrow>
     ('r \<Rightarrow> ('s, 'm, 'n, 'c, 'st, 'q) Client \<Rightarrow> string res \<times> ('s, 'm, 'n, 'c, 'st, 'q) Client) option \<Rightarrow>
     'r Session \<Rightarrow> int \<Rightarrow> ('s, 'm, 'n, 'c, 'st, 'q) Client \<Rightarrow> ('s, 'm, 'n, 'c, 'st, 'q) Client round" where
  "runRound env rebootstrap s backoff c =
     (if sDone s then Returned ContextDone c
      else case stream env s c of ((tokenRefused, err), c1) \<Rightarrow>
        if sCancelled s then Returned ContextDone c1
        else if tokenRefused
        then (case rebootstrap of
                None \<Rightarrow> Returned TokenRefused c1
              | Some f \<Rightarrow>
                  (case f (sRebootstrap s) c1 of
                     (Inl _, c2) \<Rightarrow> waitRound s backoff c2
                   | (Inr newToken, c2) \<Rightarrow> waitRound s seconds (onRebootstrap (envULIDTime env) newToken c2)))
        else if err = None then Again None seconds c1
        else waitRound s backoff c1)"

fun runLoop ::
    "('mod, 'c, 'st, 'txn, 'q) SyncEnv \<Rightarrow>
     ('r \<Rightarrow> ('s, 'm, 'n, 'c, 'st, 'q) Client \<Rightarrow> string res \<times> ('s, 'm, 'n, 'c, 'st, 'q) Client) option \<Rightarrow>
     'r Session list \<Rightarrow> int \<Rightarrow> ('s, 'm, 'n, 'c, 'st, 'q) Client \<Rightarrow>
     int option list \<times> runEnd \<times> ('s, 'm, 'n, 'c, 'st, 'q) Client" where
  "runLoop env rebootstrap [] backoff c = ([], Running, c)"
| "runLoop env rebootstrap (s # sessions) backoff c =
     (case runRound env rebootstrap s backoff c of
        Returned why c' \<Rightarrow> ([], why, c')
      | Again pause backoff' c' \<Rightarrow>
          (case runLoop env rebootstrap sessions backoff' c' of
             (pauses, rest) \<Rightarrow> (pause # pauses, rest)))"

definition Run ::
    "('mod, 'c, 'st, 'txn, 'q) SyncEnv \<Rightarrow>
     ('r \<Rightarrow> ('s, 'm, 'n, 'c, 'st, 'q) Client \<Rightarrow> string res \<times> ('s, 'm, 'n, 'c, 'st, 'q) Client) option \<Rightarrow>
     'r Session list \<Rightarrow> ('s, 'm, 'n, 'c, 'st, 'q) Client \<Rightarrow> int option list \<times> runEnd \<times> ('s, 'm, 'n, 'c, 'st, 'q) Client" where
  "Run env rebootstrap sessions c = runLoop env rebootstrap sessions seconds c"

section \<open>What frames leave alone\<close>

lemma onPolicy_frame: "\<exists>pe. snd (onPolicy f c) = c\<lparr>cPolicy := pe\<rparr>"
  by (auto simp: onPolicy_def split: prod.split)

lemma onZanzibar_frame: "\<exists>pe. snd (onZanzibar f c) = c\<lparr>cPolicy := pe\<rparr>"
  unfolding onZanzibar_def by (rule onPolicy_frame)

lemma onGate_frame: "\<exists>pe. snd (onGate f c) = c\<lparr>cPolicy := pe\<rparr>"
  unfolding onGate_def by (rule onZanzibar_frame)

lemma overlay_frame:
  fixes c :: "('s, 'm, 'n, 'c, 'st, 'q) Client"
  shows "\<exists>pe. snd (first_err_st (\<lambda>(path, v). onPolicy (SetPolicyData opa path v)) xs c) = c\<lparr>cPolicy := pe\<rparr>"
proof (rule first_err_st_inv [where P = "\<lambda>c'. \<exists>pe. c' = c\<lparr>cPolicy := pe\<rparr>"])
  fix x :: "string \<times> json" and c' :: "('s, 'm, 'n, 'c, 'st, 'q) Client"
  assume "\<exists>pe. c' = c\<lparr>cPolicy := pe\<rparr>"
  then show "\<exists>pe. snd ((case x of (path, v) \<Rightarrow> onPolicy (SetPolicyData opa path v)) c') = c\<lparr>cPolicy := pe\<rparr>"
    using onPolicy_frame [of "SetPolicyData opa (fst x) (snd x)" c'] by (auto simp: case_prod_unfold)
qed (rule exI [of _ "cPolicy c"], simp)

lemma applyPolicyBundle_frame:
  "\<exists>pe bv. snd (applyPolicyBundle opa upd c) = c\<lparr>cPolicy := pe, lastBundleVersion := bv\<rparr>"
proof -
  have same: "\<exists>pe bv. c\<lparr>cPolicy := pe'\<rparr> = c\<lparr>cPolicy := pe, lastBundleVersion := bv\<rparr>" for pe'
    by (rule exI [of _ pe'], rule exI [of _ "lastBundleVersion c"]) simp
  have id: "\<exists>pe bv. c = c\<lparr>cPolicy := pe, lastBundleVersion := bv\<rparr>"
    by (rule exI [of _ "cPolicy c"], rule exI [of _ "lastBundleVersion c"]) simp
  show ?thesis
  proof (cases "\<exists>b version. upd = Some (b, version) \<and> b \<noteq> [] \<and> \<not> (version \<noteq> 0 \<and> version \<le> lastBundleVersion c)")
    case False
    then show ?thesis using id by (auto simp: applyPolicyBundle_def split: option.split prod.split)
  next
    case True
    then obtain b version where u: "upd = Some (b, version)" "b \<noteq> []" "\<not> (version \<noteq> 0 \<and> version \<le> lastBundleVersion c)" by blast
    obtain r1 c1 where l: "onPolicy (LoadBundle opa b (baselineData c)) c = (r1, c1)" by fastforce
    with onPolicy_frame obtain pe1 where c1: "c1 = c\<lparr>cPolicy := pe1\<rparr>" by (metis snd_conv)
    obtain r2 c2 where o: "first_err_st (\<lambda>(path, v). onPolicy (SetPolicyData opa path v)) (lastDataValue c) c1 = (r2, c2)" by fastforce
    with overlay_frame [of opa "lastDataValue c" c1] obtain pe2 where c2: "c2 = c\<lparr>cPolicy := pe2\<rparr>" by (auto simp: c1)
    show ?thesis using u l o c1 c2 same
      by (cases r1; cases r2) (auto simp: applyPolicyBundle_def)
  qed
qed

lemma applyPolicyData_frame:
  "\<exists>pe dv dd. snd (applyPolicyData opa upd c) = c\<lparr>cPolicy := pe, lastDataVersion := dv, lastDataValue := dd\<rparr>"
proof -
  have same: "\<exists>pe dv dd. c\<lparr>cPolicy := pe'\<rparr> = c\<lparr>cPolicy := pe, lastDataVersion := dv, lastDataValue := dd\<rparr>" for pe'
    by (rule exI [of _ pe'], rule exI [of _ "lastDataVersion c"], rule exI [of _ "lastDataValue c"]) simp
  have id: "\<exists>pe dv dd. c = c\<lparr>cPolicy := pe, lastDataVersion := dv, lastDataValue := dd\<rparr>"
    by (rule exI [of _ "cPolicy c"], rule exI [of _ "lastDataVersion c"], rule exI [of _ "lastDataValue c"]) simp
  show ?thesis
  proof (cases "\<exists>path data version. upd = Some (path, data, version) \<and> path \<noteq> [] \<and> \<not> (version \<noteq> 0 \<and> version \<le> dataVersion path c)")
    case False
    then show ?thesis using id by (auto simp: applyPolicyData_def split: option.split prod.split)
  next
    case True
    then obtain path data version where u: "upd = Some (path, data, version)" "path \<noteq> []"
      "\<not> (version \<noteq> 0 \<and> version \<le> dataVersion path c)" by blast
    let ?v = "case data of None \<Rightarrow> JNull | Some m \<Rightarrow> JObj m"
    obtain r1 c1 where l: "onPolicy (SetPolicyData opa path ?v) c = (r1, c1)" by fastforce
    with onPolicy_frame obtain pe1 where c1: "c1 = c\<lparr>cPolicy := pe1\<rparr>" by (metis snd_conv)
    show ?thesis using u l c1 same by (cases r1) (auto simp: applyPolicyData_def Let_def)
  qed
qed

text \<open>A frame changes the engines, the gate and the policy versions, and nothing else of the client.\<close>

lemma applyMutation_keeps:
  fixes c :: "('s, 'm, 'n, 'c, 'st, 'q) Client"
  shows "continuationToken (snd (applyMutation opa unm ulid ctx ch mo c)) = continuationToken c"
    and "orgID (snd (applyMutation opa unm ulid ctx ch mo c)) = orgID c"
    and "connected (snd (applyMutation opa unm ulid ctx ch mo c)) = connected c"
    and "lastStreamActivity (snd (applyMutation opa unm ulid ctx ch mo c)) = lastStreamActivity c"
    and "rebootstraps (snd (applyMutation opa unm ulid ctx ch mo c)) = rebootstraps c"
    and "baselineData (snd (applyMutation opa unm ulid ctx ch mo c)) = baselineData c"
proof -
  let ?G = "\<lambda>c'. \<exists>pe bv dv dd. c' = c\<lparr>cPolicy := pe, lastBundleVersion := bv, lastDataVersion := dv, lastDataValue := dd\<rparr>"
  have p: "?G (c\<lparr>cPolicy := pe, lastBundleVersion := bv\<rparr>)" for pe bv
    by (rule exI [of _ pe], rule exI [of _ bv], rule exI [of _ "lastDataVersion c"], rule exI [of _ "lastDataValue c"]) simp
  have q: "?G (c\<lparr>cPolicy := pe, lastDataVersion := dv, lastDataValue := dd\<rparr>)" for pe dv dd
    by (rule exI [of _ pe], rule exI [of _ "lastBundleVersion c"], rule exI [of _ dv], rule exI [of _ dd]) simp
  have p0: "?G (c\<lparr>cPolicy := pe\<rparr>)" for pe using p [where pe = pe and bv = "lastBundleVersion c"] by simp
  have i: "?G c" using p0 [where pe = "cPolicy c"] by simp
  have z: "?G (snd (onZanzibar f c))" for f using onZanzibar_frame [of f c] p0 by metis
  have g: "?G (snd (onGate f c))" for f using onGate_frame [of f c] p0 by metis
  have b: "?G (snd (applyPolicyBundle opa u c))" for u using applyPolicyBundle_frame [of opa u c] p by metis
  have d: "?G (snd (applyPolicyData opa u c))" for u using applyPolicyData_frame [of opa u c] q by metis
  have s: "?G (snd (applyServingState ulid tid ch u c))" for tid u
    using i g by (simp add: applyServingState_def split: option.split TenantServingState.split)
  have "?G (snd (applyMutation opa unm ulid ctx ch mo c))"
    using i z b d s by (simp add: applyMutation_def split: option.split prod.split mutation.split)
  then show "continuationToken (snd (applyMutation opa unm ulid ctx ch mo c)) = continuationToken c"
    and "orgID (snd (applyMutation opa unm ulid ctx ch mo c)) = orgID c"
    and "connected (snd (applyMutation opa unm ulid ctx ch mo c)) = connected c"
    and "lastStreamActivity (snd (applyMutation opa unm ulid ctx ch mo c)) = lastStreamActivity c"
    and "rebootstraps (snd (applyMutation opa unm ulid ctx ch mo c)) = rebootstraps c"
    and "baselineData (snd (applyMutation opa unm ulid ctx ch mo c)) = baselineData c"
    by auto
qed

section \<open>The continuation token\<close>

text \<open>The last token that some frames carry, or the one held before them.\<close>

definition lastToken :: "string \<Rightarrow> (int \<times> Message) list \<Rightarrow> string" where
  "lastToken token frames =
     fold (\<lambda>(_, m) t. if msgContinuationToken m \<noteq> [] then msgContinuationToken m else t) frames token"

lemma lastToken_simps [simp]:
  "lastToken t [] = t"
  "lastToken t ((now, m) # fs) = lastToken (if msgContinuationToken m \<noteq> [] then msgContinuationToken m else t) fs"
  by (simp_all add: lastToken_def)

text \<open>One frame as the receive loop applies it.\<close>

definition applyFrame ::
    "('mod, 'c, 'st, 'txn, 'q) SyncEnv \<Rightarrow> string \<Rightarrow> int \<times> Message \<Rightarrow> ('s, 'm, 'n, 'c, 'st, 'q) Client \<Rightarrow>
     goerror option \<times> ('s, 'm, 'n, 'c, 'st, 'q) Client" where
  "applyFrame env challenge f c =
     applyMutation (envOPA env) (envYAML env) (envULID env) (envCtx env) [challenge] (Some (snd f))
       (markActivity (tick (fst f) c))"

lemma tick_sel [simp]:
  "continuationToken (tick now c) = continuationToken c" "orgID (tick now c) = orgID c"
  "connected (tick now c) = connected c" "lastBundleVersion (tick now c) = lastBundleVersion c"
  "dataVersion path (tick now c) = dataVersion path c" "lastDataValue (tick now c) = lastDataValue c"
  "baselineData (tick now c) = baselineData c" "rebootstraps (tick now c) = rebootstraps c"
  by (simp_all add: tick_def dataVersion_def)

lemma mark_sel [simp]:
  "continuationToken (markActivity c) = continuationToken c" "orgID (markActivity c) = orgID c"
  "lastBundleVersion (markActivity c) = lastBundleVersion c" "dataVersion path (markActivity c) = dataVersion path c"
  "cPolicy (markActivity c) = cPolicy c" "lastDataValue (markActivity c) = lastDataValue c"
  "connected (markActivity c) = connected c"
  "continuationToken (markStreamOpen c) = continuationToken c" "lastBundleVersion (markStreamOpen c) = lastBundleVersion c"
  "dataVersion path (markStreamOpen c) = dataVersion path c" "cPolicy (markStreamOpen c) = cPolicy c"
  "continuationToken (markStreamClosed c) = continuationToken c" "cPolicy (markStreamClosed c) = cPolicy c"
  "\<not> connected (markStreamClosed c)"
  "cPolicy (setContinuationToken ut t c) = cPolicy c" "continuationToken (setContinuationToken ut t c) = t"
  "orgID (setContinuationToken ut t c) = orgID c" "orgID (markStreamOpen c) = orgID c" "orgID (markStreamClosed c) = orgID c"
  "lastBundleVersion (setContinuationToken ut t c) = lastBundleVersion c"
  "dataVersion path (setContinuationToken ut t c) = dataVersion path c"
  "lastDataValue (setContinuationToken ut t c) = lastDataValue c"
  by (simp_all add: markActivity_def markStreamOpen_def markStreamClosed_def setContinuationToken_def dataVersion_def)

lemma advanceToken_sel [simp]:
  "cPolicy (advanceToken env m c) = cPolicy c" "orgID (advanceToken env m c) = orgID c"
  "continuationToken (advanceToken env m c) =
     (if msgContinuationToken m \<noteq> [] then msgContinuationToken m else continuationToken c)"
  "lastBundleVersion (advanceToken env m c) = lastBundleVersion c"
  "dataVersion path (advanceToken env m c) = dataVersion path c"
  "lastDataValue (advanceToken env m c) = lastDataValue c"
  by (simp_all add: advanceToken_def)

lemma receiveLoop_Cons:
  "receiveLoop env ch (f # frames) c =
     (case applyFrame env ch f c of
        (Some err, c1) \<Rightarrow> (Some err, c1)
      | (None, c1) \<Rightarrow>
          receiveLoop env ch frames (advanceToken env (snd f) c1))"
proof -
  obtain now m where f: "f = (now, m)" by (cases f)
  show ?thesis unfolding f snd_conv by (simp add: applyFrame_def Let_def)
qed

lemma applyFrame_token: "applyFrame env ch f c = (r, c') \<Longrightarrow> continuationToken c' = continuationToken c"
  using applyMutation_keeps(1) [of "envOPA env" "envYAML env" "envULID env" "envCtx env" "[ch]" "Some (snd f)" "markActivity (tick (fst f) c)"]
  by (simp add: applyFrame_def)

lemma receiveLoop_prefix:
  assumes "receiveLoop env ch frames c = (r, c')"
  shows "\<exists>n c1. n \<le> length frames \<and> receiveLoop env ch (take n frames) c = (None, c1) \<and>
     continuationToken c' = lastToken (continuationToken c) (take n frames) \<and>
     (case r of None \<Rightarrow> n = length frames \<and> c' = c1
      | Some err \<Rightarrow> n < length frames \<and> applyFrame env ch (frames ! n) c1 = (Some err, c'))"
  using assms
proof (induction frames arbitrary: c)
  case Nil
  then show ?case by (auto intro!: exI [of _ 0])
next
  case (Cons f frames)
  obtain r1 c1 where af: "applyFrame env ch f c = (r1, c1)" by fastforce
  obtain now m where f: "f = (now, m)" by (cases f)
  show ?case
  proof (cases r1)
    case (Some err)
    with af Cons.prems have "r = Some err" "c' = c1" by (simp_all add: receiveLoop_Cons del: receiveLoop.simps)
    then show ?thesis using af Some applyFrame_token [OF af] by (auto intro!: exI [of _ 0] exI [of _ c])
  next
    case None
    let ?c2 = "advanceToken env m c1"
    from Cons.prems af None have "receiveLoop env ch frames ?c2 = (r, c')"
      by (simp add: receiveLoop_Cons f del: receiveLoop.simps)
    from Cons.IH [OF this] obtain n c3 where n: "n \<le> length frames" "receiveLoop env ch (take n frames) ?c2 = (None, c3)"
      "continuationToken c' = lastToken (continuationToken ?c2) (take n frames)"
      "case r of None \<Rightarrow> n = length frames \<and> c' = c3
       | Some err \<Rightarrow> n < length frames \<and> applyFrame env ch (frames ! n) c3 = (Some err, c')" by blast
    have "continuationToken ?c2 = (if msgContinuationToken m \<noteq> [] then msgContinuationToken m else continuationToken c)"
      using applyFrame_token [OF af] by simp
    moreover have "receiveLoop env ch (take (Suc n) (f # frames)) c = (None, c3)"
      using n(2) af None by (simp add: receiveLoop_Cons f del: receiveLoop.simps)
    ultimately show ?thesis using n
      by (intro exI [of _ "Suc n"] exI [of _ c3]) (simp add: f split: option.splits)
  qed
qed

text \<open>
  C9. The continuation token never passes an unapplied mutation. However a stream ends, the token the
  client keeps is the last one carried by a prefix of the received frames, every frame of which was
  applied; when the prefix is proper, the next frame failed to apply, its error is what the
  stream returns, and the stream reports a refused token so that the state is reloaded. A stream that
  never opened leaves the token alone.
\<close>

theorem stream_token:
  assumes "stream env s c = ((refused, err), c')"
  shows "\<exists>n \<le> length (sFrames s). continuationToken c' = lastToken (continuationToken c) (take n (sFrames s)) \<and>
     ((n = 0 \<and> c' = c \<and> err \<noteq> None) \<or>
      (\<exists>challenge c1. sChallenge s = Inr challenge \<and> sOpen s = None \<and> \<not> connected c' \<and>
         receiveLoop env challenge (take n (sFrames s)) (markStreamOpen (tick (sOpenedAt s) c)) = (None, c1) \<and>
         (n < length (sFrames s) \<longrightarrow> refused \<and> err \<noteq> None \<and>
            err = fst (applyFrame env challenge (sFrames s ! n) c1))))"
proof (cases "\<exists>ch. sChallenge s = Inr ch \<and> sOpen s = None")
  case False
  then have "c' = c" "err \<noteq> None" using assms by (auto simp: stream_def split: sum.splits option.splits)
  then show ?thesis by (intro exI [of _ 0]) simp
next
  case True
  then obtain ch where ch: "sChallenge s = Inr ch" "sOpen s = None" by blast
  obtain r c2 where rl: "receiveLoop env ch (sFrames s) (markStreamOpen (tick (sOpenedAt s) c)) = (r, c2)" by fastforce
  from receiveLoop_prefix [OF this] obtain n c1 where n: "n \<le> length (sFrames s)"
    "receiveLoop env ch (take n (sFrames s)) (markStreamOpen (tick (sOpenedAt s) c)) = (None, c1)"
    "continuationToken c2 = lastToken (continuationToken c) (take n (sFrames s))"
    "case r of None \<Rightarrow> n = length (sFrames s) \<and> c2 = c1
     | Some err \<Rightarrow> n < length (sFrames s) \<and> applyFrame env ch (sFrames s ! n) c1 = (Some err, c2)" by auto
  have "c' = markStreamClosed c2" "r = Some x \<Longrightarrow> refused \<and> err = Some x" for x
    using assms ch rl by (auto simp: stream_def split: option.splits)
  with n ch show ?thesis
    by (intro exI [of _ n]) (auto split: option.splits)
qed

section \<open>Policy versions\<close>

definition versioned :: "Message \<Rightarrow> bool" where
  "versioned m \<longleftrightarrow>
     (case msgMutation m of
        PolicyBundleUpdate (Some (_, version)) \<Rightarrow> version \<noteq> 0
      | PolicyDataUpdate (Some (_, _, version)) \<Rightarrow> version \<noteq> 0
      | _ \<Rightarrow> True)"

definition versions_le :: "('s, 'm, 'n, 'c, 'st, 'q) Client \<Rightarrow> ('s, 'm, 'n, 'c, 'st, 'q) Client \<Rightarrow> bool" where
  "versions_le c c' \<longleftrightarrow>
     lastBundleVersion c \<le> lastBundleVersion c' \<and> (\<forall>path. dataVersion path c \<le> dataVersion path c')"

lemma versions_le_refl [simp]: "versions_le c c"
  by (simp add: versions_le_def)

lemma versions_le_trans: "versions_le a b \<Longrightarrow> versions_le b c \<Longrightarrow> versions_le a c"
  unfolding versions_le_def by (meson order_trans)

lemma versions_le_policy: "\<exists>pe. c' = c\<lparr>cPolicy := pe\<rparr> \<Longrightarrow> versions_le c c'"
  by (auto simp: versions_le_def dataVersion_def)

lemma applyPolicyBundle_version:
  assumes "applyPolicyBundle opa (Some (b, version)) c = (r, c')"
  shows "\<exists>pe. c' = c\<lparr>cPolicy := pe\<rparr> \<and> (b \<noteq> [] \<longrightarrow> version \<noteq> 0 \<longrightarrow> version \<le> lastBundleVersion c \<longrightarrow> c' = c \<and> r = None) \<or>
    r = None \<and> b \<noteq> [] \<and> (version = 0 \<or> lastBundleVersion c < version) \<and> c' = c\<lparr>cPolicy := pe, lastBundleVersion := version\<rparr>"
proof (cases "b \<noteq> [] \<and> (version = 0 \<or> lastBundleVersion c < version)")
  case False
  with assms have "c' = c" "r = None" by (auto simp: applyPolicyBundle_def split: if_splits)
  then show ?thesis by (auto intro: exI [of _ "cPolicy c"])
next
  case True
  obtain r1 c1 where l: "onPolicy (LoadBundle opa b (baselineData c)) c = (r1, c1)" by fastforce
  with onPolicy_frame obtain pe1 where c1: "c1 = c\<lparr>cPolicy := pe1\<rparr>" by (metis snd_conv)
  obtain r2 c2 where o: "first_err_st (\<lambda>(path, v). onPolicy (SetPolicyData opa path v)) (lastDataValue c) c1 = (r2, c2)" by fastforce
  with overlay_frame [of opa "lastDataValue c" c1] obtain pe2 where c2: "c2 = c\<lparr>cPolicy := pe2\<rparr>" by (auto simp: c1)
  from True assms l o c1 c2 show ?thesis
    by (cases r1; cases r2) (auto simp: applyPolicyBundle_def)
qed

lemma applyPolicyData_version:
  assumes "applyPolicyData opa (Some (path, data, version)) c = (r, c')" and "version \<noteq> 0"
  shows "versions_le c c'"
proof (cases "path \<noteq> [] \<and> dataVersion path c < version")
  case False
  with assms have "c' = c" by (auto simp: applyPolicyData_def split: if_splits)
  then show ?thesis by simp
next
  case True
  let ?v = "case data of None \<Rightarrow> JNull | Some m \<Rightarrow> JObj m"
  obtain r1 c1 where l: "onPolicy (SetPolicyData opa path ?v) c = (r1, c1)" by fastforce
  with onPolicy_frame obtain pe1 where c1: "c1 = c\<lparr>cPolicy := pe1\<rparr>" by (metis snd_conv)
  have dv: "dataVersion p (c\<lparr>cPolicy := pe1, lastDataVersion := AList.update path version (lastDataVersion c), lastDataValue := dd\<rparr>) =
      (if p = path then version else dataVersion p c)" for p dd
    by (simp add: dataVersion_def map_of_update)
  have pv: "dataVersion p (c\<lparr>cPolicy := pe1\<rparr>) = dataVersion p c" for p by (simp add: dataVersion_def)
  from True assms l c1 show ?thesis
    by (cases r1) (auto simp: applyPolicyData_def versions_le_def dv pv)
qed

lemma applyServingState_frame: "\<exists>pe. snd (applyServingState ulid tid ch u c) = c\<lparr>cPolicy := pe\<rparr>"
proof -
  have i: "\<exists>pe. c = c\<lparr>cPolicy := pe\<rparr>" by (rule exI [of _ "cPolicy c"]) simp
  have g: "\<exists>pe. snd (onGate f c) = c\<lparr>cPolicy := pe\<rparr>" for f by (rule onGate_frame)
  show ?thesis
    using i by (simp add: applyServingState_def g split: option.split TenantServingState.split)
qed

lemma applyMutation_versions:
  assumes "versioned msg"
  shows "versions_le c (snd (applyMutation opa unm ulid ctx ch (Some msg) c))"
proof -
  have z: "versions_le c (snd (onZanzibar f c))" for f by (rule versions_le_policy [OF onZanzibar_frame])
  have s: "versions_le c (snd (applyServingState ulid tid ch u c))" for tid u
    by (rule versions_le_policy [OF applyServingState_frame])
  have b: "versions_le c (snd (applyPolicyBundle opa upd c))" if "msgMutation msg = PolicyBundleUpdate upd" for upd
  proof (cases upd)
    case (Some p)
    obtain pb version where p: "p = (pb, version)" by (cases p)
    with Some that assms have v: "version \<noteq> 0" by (simp add: versioned_def)
    obtain r c' where ap: "applyPolicyBundle opa upd c = (r, c')" by fastforce
    from applyPolicyBundle_version [OF ap [unfolded Some p]] v show ?thesis
      by (auto simp: ap versions_le_def dataVersion_def)
  qed (simp add: applyPolicyBundle_def)
  have d: "versions_le c (snd (applyPolicyData opa upd c))" if "msgMutation msg = PolicyDataUpdate upd" for upd
  proof (cases upd)
    case (Some p)
    obtain path data version where p: "p = (path, data, version)" by (cases p rule: prod_cases3)
    with Some that assms have v: "version \<noteq> 0" by (simp add: versioned_def)
    obtain r c' where ap: "applyPolicyData opa upd c = (r, c')" by fastforce
    from applyPolicyData_version [OF ap [unfolded Some p] v] show ?thesis by (simp add: ap)
  qed (simp add: applyPolicyData_def)
  show ?thesis
    using z s b d by (simp add: applyMutation_def split: option.split prod.split mutation.split)
qed

text \<open>
  C29. A policy version never goes back. Over any frames whose policy updates carry a version, failing
  ones included, the version of the bundle in force and of every data path only grow.
\<close>

theorem policy_versions_monotone:
  assumes "\<forall>f \<in> set frames. versioned (snd f)" and "receiveLoop env ch frames c = (r, c')"
  shows "lastBundleVersion c \<le> lastBundleVersion c' \<and> (\<forall>path. dataVersion path c \<le> dataVersion path c')"
  using assms unfolding versions_le_def [symmetric]
proof (induction frames arbitrary: c)
  case (Cons f frames)
  obtain r1 c1 where af: "applyFrame env ch f c = (r1, c1)" by fastforce
  have "versions_le (markActivity (tick (fst f) c)) c1"
    using applyMutation_versions [of "snd f" "markActivity (tick (fst f) c)" "envOPA env" "envYAML env" "envULID env" "envCtx env" "[ch]"]
      Cons.prems(1) af by (simp add: applyFrame_def)
  then have le: "versions_le c c1" by (simp add: versions_le_def)
  show ?case
  proof (cases r1)
    case (Some err)
    with af Cons.prems(2) le show ?thesis by (simp add: receiveLoop_Cons del: receiveLoop.simps)
  next
    case None
    let ?c2 = "advanceToken env (snd f) c1"
    have "versions_le c1 ?c2" by (simp add: versions_le_def)
    moreover have "receiveLoop env ch frames ?c2 = (r, c')"
      using af None Cons.prems(2) by (simp add: receiveLoop_Cons del: receiveLoop.simps)
    ultimately show ?thesis using Cons.IH Cons.prems(1) le versions_le_trans by (metis list.set_intros(2))
  qed
qed simp

text \<open>An unversioned bundle takes the guard back to 0, after which older bundles are accepted again.\<close>

lemma unversioned_bundle_resets:
  assumes "applyPolicyBundle opa (Some (b, 0)) c = (None, c')" and "b \<noteq> []"
  shows "lastBundleVersion c' = 0"
proof -
  from assms obtain c1 where "c' = c1\<lparr>lastBundleVersion := 0\<rparr>"
    by (auto simp: applyPolicyBundle_def split: prod.splits option.splits)
  then show ?thesis by simp
qed

section \<open>Reconnecting\<close>

text \<open>
  The wait that is due after \<open>i\<close> pauses of a loop that begins with the backoff \<open>b\<close>: one second after
  an immediate reconnection, otherwise twice the last wait, at most thirty seconds.
\<close>

definition due :: "int \<Rightarrow> int option list \<Rightarrow> nat \<Rightarrow> int" where
  "due b pauses i =
     (case i of 0 \<Rightarrow> b
      | Suc j \<Rightarrow> (case pauses ! j of None \<Rightarrow> seconds | Some w \<Rightarrow> min (30 * seconds) (2 * w)))"

definition rebooted ::
    "('mod, 'c, 'st, 'txn, 'q) SyncEnv \<Rightarrow>
     ('r \<Rightarrow> ('s, 'm, 'n, 'c, 'st, 'q) Client \<Rightarrow> string res \<times> ('s, 'm, 'n, 'c, 'st, 'q) Client) option \<Rightarrow>
     'r Session \<Rightarrow> ('s, 'm, 'n, 'c, 'st, 'q) Client \<Rightarrow> bool" where
  "rebooted env rb s c \<longleftrightarrow>
     (case stream env s c of ((tokenRefused, err), c1) \<Rightarrow>
        tokenRefused \<and> (\<exists>f token c2. rb = Some f \<and> f (sRebootstrap s) c1 = (Inr token, c2)))"

definition cleanEnd ::
    "('mod, 'c, 'st, 'txn, 'q) SyncEnv \<Rightarrow> 'r Session \<Rightarrow> ('s, 'm, 'n, 'c, 'st, 'q) Client \<Rightarrow> bool" where
  "cleanEnd env s c \<longleftrightarrow> fst (stream env s c) = (False, None)"

lemma nextBackoff_min: "nextBackoff b = min (30 * seconds) (2 * b)"
  by (simp add: nextBackoff_def maxBackoff_def min_def)

lemma runRound_Again:
  assumes "runRound env rb s b c = Again pause b' c'"
  shows "\<not> sDone s \<and> \<not> sCancelled s \<and> (pause = None \<longleftrightarrow> cleanEnd env s c) \<and>
     (\<forall>w. pause = Some w \<longrightarrow> \<not> sDoneWaiting s \<and> w = (if rebooted env rb s c then seconds else b)) \<and>
     b' = due b [pause] 1"
  using assms
  by (cases "stream env s c")
    (auto simp: runRound_def waitRound_def cleanEnd_def rebooted_def due_def nextBackoff_min
      split: if_splits option.splits sum.splits prod.splits)

lemma runRound_Returned:
  assumes "runRound env rb s b c = Returned why c'"
  shows "why = ContextDone \<and> (sDone s \<or> sCancelled s \<or> sDoneWaiting s \<and> \<not> cleanEnd env s c) \<or>
     why = TokenRefused \<and> rb = None \<and> fst (fst (stream env s c))"
  using assms
  by (cases "stream env s c")
    (auto simp: runRound_def waitRound_def cleanEnd_def split: if_splits option.splits sum.splits prod.splits)

text \<open>The client before round \<open>i\<close>, when the rounds before it were completed.\<close>

definition clientAt ::
    "('mod, 'c, 'st, 'txn, 'q) SyncEnv \<Rightarrow>
     ('r \<Rightarrow> ('s, 'm, 'n, 'c, 'st, 'q) Client \<Rightarrow> string res \<times> ('s, 'm, 'n, 'c, 'st, 'q) Client) option \<Rightarrow>
     'r Session list \<Rightarrow> int \<Rightarrow> ('s, 'm, 'n, 'c, 'st, 'q) Client \<Rightarrow> nat \<Rightarrow> ('s, 'm, 'n, 'c, 'st, 'q) Client" where
  "clientAt env rb sessions b c i = snd (snd (runLoop env rb (take i sessions) b c))"

lemma clientAt_simps:
  "clientAt env rb sessions b c 0 = c"
  "runRound env rb s b c = Again pause b' c' \<Longrightarrow> clientAt env rb (s # sessions) b c (Suc i) = clientAt env rb sessions b' c' i"
  by (simp_all add: clientAt_def split: prod.split)

lemma runLoop_paced:
  assumes "runLoop env rb sessions b c = (pauses, ending, c')" and "i < length pauses"
  shows "\<not> sDone (sessions ! i) \<and> \<not> sCancelled (sessions ! i) \<and>
     (pauses ! i = None \<longleftrightarrow> cleanEnd env (sessions ! i) (clientAt env rb sessions b c i)) \<and>
     (\<forall>w. pauses ! i = Some w \<longrightarrow> \<not> sDoneWaiting (sessions ! i) \<and>
        w = (if rebooted env rb (sessions ! i) (clientAt env rb sessions b c i) then seconds else due b pauses i))"
  using assms
proof (induction sessions arbitrary: b c pauses i)
  case (Cons s sessions)
  obtain pause b' c1 ps where r: "runRound env rb s b c = Again pause b' c1"
    and l: "runLoop env rb sessions b' c1 = (ps, ending, c')" and ps: "pauses = pause # ps"
    using Cons.prems by (auto split: round.splits prod.splits)
  note a = runRound_Again [OF r]
  show ?case
  proof (cases i)
    case 0
    have "due b (pause # ps) 0 = b" by (simp add: due_def)
    with a show ?thesis unfolding 0 ps nth_Cons_0 clientAt_simps(1) by metis
  next
    case (Suc j)
    have "due b' ps j = due b pauses i"
      using a by (cases j) (simp_all add: ps Suc due_def split: option.split)
    moreover have "j < length ps" using Cons.prems(2) by (simp add: ps Suc)
    ultimately show ?thesis
      using Cons.IH [OF l, of j] unfolding Suc ps nth_Cons_Suc clientAt_simps(2) [OF r] by metis
  qed
qed simp

lemma runLoop_ending:
  assumes "runLoop env rb sessions b c = (pauses, ending, c')"
  shows "if ending = Running then length pauses = length sessions
     else length pauses < length sessions \<and>
       (let s = sessions ! length pauses; k = clientAt env rb sessions b c (length pauses) in
        ending = ContextDone \<and> (sDone s \<or> sCancelled s \<or> sDoneWaiting s \<and> \<not> cleanEnd env s k) \<or>
        ending = TokenRefused \<and> rb = None \<and> fst (fst (stream env s k)))"
  using assms
proof (induction sessions arbitrary: b c pauses)
  case (Cons s sessions)
  show ?case
  proof (cases "runRound env rb s b c")
    case (Returned why c1)
    with Cons.prems runRound_Returned [OF Returned] show ?thesis by (auto simp: clientAt_simps Let_def)
  next
    case (Again pause b' c1)
    then obtain ps where l: "runLoop env rb sessions b' c1 = (ps, ending, c')" and ps: "pauses = pause # ps"
      using Cons.prems by (auto split: prod.splits)
    from Cons.IH [OF l] show ?thesis by (simp add: ps clientAt_simps(2) [OF Again])
  qed
qed simp

lemma due_bounds:
  assumes "runLoop env rb sessions seconds c = (pauses, ending, c')" and "i \<le> length pauses"
  shows "seconds \<le> due seconds pauses i \<and> due seconds pauses i \<le> 30 * seconds"
  using assms(2)
proof (induction i)
  case (Suc j)
  from Suc.prems Suc.IH runLoop_paced [OF assms(1), of j] show ?case
    by (auto simp: due_def [of _ _ "Suc j"] seconds_def split: option.split if_splits)
qed (simp add: due_def seconds_def)

text \<open>
  C30. Reconnection is paced. Let \<open>Run\<close> go through any rounds, whatever the control plane answers and
  whenever the context is cancelled. After each round it completes, it reconnects at once exactly when
  the stream of that round ended cleanly; otherwise it waits: one second after a successful
  re-bootstrap, and else the backoff that is due, which is one second in the first round and after an
  immediate reconnection, and twice the wait before it, capped at thirty seconds, in any other round.
  So every wait lies between one and thirty seconds. No round is completed in which the head of the
  loop, the check after the stream or the wait sees the context cancelled. \<open>Run\<close> goes on through all
  rounds unless the context is seen cancelled in the next one, or the token was refused there and
  there is no callback.
\<close>

theorem Run_backoff_bounds:
  assumes "Run env rb sessions c = (pauses, ending, c')"
  shows "(\<forall>i < length pauses. let s = sessions ! i; k = snd (snd (Run env rb (take i sessions) c)) in
       \<not> sDone s \<and> \<not> sCancelled s \<and> (pauses ! i = None \<longleftrightarrow> cleanEnd env s k) \<and>
       (\<forall>w. pauses ! i = Some w \<longrightarrow> \<not> sDoneWaiting s \<and> seconds \<le> w \<and> w \<le> 30 * seconds \<and>
          w = (if rebooted env rb s k then seconds else due seconds pauses i))) \<and>
     (if ending = Running then length pauses = length sessions
      else length pauses < length sessions \<and>
        (let s = sessions ! length pauses; k = snd (snd (Run env rb (take (length pauses) sessions) c)) in
         ending = ContextDone \<and> (sDone s \<or> sCancelled s \<or> sDoneWaiting s \<and> \<not> cleanEnd env s k) \<or>
         ending = TokenRefused \<and> rb = None \<and> fst (fst (stream env s k))))"
proof (intro conjI allI impI)
  have run: "runLoop env rb sessions seconds c = (pauses, ending, c')" using assms by (simp add: Run_def)
  have at: "snd (snd (Run env rb (take i sessions) c)) = clientAt env rb sessions seconds c i" for i
    by (simp add: Run_def clientAt_def)
  show "if ending = Running then length pauses = length sessions
      else length pauses < length sessions \<and>
        (let s = sessions ! length pauses; k = snd (snd (Run env rb (take (length pauses) sessions) c)) in
         ending = ContextDone \<and> (sDone s \<or> sCancelled s \<or> sDoneWaiting s \<and> \<not> cleanEnd env s k) \<or>
         ending = TokenRefused \<and> rb = None \<and> fst (fst (stream env s k)))"
    using runLoop_ending [OF run] unfolding at .
  fix i assume i: "i < length pauses"
  have "seconds \<le> 30 * seconds" by (simp add: seconds_def)
  with runLoop_paced [OF run i] due_bounds [OF run less_imp_le [OF i]]
  show "let s = sessions ! i; k = snd (snd (Run env rb (take i sessions) c)) in
       \<not> sDone s \<and> \<not> sCancelled s \<and> (pauses ! i = None \<longleftrightarrow> cleanEnd env s k) \<and>
       (\<forall>w. pauses ! i = Some w \<longrightarrow> \<not> sDoneWaiting s \<and> seconds \<le> w \<and> w \<le> 30 * seconds \<and>
          w = (if rebooted env rb s k then seconds else due seconds pauses i))"
    unfolding at Let_def by (auto split: if_splits)
qed

section \<open>Sample clients\<close>

definition rootCtx :: Context where
  "rootCtx = \<lparr>ctxTenant = [], ctxErr = background\<rparr>"

definition worldEngine :: "(MemoryStore, (string \<times> StoredModel) list, nat World) Engine" where
  "worldEngine = (NewEngine (memoryEngineStore barCodec) None None eng_store [] \<lparr>wGate = NewTenantServingGate, wNow = 0, wHost = 0\<rparr>)
     \<lparr>defaultModel := Some \<lparr>tmModel = sample_model, tmSource = [], tmRevision = 0\<rparr>\<rparr>"

type_synonym sample_client = "(MemoryStore, (string \<times> StoredModel) list, nat, string, jobj, string) Client"

definition sampleClient :: sample_client where
  "sampleClient = NewClient ''acme'' ''t0'' None (NewPolicyEngine worldEngine)"

definition sampleEnv :: "(string, string, jobj, jobj, string) SyncEnv" where
  "sampleEnv = \<lparr>envOPA = sampleOPA, envYAML = sampleDecoder, envULID = (\<lambda>_. None), envULIDTime = (\<lambda>_. Inr 5), envCtx = rootCtx\<rparr>"

text \<open>A bundle, a data update for another tenant, and a frame after it.\<close>

definition sampleSession :: "unit Session" where
  "sampleSession = \<lparr>sChallenge = Inr ''nonce'', sOpen = None, sOpenedAt = 1,
     sFrames = [(2, \<lparr>msgTenantId = ''acme'', msgContinuationToken = ''t1'', msgMutation = PolicyBundleUpdate (Some (''rego'', 3))\<rparr>),
                (3, \<lparr>msgTenantId = ''other'', msgContinuationToken = ''t2'', msgMutation = NoMutation\<rparr>),
                (4, \<lparr>msgTenantId = [], msgContinuationToken = ''t3'', msgMutation = NoMutation\<rparr>)],
     sEnd = None, sRebootstrap = (), sDone = False, sCancelled = False, sDoneWaiting = False\<rparr>"

lemma sampleSession_refused:
  "fst (stream sampleEnv sampleSession sampleClient) =
     (True, Some (Wrapf STR ''apply mutation for tenant %q: %w'' [''other''] ErrTenantServingScopeMismatch))"
  "continuationToken (snd (stream sampleEnv sampleSession sampleClient)) = ''t1''"
  "connected sampleClient = False"
  by code_simp+

theorem stream_token_witness:
  "\<exists>refused err c'. stream sampleEnv sampleSession sampleClient = ((refused, err), c') \<and> refused \<and>
     (\<exists>n \<le> 3. ''t1'' = lastToken ''t0'' (take n (sFrames sampleSession)))"
proof -
  obtain refused err c' where st: "stream sampleEnv sampleSession sampleClient = ((refused, err), c')"
    by (metis surj_pair)
  have "refused" "continuationToken c' = ''t1''" using sampleSession_refused st by simp_all
  moreover have "continuationToken sampleClient = ''t0''" "length (sFrames sampleSession) = 3" by code_simp+
  ultimately show ?thesis using st stream_token [OF st] by metis
qed

theorem policy_versions_monotone_witness:
  "\<exists>r c'. receiveLoop sampleEnv ''nonce'' (sFrames sampleSession) sampleClient = (r, c') \<and>
     lastBundleVersion sampleClient \<le> lastBundleVersion c' \<and> lastBundleVersion c' = 3"
proof -
  obtain r c' where rl: "receiveLoop sampleEnv ''nonce'' (sFrames sampleSession) sampleClient = (r, c')" by fastforce
  have v: "\<forall>f \<in> set (sFrames sampleSession). versioned (snd f)" by code_simp
  have "lastBundleVersion (snd (receiveLoop sampleEnv ''nonce'' (sFrames sampleSession) sampleClient)) = 3" by code_simp
  with rl policy_versions_monotone [OF v rl] show ?thesis by auto
qed

text \<open>A refused round, a clean one, and a round in which the context is cancelled.\<close>

definition sampleSessions :: "unit Session list" where
  "sampleSessions = [sampleSession, sampleSession\<lparr>sFrames := []\<rparr>, sampleSession\<lparr>sDone := True\<rparr>]"

theorem Run_backoff_bounds_witness:
  "\<exists>ending w c'. Run sampleEnv (Some (\<lambda>_ c. (Inl ErrStale, c))) sampleSessions sampleClient = ([Some w, None], ending, c') \<and>
     ending = ContextDone \<and> w = seconds"
proof -
  let ?rb = "Some (\<lambda>_ c. (Inl ErrStale, c))"
  let ?run = "Run sampleEnv ?rb sampleSessions sampleClient"
  have l: "map Option.is_none (fst ?run) = [False, True]" "fst (snd ?run) = ContextDone" by code_simp+
  obtain pauses ending c' where r: "?run = (pauses, ending, c')" by (metis surj_pair)
  from l(1) r obtain w where w: "pauses = [Some w, None]"
    by (auto simp: map_eq_Cons_conv Option.is_none_def split: option.splits)
  have "0 < length pauses" by (simp add: w)
  moreover have "pauses ! 0 = Some w" "due seconds pauses 0 = seconds" by (simp_all add: w due_def)
  ultimately have "w = seconds"
    using Run_backoff_bounds [OF r, THEN conjunct1, THEN spec, of 0] unfolding Let_def by presburger
  with l(2) r w show ?thesis by simp
qed

section \<open>Bundle swaps keep dynamic data\<close>

text \<open>
  What the client relies on of OPA's in-memory store, with \<open>look\<close> its documents by path: a new store
  holds the given object, and a committed write is read back at its path and leaves every diverging
  path alone.
\<close>

definition opa_store_ok :: "('mod, 'c, 'st, 'txn, 'q) OPA \<Rightarrow> ('st \<Rightarrow> string list \<Rightarrow> json option) \<Rightarrow> bool" where
  "opa_store_ok opa look \<longleftrightarrow>
     (\<forall>d q. look (newFromObject opa d) q = at_path q d) \<and>
     (\<forall>st t op p v t' st'. newTransaction opa st = Inr t \<longrightarrow> writeData opa op p v t = Inr t' \<longrightarrow>
        commitData opa t' st = Inr st' \<longrightarrow> p \<noteq> [] \<longrightarrow>
        look st' p = Some v \<and> (\<forall>q. diverge p q \<longrightarrow> look st' q = look st q))"

definition parts :: "string \<Rightarrow> string list" where
  "parts path = split_on CHR ''/'' path"

lemma parts_neq_Nil [simp]: "parts path \<noteq> []"
  by (simp add: parts_def)

text \<open>The document of the bundle in force, by path.\<close>

definition policyDoc :: "('st \<Rightarrow> string list \<Rightarrow> json option) \<Rightarrow> ('s, 'm, 'x, 'c, 'st, 'q) PolicyEngine \<Rightarrow> string list \<Rightarrow> json option" where
  "policyDoc look pe q = (case pBundle pe of None \<Rightarrow> None | Some bs \<Rightarrow> look (bsStore bs) q)"

lemma SetPolicyData_doc:
  assumes "opa_store_ok opa look" and "SetPolicyData opa path v pe = (None, pe')"
  shows "policyDoc look pe' (parts path) = Some v"
    and "diverge (parts path) q \<Longrightarrow> policyDoc look pe' q = policyDoc look pe q"
proof -
  from assms(2) obtain bs where bs: "pBundle pe = Some bs" by (cases "pBundle pe") (auto simp: SetPolicyData_def)
  from assms(2) bs obtain t op t' st where w: "newTransaction opa (bsStore bs) = Inr t" "writeData opa op (parts path) v t = Inr t'"
    "commitData opa t' (bsStore bs) = Inr st" "pe' = pe\<lparr>pBundle := Some (bs\<lparr>bsStore := st\<rparr>)\<rparr>"
    by (auto simp: SetPolicyData_def parts_def Let_def split: sum.splits)
  have "look st (parts path) = Some v \<and> (\<forall>q. diverge (parts path) q \<longrightarrow> look st q = look (bsStore bs) q)"
    using assms(1) w(1-3) parts_neq_Nil unfolding opa_store_ok_def by blast
  then show "policyDoc look pe' (parts path) = Some v" and "diverge (parts path) q \<Longrightarrow> policyDoc look pe' q = policyDoc look pe q"
    using w(4) bs by (simp_all add: policyDoc_def)
qed

text \<open>Setting values at paths of which no two are prefixes of one another.\<close>

definition independent :: "(string \<times> json) list \<Rightarrow> bool" where
  "independent kvs \<longleftrightarrow> (\<forall>p \<in> set kvs. \<forall>q \<in> set kvs. fst p \<noteq> fst q \<longrightarrow> diverge (parts (fst p)) (parts (fst q)))"

lemma overlay_doc:
  assumes "opa_store_ok opa look" and "distinct (map fst kvs)" and "independent kvs"
    and "first_err_st (\<lambda>(path, v). onPolicy (SetPolicyData opa path v)) kvs c = (None, c')"
  shows "(\<forall>(path, v) \<in> set kvs. policyDoc look (cPolicy c') (parts path) = Some v) \<and>
    (\<forall>q. (\<forall>kv \<in> set kvs. diverge (parts (fst kv)) q) \<longrightarrow> policyDoc look (cPolicy c') q = policyDoc look (cPolicy c) q)"
  using assms(2-)
proof (induction kvs arbitrary: c)
  case (Cons kv kvs)
  obtain path v where kv: "kv = (path, v)" by (cases kv)
  obtain r1 pe1 where s1: "SetPolicyData opa path v (cPolicy c) = (r1, pe1)" by fastforce
  then have "onPolicy (SetPolicyData opa path v) c = (r1, c\<lparr>cPolicy := pe1\<rparr>)" by (simp add: onPolicy_def)
  with Cons.prems(3) kv s1 have s: "SetPolicyData opa path v (cPolicy c) = (None, pe1)"
    and rest: "first_err_st (\<lambda>(path, v). onPolicy (SetPolicyData opa path v)) kvs (c\<lparr>cPolicy := pe1\<rparr>) = (None, c')"
    by (auto split: option.splits)
  have ih: "(\<forall>(path, v) \<in> set kvs. policyDoc look (cPolicy c') (parts path) = Some v) \<and>
      (\<forall>q. (\<forall>kv \<in> set kvs. diverge (parts (fst kv)) q) \<longrightarrow> policyDoc look (cPolicy c') q = policyDoc look pe1 q)"
    using Cons.IH [OF _ _ rest] Cons.prems(1,2) by (simp add: independent_def)
  have "\<forall>x \<in> set kvs. diverge (parts (fst x)) (parts path)"
    using Cons.prems(1,2) kv by (force simp: independent_def)
  then have "policyDoc look (cPolicy c') (parts path) = policyDoc look pe1 (parts path)" using ih by blast
  with SetPolicyData_doc [OF assms(1) s] ih kv show ?case by auto
qed simp

lemma LoadBundle_doc:
  assumes "opa_store_ok opa look" and "LoadBundle opa d pd pe = (None, pe')"
  shows "\<exists>b. readBundle opa d = Inr b \<and>
    policyDoc look pe' q = at_path q (overlayData pd (case bData b of None \<Rightarrow> [] | Some d \<Rightarrow> d))"
  using assms by (cases rule: LoadBundle_cases [of opa d pd pe]) (auto simp: policyDoc_def opa_store_ok_def)

text \<open>
  A bundle swap does not lose dynamic data. When a bundle frame is applied, every data path the
  client tracks reads its latest value afterwards, as long as no tracked path is a prefix of another;
  every path diverging from them reads what the new bundle's own data overlaid with the data of the
  last bootstrap holds. (The laws of OPA's in-memory store are the hypothesis \<open>opa_store_ok\<close>.)
\<close>

theorem bundle_swap_keeps_data:
  assumes "opa_store_ok opa look" and "applyPolicyBundle opa (Some (b, version)) c = (None, c')"
    and "b \<noteq> []" and "version = 0 \<or> lastBundleVersion c < version"
    and "distinct (map fst (lastDataValue c))" and "independent (lastDataValue c)"
  shows "lastDataValue c' = lastDataValue c \<and> lastBundleVersion c' = version \<and>
    (\<forall>(path, v) \<in> set (lastDataValue c). policyDoc look (cPolicy c') (parts path) = Some v) \<and>
    (\<exists>newB. readBundle opa b = Inr newB \<and>
      (\<forall>q. (\<forall>kv \<in> set (lastDataValue c). diverge (parts (fst kv)) q) \<longrightarrow>
         policyDoc look (cPolicy c') q =
           at_path q (overlayData (baselineData c) (case bData newB of None \<Rightarrow> [] | Some d \<Rightarrow> d))))"
proof -
  obtain r1 pe1 where l: "LoadBundle opa b (baselineData c) (cPolicy c) = (r1, pe1)" by fastforce
  have ol: "onPolicy (LoadBundle opa b (baselineData c)) c = (r1, c\<lparr>cPolicy := pe1\<rparr>)" by (simp add: onPolicy_def l)
  obtain r2 c2 where o: "first_err_st (\<lambda>(path, v). onPolicy (SetPolicyData opa path v)) (lastDataValue c) (c\<lparr>cPolicy := pe1\<rparr>) = (r2, c2)"
    by fastforce
  from assms(2-4) ol o have r: "r1 = None" "r2 = None" "c' = c2\<lparr>lastBundleVersion := version\<rparr>"
    by (auto simp: applyPolicyBundle_def split: option.splits)
  from overlay_frame [of opa "lastDataValue c" "c\<lparr>cPolicy := pe1\<rparr>"] obtain pe2 where c2: "c2 = c\<lparr>cPolicy := pe2\<rparr>"
    by (auto simp: o)
  note ov = overlay_doc [OF assms(1,5,6) o [unfolded r(2)]]
  obtain newB where bd: "readBundle opa b = Inr newB"
    using LoadBundle_doc [OF assms(1) l [unfolded r(1)]] by blast
  have "policyDoc look pe1 q = at_path q (overlayData (baselineData c) (case bData newB of None \<Rightarrow> [] | Some d \<Rightarrow> d))" for q
    using LoadBundle_doc [OF assms(1) l [unfolded r(1)], of q] bd by auto
  with ov r(3) c2 bd show ?thesis by auto
qed

lemma sampleOPA_store_ok: "opa_store_ok sampleOPA (\<lambda>st q. at_path q st)"
  by (auto simp: opa_store_ok_def sampleOPA_def at_path_set at_path_other split: option.splits json.splits)

definition overlayClient :: sample_client where
  "overlayClient = sampleClient\<lparr>baselineData := [(''atol/region'', JStr ''eu'')], lastDataValue := [(''atol/plan'', JBool True)]\<rparr>"

theorem bundle_swap_keeps_data_witness:
  "\<exists>c'. applyPolicyBundle sampleOPA (Some (''rego'', 1)) overlayClient = (None, c') \<and>
     policyDoc (\<lambda>st q. at_path q st) (cPolicy c') [''atol'', ''plan''] = Some (JBool True) \<and>
     policyDoc (\<lambda>st q. at_path q st) (cPolicy c') [''atol'', ''region''] = Some (JStr ''eu'')"
proof -
  obtain r c' where ap: "applyPolicyBundle sampleOPA (Some (''rego'', 1)) overlayClient = (r, c')" by fastforce
  have "fst (applyPolicyBundle sampleOPA (Some (''rego'', 1)) overlayClient) = None" by code_simp
  with ap have ap: "applyPolicyBundle sampleOPA (Some (''rego'', 1)) overlayClient = (None, c')" by simp
  have c: "lastDataValue overlayClient = [(''atol/plan'', JBool True)]" "lastBundleVersion overlayClient < 1"
    "baselineData overlayClient = [(''atol/region'', JStr ''eu'')]" by code_simp+
  have p: "parts ''atol/plan'' = [''atol'', ''plan'']" by code_simp
  have rb: "readBundle sampleOPA ''rego'' = Inr newB \<Longrightarrow> bData newB = None" for newB by (auto simp: sampleOPA_def)
  have ov: "at_path [''atol'', ''region''] (overlayData [(''atol/region'', JStr ''eu'')] []) = Some (JStr ''eu'')" by code_simp
  note all = bundle_swap_keeps_data [OF sampleOPA_store_ok ap, unfolded c(1,3)]
  from all c(2) rb ov p ap show ?thesis by (force simp: independent_def)
qed

end
