(* ===== verification/Decision_Log.thy ===== *)
theory Decision_Log
  imports Serving_Gate "HOL-Library.Sublist"
begin

text \<open>
  Decision logging (\<open>decision/buffer.go\<close>, \<open>logger.go\<close>, \<open>sink.go\<close>): the bounded buffer that drops
  when full, the logger that stamps, buffers and counts, its flushes, and the sink that
  streams a batch to the control plane. The stream's calls are parameters over a state of the control
  plane. The flush goroutine and the callers of \<open>Log\<close> are serialized by the buffer's mutex, so a run is
  a sequence of \<open>Log\<close> and \<open>flush\<close> calls.
\<close>

section \<open>Buffer\<close>

record Entry =
  RequestID :: string
  eUser :: string
  eRelation :: string
  eObject :: string
  eAllowed :: bool
  eMatchedRule :: string
  eEvalUs :: int
  eZanzibarCalls :: int
  eAuthMethod :: string
  eTimestamp :: int

record Buffer =
  entries :: "Entry list"
  bufSize :: int

text \<open>\<open>make([]Entry, 0, size)\<close> panics on a negative sz: \<open>None\<close>.\<close>

definition NewBuffer :: "int \<Rightarrow> Buffer option" where
  "NewBuffer sz = (if sz < 0 then None else Some \<lparr>entries = [], bufSize = sz\<rparr>)"

definition Push :: "Entry \<Rightarrow> Buffer \<Rightarrow> bool \<times> Buffer" where
  "Push e b =
     (if int (length (entries b)) \<ge> bufSize b then (False, b)
      else (True, b\<lparr>entries := entries b @ [e]\<rparr>))"

text \<open>
  The count of \<open>Drain\<close> is the flush size of the logger, the constant 500: a negative count, on which
  the source would panic, does not arise.
\<close>

definition Drain :: "nat \<Rightarrow> Buffer \<Rightarrow> Entry list \<times> Buffer" where
  "Drain n b =
     (if entries b = [] then ([], b)
      else (let n' = (if n > length (entries b) then length (entries b) else n) in
            (take n' (entries b), b\<lparr>entries := drop n' (entries b)\<rparr>)))"

definition Len :: "Buffer \<Rightarrow> nat" where
  "Len b = length (entries b)"

section \<open>Logger\<close>

definition uint64 :: "int \<Rightarrow> int" where
  "uint64 n = n mod 2 ^ 64"

record Logger =
  lBuffer :: Buffer
  flushSize :: nat
  dropped :: int
  reportedDrops :: int
  sendFailures :: int

definition NewLogger :: "int \<Rightarrow> nat \<Rightarrow> Logger option" where
  "NewLogger bufferSize fs =
     map_option (\<lambda>b. \<lparr>lBuffer = b, flushSize = fs, dropped = 0, reportedDrops = 0, sendFailures = 0\<rparr>) (NewBuffer bufferSize)"

definition stamp :: "int \<Rightarrow> Entry \<Rightarrow> Entry" where
  "stamp now e = (if eTimestamp e = zeroTime then e\<lparr>eTimestamp := now\<rparr> else e)"

definition Log :: "int \<Rightarrow> Entry \<Rightarrow> Logger \<Rightarrow> Logger" where
  "Log now e l =
     (case Push (stamp now e) (lBuffer l) of
        (True, b) \<Rightarrow> l\<lparr>lBuffer := b\<rparr>
      | (False, b) \<Rightarrow> l\<lparr>lBuffer := b, dropped := uint64 (dropped l + 1)\<rparr>)"

definition Dropped :: "Logger \<Rightarrow> int" where
  "Dropped l = dropped l"

definition SendFailures :: "Logger \<Rightarrow> int" where
  "SendFailures l = sendFailures l"

text \<open>\<open>send\<close> is the sink's \<open>Send\<close> over the state \<open>'k\<close> of what receives the batches.\<close>

definition flush :: "(Entry list \<Rightarrow> 'k \<Rightarrow> goerror option \<times> 'k) \<Rightarrow> Logger \<Rightarrow> 'k \<Rightarrow> Logger \<times> 'k" where
  "flush send l k =
     (let l1 = (if dropped l > reportedDrops l then l\<lparr>reportedDrops := dropped l\<rparr> else l) in
      case Drain (flushSize l1) (lBuffer l1) of (batch, b) \<Rightarrow>
        (let l2 = l1\<lparr>lBuffer := b\<rparr> in
         if batch = [] then (l2, k)
         else case send batch k of
           (None, k') \<Rightarrow> (l2, k')
         | (Some _, k') \<Rightarrow> (l2\<lparr>sendFailures := uint64 (sendFailures l2 + 1)\<rparr>, k')))"

text \<open>\<open>Stop\<close>, once the flush goroutine has returned: one final flush.\<close>

definition Stop :: "(Entry list \<Rightarrow> 'k \<Rightarrow> goerror option \<times> 'k) \<Rightarrow> Logger \<Rightarrow> 'k \<Rightarrow> Logger \<times> 'k" where
  "Stop send l k = flush send l k"

section \<open>Sink\<close>

text \<open>\<open>streamSend\<close> and \<open>closeAndReceive\<close> are the client stream of the control plane, on one log record
  of the organisation.\<close>

fun sendLoop :: "(string \<times> Entry \<Rightarrow> 'k \<Rightarrow> goerror option \<times> 'k) \<Rightarrow> string \<Rightarrow> Entry list \<Rightarrow> 'k \<Rightarrow> goerror option \<times> 'k" where
  "sendLoop streamSend org [] k = (None, k)"
| "sendLoop streamSend org (e # es) k =
     (case streamSend (org, e) k of
        (Some err, k') \<Rightarrow> (Some (Wrapf STR ''send decision log: %w'' [] err), k')
      | (None, k') \<Rightarrow> sendLoop streamSend org es k')"

definition Send ::
    "(string \<times> Entry \<Rightarrow> 'k \<Rightarrow> goerror option \<times> 'k) \<Rightarrow> ('k \<Rightarrow> goerror option \<times> 'k) \<Rightarrow> string \<Rightarrow> Entry list \<Rightarrow> 'k \<Rightarrow>
     goerror option \<times> 'k" where
  "Send streamSend closeAndReceive org batch k =
     (if batch = [] then (None, k)
      else case sendLoop streamSend org batch k of
        (Some err, k') \<Rightarrow> (Some err, k')
      | (None, k') \<Rightarrow>
          (case closeAndReceive k' of
             (Some err, k'') \<Rightarrow> (Some (Wrapf STR ''close decision log stream: %w'' [] err), k'')
           | (None, k'') \<Rightarrow> (None, k'')))"

section \<open>Accounting\<close>

datatype log_event = LogE int Entry | FlushE

fun log_step :: "(Entry list \<Rightarrow> 'k \<Rightarrow> goerror option \<times> 'k) \<Rightarrow> log_event \<Rightarrow> Logger \<times> 'k \<Rightarrow> Logger \<times> 'k" where
  "log_step send (LogE now e) (l, k) = (Log now e l, k)"
| "log_step send FlushE (l, k) = flush send l k"

definition log_run :: "(Entry list \<Rightarrow> 'k \<Rightarrow> goerror option \<times> 'k) \<Rightarrow> log_event list \<Rightarrow> Logger \<times> 'k \<Rightarrow> Logger \<times> 'k" where
  "log_run send evs = fold (log_step send) evs"

text \<open>A sink that records the batches it is given, and fails where it is told to.\<close>

definition recorder :: "(Entry list \<Rightarrow> goerror option) \<Rightarrow> Entry list \<Rightarrow> (Entry list \<times> bool) list \<Rightarrow> goerror option \<times> (Entry list \<times> bool) list" where
  "recorder fails batch k = (fails batch, k @ [(batch, fails batch = None)])"

text \<open>The entries that were logged, stamped, in order.\<close>

fun logged :: "log_event list \<Rightarrow> Entry list" where
  "logged [] = []"
| "logged (LogE now e # evs) = stamp now e # logged evs"
| "logged (FlushE # evs) = logged evs"

lemma logged_append: "logged (xs @ ys) = logged xs @ logged ys"
  by (induction xs rule: logged.induct) simp_all

text \<open>
  What a logger that started with nothing buffered has done with \<open>n\<close> logged entries: the accepted ones
  are those that were sent, in order, followed by those still buffered; the rest were dropped
  and counted.
\<close>

definition accounted :: "int \<Rightarrow> Entry list \<Rightarrow> Logger \<Rightarrow> (Entry list \<times> bool) list \<Rightarrow> bool" where
  "accounted sz es l k \<longleftrightarrow>
     bufSize (lBuffer l) = sz \<and> int (length (entries (lBuffer l))) \<le> sz \<and>
     (\<exists>acc drops. length es = length acc + drops \<and> subseq acc es \<and> acc = concat (map fst k) @ entries (lBuffer l) \<and>
        dropped l = uint64 (int drops)) \<and>
     sendFailures l = uint64 (int (length (filter (\<lambda>b. \<not> snd b) k)))"

lemma uint64_Suc: "uint64 (1 + uint64 n) = uint64 (1 + n)"
  by (simp add: uint64_def mod_simps)

lemma subseq_snoc: "subseq xs ys \<Longrightarrow> subseq xs (ys @ [y])" "subseq xs ys \<Longrightarrow> subseq (xs @ [y]) (ys @ [y])"
  using list_emb_append_mono [of "(=)" xs ys "[]" "[y]"] list_emb_append_mono [of "(=)" xs ys "[y]" "[y]"] by auto

lemma accounted_Log:
  assumes "accounted sz es l k" shows "accounted sz (es @ [stamp now e]) (Log now e l) k"
proof -
  from assms obtain acc drops where a: "length es = length acc + drops" "subseq acc es"
    "acc = concat (map fst k) @ entries (lBuffer l)" "dropped l = uint64 (int drops)"
    and b: "bufSize (lBuffer l) = sz" "int (length (entries (lBuffer l))) \<le> sz"
      "sendFailures l = uint64 (int (length (filter (\<lambda>b. \<not> snd b) k)))"
    by (auto simp: accounted_def)
  show ?thesis
  proof (cases "int (length (entries (lBuffer l))) \<ge> bufSize (lBuffer l)")
    case True
    then have "Log now e l = l\<lparr>dropped := uint64 (dropped l + 1)\<rparr>" by (simp add: Log_def Push_def)
    with a b show ?thesis unfolding accounted_def
      by (auto simp: uint64_Suc algebra_simps subseq_snoc intro!: exI [of _ acc] exI [of _ "Suc drops"])
  next
    case False
    let ?b = "(lBuffer l)\<lparr>entries := entries (lBuffer l) @ [stamp now e]\<rparr>"
    from False have "Log now e l = l\<lparr>lBuffer := ?b\<rparr>" by (simp add: Log_def Push_def)
    with a b False show ?thesis unfolding accounted_def
      by (intro conjI exI [of _ "acc @ [stamp now e]"] exI [of _ drops])
        (auto simp: append_assoc [symmetric] subseq_snoc simp del: append_assoc)
  qed
qed

lemma accounted_flush:
  assumes "accounted sz es l k" and "flush (recorder fails) l k = (l', k')"
  shows "accounted sz es l' k'"
proof -
  from assms(1) obtain acc drops where a: "length es = length acc + drops" "subseq acc es"
    "acc = concat (map fst k) @ entries (lBuffer l)" "dropped l = uint64 (int drops)"
    and b: "bufSize (lBuffer l) = sz" "int (length (entries (lBuffer l))) \<le> sz"
      "sendFailures l = uint64 (int (length (filter (\<lambda>b. \<not> snd b) k)))"
    by (auto simp: accounted_def)
  obtain batch buf where d: "Drain (flushSize l) (lBuffer l) = (batch, buf)" by fastforce
  then have split: "entries (lBuffer l) = batch @ entries buf" "bufSize buf = sz"
    using b(1) by (auto simp: Drain_def Let_def split: if_splits)
  define l1 where "l1 = (if dropped l > reportedDrops l then l\<lparr>reportedDrops := dropped l\<rparr> else l)"
  have l1: "lBuffer l1 = lBuffer l" "flushSize l1 = flushSize l" "dropped l1 = dropped l" "sendFailures l1 = sendFailures l"
    by (simp_all add: l1_def)
  show ?thesis
  proof (cases "batch = []")
    case True
    with assms(2) d l1 have "l' = l1\<lparr>lBuffer := buf\<rparr>" "k' = k" by (simp_all add: flush_def l1_def [symmetric] Let_def)
    with a b l1 split True show ?thesis unfolding accounted_def by (auto intro!: exI [of _ acc] exI [of _ drops])
  next
    case False
    have k': "k' = k @ [(batch, fails batch = None)]"
      and l': "l' = (if fails batch = None then l1\<lparr>lBuffer := buf\<rparr>
                else l1\<lparr>lBuffer := buf, sendFailures := uint64 (sendFailures l1 + 1)\<rparr>)"
      using assms(2) d l1 False
      by (auto simp: flush_def l1_def [symmetric] Let_def recorder_def split: option.splits)
    have "sendFailures l' = uint64 (int (length (filter (\<lambda>b. \<not> snd b) k')))"
      using b(3) l1 by (simp add: l' k' uint64_Suc algebra_simps)
    with a b l1 split k' l' show ?thesis unfolding accounted_def by (auto intro!: exI [of _ acc] exI [of _ drops])
  qed
qed

text \<open>
  C32. Decision logs are accounted for. From a new logger, after any sequence of log calls and
  flushes, whatever the sink answers: the buffer is within its size; the entries accepted are exactly
  those handed to the sink, in order, followed by those still buffered; every other logged entry is
  counted in \<open>Dropped\<close>, and every failed batch in \<open>SendFailures\<close> (as 64-bit counters).
\<close>

theorem logger_accounts:
  assumes "NewLogger sz fs = Some l0" and "log_run (recorder fails) evs (l0, []) = (l, k)"
  shows "accounted sz (logged evs) l k"
  using assms(2)
proof (induction evs arbitrary: l k rule: rev_induct)
  case Nil
  with assms(1) show ?case by (auto simp: log_run_def NewLogger_def NewBuffer_def accounted_def uint64_def split: if_splits)
next
  case (snoc ev evs)
  obtain l1 k1 where run: "log_run (recorder fails) evs (l0, []) = (l1, k1)" by fastforce
  with snoc.prems have st: "log_step (recorder fails) ev (l1, k1) = (l, k)" by (simp add: log_run_def)
  note ih = snoc.IH [OF run]
  show ?case
  proof (cases ev)
    case (LogE now e)
    with st accounted_Log [OF ih, of now e] show ?thesis by (auto simp: logged_append)
  next
    case FlushE
    with st accounted_flush [OF ih] show ?thesis by (simp add: logged_append)
  qed
qed

definition sampleEntry :: "string \<Rightarrow> Entry" where
  "sampleEntry u = \<lparr>RequestID = [], eUser = u, eRelation = ''viewer'', eObject = ''doc:1'', eAllowed = True, eMatchedRule = ''zanzibar.check'',
     eEvalUs = 5, eZanzibarCalls = 1, eAuthMethod = [], eTimestamp = zeroTime\<rparr>"

theorem logger_accounts_witness:
  "\<exists>l0 l k. NewLogger 1 500 = Some l0 \<and>
     log_run (recorder (\<lambda>_. None)) [LogE 1 (sampleEntry ''ann''), LogE 2 (sampleEntry ''bob''), FlushE] (l0, []) = (l, k) \<and>
     dropped l = 1 \<and> accounted 1 (map (stamp 1) [sampleEntry ''ann''] @ map (stamp 2) [sampleEntry ''bob'']) l k"
proof -
  obtain l0 where l0: "NewLogger 1 500 = Some l0" by (simp add: NewLogger_def NewBuffer_def)
  obtain l k where run: "log_run (recorder (\<lambda>_. None)) [LogE 1 (sampleEntry ''ann''), LogE 2 (sampleEntry ''bob''), FlushE] (l0, []) = (l, k)"
    by fastforce
  have "dropped l = 1"
    using l0 run by (auto simp: NewLogger_def NewBuffer_def log_run_def Log_def Push_def flush_def Drain_def recorder_def uint64_def Let_def)
  with l0 run logger_accounts [OF l0 run] show ?thesis by auto
qed

text \<open>\<open>Stop\<close> makes one flush of at most \<open>flushSize\<close> entries: what is buffered beyond stays behind, unsent
  and uncounted.\<close>

lemma Stop_strands:
  assumes "Stop send l k = (l', k')"
  shows "entries (lBuffer l') = drop (flushSize l) (entries (lBuffer l))" and "dropped l' = dropped l"
  using assms by (auto simp: Stop_def flush_def Drain_def Let_def split: prod.splits option.splits if_splits)

end
