(* ===== verification/Atol_Sdk.thy ===== *)
theory Atol_Sdk
  imports Sync_Client Decision_Log
begin

text \<open>
  The SDK entry point: configuration (\<open>config.go\<close>), construction and decisions (\<open>atol.go\<close>, \<open>check.go\<close>),
  bootstrap (\<open>bootstrap/bootstrap.go\<close>, \<open>sync_lifecycle.go\<close>), the staleness gate (\<open>staleness.go\<close>), the
  serving gate at the entry points (\<open>tenant_serving.go\<close>), materializers (\<open>materializer.go\<close>),
  grants and revokes (\<open>tuple_writer.go\<close>) and the relationship listings (\<open>access_list.go\<close>).

  The SDK embeds the relationship engine over the in-memory store, without model store and notifier.
  Its engines are shared with the sync client once there is one: \<open>engines\<close> reads them, \<open>setEngines\<close>
  writes them. The clock is that of the engines' world. Callbacks of the application, files and answers
  of the control plane are arguments.
\<close>

section \<open>Configuration\<close>

record Config =
  cfgControlPlaneURL :: string
  cfgKeyID :: string
  cfgSecretKey :: string
  cfgStoreID :: string
  cfgZanzibarModelPath :: string
  cfgIssuer :: string
  cfgAudience :: string
  cfgJWKSUrl :: string
  cfgBootstrapTimeout :: int
  cfgDisableSync :: bool
  cfgDecisionLogFlushInterval :: int
  cfgDecisionLogBufferSize :: int
  cfgDeviceEnabled :: bool
  cfgDeviceControlPlaneURL :: string
  cfgDeviceAPIKey :: string
  cfgRequireDPoP :: bool
  cfgMaxStaleness :: int
  cfgStalenessMode :: int
  cfgBootstrapInterval :: int

text \<open>The \<open>StalenessMode\<close> constants; the Go type is an \<open>int\<close>, so other values exist.\<close>

definition StalenessOff :: int where "StalenessOff = 0"
definition StalenessError :: int where "StalenessError = 1"
definition StalenessFailClosed :: int where "StalenessFailClosed = 2"

definition defaults :: "Config \<Rightarrow> Config" where
  "defaults c =
     (let c1 = (if cfgIssuer c = [] then c\<lparr>cfgIssuer := cfgControlPlaneURL c\<rparr> else c);
          c2 = (if cfgJWKSUrl c1 = []
                then (let base = (if cfgIssuer c1 = [] then cfgControlPlaneURL c1 else cfgIssuer c1) in
                      if base \<noteq> [] then c1\<lparr>cfgJWKSUrl := base @ ''/.well-known/jwks.json''\<rparr> else c1)
                else c1);
          c3 = (if cfgBootstrapTimeout c2 = 0 then c2\<lparr>cfgBootstrapTimeout := 10 * seconds\<rparr> else c2);
          c4 = (if cfgDecisionLogFlushInterval c3 = 0 then c3\<lparr>cfgDecisionLogFlushInterval := 5 * seconds\<rparr> else c3);
          c5 = (if cfgDecisionLogBufferSize c4 = 0 then c4\<lparr>cfgDecisionLogBufferSize := 10000\<rparr> else c4);
          c6 = (if cfgDeviceControlPlaneURL c5 = [] then c5\<lparr>cfgDeviceControlPlaneURL := cfgControlPlaneURL c5\<rparr> else c5)
      in if cfgDeviceAPIKey c6 = [] then c6\<lparr>cfgDeviceAPIKey := cfgKeyID c6\<rparr> else c6)"

section \<open>Contexts\<close>

record Principal =
  pUserID :: string
  pIdentityID :: string
  pOrgID :: string
  pEmail :: string
  pEmailVerified :: bool
  pAuthMethod :: string
  pRoles :: "string list option"
  pPlan :: string
  pMFAVerified :: bool
  pTrustDomain :: string
  pAuthTime :: int
  pClientIP :: string

record Identity =
  idID :: string
  idScheme :: string
  idAuthMethod :: string

record SmartSignals =
  sgBot :: bool
  sgVPN :: bool
  sgProxy :: bool
  sgTor :: bool
  sgIncognito :: bool
  sgTampered :: bool
  sgEmulator :: bool
  sgRooted :: bool
  sgGeoMismatch :: bool
  sgAnomalyScore :: string

record DeviceContext =
  dvDeviceID :: string
  dvKnown :: bool
  dvConfidence :: string
  dvSignals :: "SmartSignals option"

text \<open>The values of a request context that the SDK reads.\<close>

record ReqCtx =
  rcCtx :: Context
  rcUser :: "Principal option"
  rcIdentity :: "Identity option"
  rcDevice :: "DeviceContext option"

definition InjectOPAInput :: "jobj \<Rightarrow> DeviceContext option \<Rightarrow> jobj" where
  "InjectOPAInput input device =
     (case device of
        None \<Rightarrow> input
      | Some d \<Rightarrow>
          (let base = [(''id'', JStr (dvDeviceID d)), (''known'', JBool (dvKnown d)), (''confidence'', JNum (dvConfidence d))];
               full = (case dvSignals d of
                  None \<Rightarrow> base
                | Some s \<Rightarrow> base @ [(''signals'', JObj
                    [(''bot'', JBool (sgBot s)), (''vpn'', JBool (sgVPN s)), (''proxy'', JBool (sgProxy s)),
                     (''tor'', JBool (sgTor s)), (''incognito'', JBool (sgIncognito s)), (''tampered'', JBool (sgTampered s)),
                     (''emulator'', JBool (sgEmulator s)), (''rooted'', JBool (sgRooted s)),
                     (''geo_mismatch'', JBool (sgGeoMismatch s)), (''anomaly_score'', JNum (sgAnomalyScore s))])])
           in AList.update ''device'' (JObj full) input))"

section \<open>State\<close>

datatype tupleWriter = LocalWriter | RemoteWriter string

type_synonym ('n, 'c, 'st, 'q) SdkPolicy = "(MemoryStore, unit, 'n World, 'c, 'st, 'q) PolicyEngine"
type_synonym ('n, 'c, 'st, 'q) SdkClient = "(MemoryStore, unit, 'n, 'c, 'st, 'q) Client"

text \<open>A materializer is its callback on the state of the application.\<close>

record ('n, 'c, 'st, 'q) Atol =
  aConfig :: Config
  aPolicy :: "('n, 'c, 'st, 'q) SdkPolicy"
  aSync :: "('n, 'c, 'st, 'q) SdkClient option"
  aServingGateRequired :: bool
  aLocalOnly :: bool
  aBootstrapped :: bool
  aBootstrapTime :: int
  aLogger :: "Logger option"
  aMaterializers :: "(string \<times> ('n \<Rightarrow> Tuple list res)) list"
  aTupleWriter :: "tupleWriter option"

definition engines :: "('n, 'c, 'st, 'q) Atol \<Rightarrow> ('n, 'c, 'st, 'q) SdkPolicy" where
  "engines a = (case aSync a of None \<Rightarrow> aPolicy a | Some c \<Rightarrow> cPolicy c)"

definition setEngines :: "('n, 'c, 'st, 'q) SdkPolicy \<Rightarrow> ('n, 'c, 'st, 'q) Atol \<Rightarrow> ('n, 'c, 'st, 'q) Atol" where
  "setEngines pe a = (case aSync a of None \<Rightarrow> a\<lparr>aPolicy := pe\<rparr> | Some c \<Rightarrow> a\<lparr>aSync := Some (c\<lparr>cPolicy := pe\<rparr>)\<rparr>)"

definition sdkWorld :: "('n, 'c, 'st, 'q) Atol \<Rightarrow> 'n World" where
  "sdkWorld a = outside (pZanzibar (engines a))"

definition sdkZanzibar :: "('n, 'c, 'st, 'q) Atol \<Rightarrow> (MemoryStore, unit, 'n World) Engine" where
  "sdkZanzibar a = pZanzibar (engines a)"

definition setZanzibar :: "(MemoryStore, unit, 'n World) Engine \<Rightarrow> ('n, 'c, 'st, 'q) Atol \<Rightarrow> ('n, 'c, 'st, 'q) Atol" where
  "setZanzibar e a = setEngines ((engines a)\<lparr>pZanzibar := e\<rparr>) a"

section \<open>Construction\<close>

text \<open>
  \<open>newOptions\<close>, and what construction meets outside: the cursor encoding of the store, the file with
  the model and the metrics registration. \<open>None\<close> is the panic of a negative log buffer size. The
  token, session and DPoP validators, the drift detector and the HTTP client are not part of the state.
\<close>

record newOptions =
  noLocalOnly :: bool
  noMaxStaleness :: "int option"
  noStalenessMode :: "int option"
  noBootstrapInterval :: "int option"

definition newConfig :: "newOptions \<Rightarrow> Config \<Rightarrow> Config" where
  "newConfig no config =
     (let c1 = (case noMaxStaleness no of None \<Rightarrow> config | Some d \<Rightarrow> config\<lparr>cfgMaxStaleness := d\<rparr>);
          c2 = (case noStalenessMode no of None \<Rightarrow> c1 | Some m \<Rightarrow> c1\<lparr>cfgStalenessMode := m\<rparr>);
          c3 = (case noBootstrapInterval no of None \<Rightarrow> c2 | Some d \<Rightarrow> c2\<lparr>cfgBootstrapInterval := d\<rparr>)
      in defaults c3)"

definition NewAtol ::
    "CursorCodec \<Rightarrow> (string \<Rightarrow> yamlModel res) \<Rightarrow> (string \<Rightarrow> string res) \<Rightarrow> goerror option \<Rightarrow> int \<Rightarrow> 'n \<Rightarrow> newOptions \<Rightarrow> Config \<Rightarrow>
     ('n, 'c, 'st, 'q) Atol res option" where
  "NewAtol codec unm readFile metricsErr now host no config0 =
     (let config = newConfig no config0 in
      if cfgDisableSync config \<and> \<not> noLocalOnly no \<and> cfgControlPlaneURL config \<noteq> [] \<and> cfgStoreID config \<noteq> []
      then Some (Inl (Errorf STR ''disable sync is incompatible with tenant serving lease enforcement'' []))
      else
        (let z0 = NewEngine (memoryEngineStore codec) None None NewMemoryStore ()
                    \<lparr>wGate = NewTenantServingGate, wNow = now, wHost = host\<rparr>;
             loaded =
               (if cfgZanzibarModelPath config = [] then Inr z0
                else case readFile (cfgZanzibarModelPath config) of
                  Inl err \<Rightarrow> Inl (Wrapf STR ''read zanzibar model %s: %w'' [cfgZanzibarModelPath config] err)
                | Inr modelData \<Rightarrow>
                    (case LoadModel unm modelData z0 of
                       (Some err, _) \<Rightarrow> Inl (Wrapf STR ''load zanzibar model %s: %w'' [cfgZanzibarModelPath config] err)
                     | (None, z1) \<Rightarrow> Inr z1));
             required = \<not> noLocalOnly no \<and> cfgControlPlaneURL config \<noteq> [] \<and> cfgStoreID config \<noteq> []
         in case loaded of
              Inl err \<Rightarrow> Some (Inl err)
            | Inr z \<Rightarrow>
                (case (if cfgControlPlaneURL config \<noteq> [] \<and> cfgStoreID config \<noteq> []
                       then map_option Some (NewLogger (cfgDecisionLogBufferSize config) 500) else Some None) of
                   None \<Rightarrow> None
                 | Some logger \<Rightarrow>
                     (case metricsErr of
                        Some err \<Rightarrow> Some (Inl err)
                      | None \<Rightarrow>
                          Some (Inr
                            \<lparr>aConfig = config,
                             aPolicy = NewPolicyEngine (if required then SetTenantServingGate (Some worldGate) z else z),
                             aSync = None, aServingGateRequired = required, aLocalOnly = noLocalOnly no,
                             aBootstrapped = False, aBootstrapTime = zeroTime, aLogger = logger, aMaterializers = [],
                             aTupleWriter =
                               (if noLocalOnly no then Some LocalWriter
                                else if cfgControlPlaneURL config \<noteq> [] then Some (RemoteWriter (cfgStoreID config))
                                else None)\<rparr>)))))"

section \<open>Materializers\<close>

definition RegisterMaterializer ::
    "string \<Rightarrow> ('n \<Rightarrow> Tuple list res) \<Rightarrow> ('n, 'c, 'st, 'q) Atol \<Rightarrow> ('n, 'c, 'st, 'q) Atol" where
  "RegisterMaterializer name fn a = a\<lparr>aMaterializers := AList.update name fn (aMaterializers a)\<rparr>"

definition Materialize :: "string \<Rightarrow> ('n, 'c, 'st, 'q) Atol \<Rightarrow> goerror option \<times> ('n, 'c, 'st, 'q) Atol" where
  "Materialize name a =
     (case map_of (aMaterializers a) name of
        None \<Rightarrow> (Some (Errorf STR ''materializer %q not registered'' [name]), a)
      | Some fn \<Rightarrow>
          (case fn (wHost (sdkWorld a)) of
             Inl err \<Rightarrow> (Some (Wrapf STR ''materializer %q: %w'' [name] err), a)
           | Inr tuples \<Rightarrow>
               (None, setZanzibar ((sdkZanzibar a)\<lparr>tuplesState := WriteMaterialized name tuples (tuplesState (sdkZanzibar a))\<rparr>) a)))"

text \<open>All materializers run; the first error is returned.\<close>

fun materializeLoop :: "string list \<Rightarrow> goerror option \<Rightarrow> ('n, 'c, 'st, 'q) Atol \<Rightarrow> goerror option \<times> ('n, 'c, 'st, 'q) Atol" where
  "materializeLoop [] firstErr a = (firstErr, a)"
| "materializeLoop (name # names) firstErr a =
     (case Materialize name a of
        (Some err, a') \<Rightarrow> materializeLoop names (case firstErr of None \<Rightarrow> Some err | Some e \<Rightarrow> Some e) a'
      | (None, a') \<Rightarrow> materializeLoop names firstErr a')"

definition MaterializeAll :: "('n, 'c, 'st, 'q) Atol \<Rightarrow> goerror option \<times> ('n, 'c, 'st, 'q) Atol" where
  "MaterializeAll a = materializeLoop (map fst (aMaterializers a)) None a"

section \<open>Bootstrap\<close>

record Snapshot =
  snTenantId :: string
  snAuthorizationModel :: string
  snAuthorizationModelRevision :: int
  snTuples :: "(string \<times> string \<times> string) list"
  snPolicyData :: "jobj option"
  snPolicyBundle :: string
  snContinuationToken :: string

record BootResult =
  brContinuationToken :: string
  brTenantID :: string
  brAuthorizationModelRevision :: int
  brPolicyData :: jobj

definition loadSnapshotModel ::
    "(string \<Rightarrow> yamlModel res) \<Rightarrow> Snapshot \<Rightarrow> ('s, 'm, 'x) Engine \<Rightarrow> goerror option \<times> ('s, 'm, 'x) Engine" where
  "loadSnapshotModel unm snap z =
     (if snAuthorizationModel snap = [] then (None, z)
      else if snAuthorizationModelRevision snap > 0
      then ActivateModel unm (snAuthorizationModel snap) (snAuthorizationModelRevision snap) z
      else LoadModel unm (snAuthorizationModel snap) z)"

definition writeSnapshotTuples ::
    "(string \<Rightarrow> yamlModel res) \<Rightarrow> Context \<Rightarrow> (string \<times> string \<times> string) list \<Rightarrow> ('s, 'm, 'x) Engine \<Rightarrow>
     goerror option \<times> ('s, 'm, 'x) Engine" where
  "writeSnapshotTuples unm ctx = first_err_st (\<lambda>(user, relation, object). WriteTuple unm ctx user relation object)"

text \<open>\<open>bootstrap.Bootstrap\<close> on the answer to its request.\<close>

definition Bootstrap ::
    "('mod, 'c, 'st, 'txn, 'q) OPA \<Rightarrow> (string \<Rightarrow> yamlModel res) \<Rightarrow> Context \<Rightarrow> Snapshot res \<Rightarrow>
     ('s, 'm, 'x, 'c, 'st, 'q) PolicyEngine \<Rightarrow> BootResult res \<times> ('s, 'm, 'x, 'c, 'st, 'q) PolicyEngine" where
  "Bootstrap opa unm ctx resp pe =
     (case resp of
        Inl err \<Rightarrow> (Inl (Wrapf STR ''get bootstrap snapshot: %w'' [] err), pe)
      | Inr snap \<Rightarrow>
          if snTenantId snap = []
          then (Inl (Errorf STR ''get bootstrap snapshot: canonical tenant ID is empty'' []), pe)
          else case loadSnapshotModel unm snap (pZanzibar pe) of
            (Some err, z1) \<Rightarrow> (Inl (Wrapf STR ''load authorization model: %w'' [] err), pe\<lparr>pZanzibar := z1\<rparr>)
          | (None, z1) \<Rightarrow>
              (case writeSnapshotTuples unm ctx (snTuples snap) z1 of
                 (Some err, z2) \<Rightarrow> (Inl (Wrapf STR ''write tuple: %w'' [] err), pe\<lparr>pZanzibar := z2\<rparr>)
               | (None, z2) \<Rightarrow>
                   (let policyData = (case snPolicyData snap of None \<Rightarrow> [] | Some d \<Rightarrow> d);
                        result = \<lparr>brContinuationToken = snContinuationToken snap, brTenantID = snTenantId snap,
                                  brAuthorizationModelRevision = snAuthorizationModelRevision snap,
                                  brPolicyData = policyData\<rparr>
                    in if snPolicyBundle snap = [] then (Inr result, pe\<lparr>pZanzibar := z2\<rparr>)
                       else case LoadBundle opa (snPolicyBundle snap) policyData (pe\<lparr>pZanzibar := z2\<rparr>) of
                         (Some err, pe') \<Rightarrow> (Inl (Wrapf STR ''load policy bundle: %w'' [] err), pe')
                       | (None, pe') \<Rightarrow> (Inr result, pe'))))"

definition bootstrapLoad ::
    "('mod, 'c, 'st, 'txn, 'q) OPA \<Rightarrow> (string \<Rightarrow> yamlModel res) \<Rightarrow> Context \<Rightarrow> Snapshot res \<Rightarrow>
     ('n, 'c, 'st, 'q) Atol \<Rightarrow> BootResult res \<times> ('n, 'c, 'st, 'q) Atol" where
  "bootstrapLoad opa unm ctx resp a =
     (case Bootstrap opa unm ctx resp (engines a) of
        (Inl err, pe) \<Rightarrow> (Inl (Wrapf STR ''bootstrap: %w'' [] err), setEngines pe a)
      | (Inr result, pe) \<Rightarrow>
          (case MaterializeAll (setEngines pe a) of
             (Some err, a1) \<Rightarrow> (Inl (Wrapf STR ''materialize: %w'' [] err), a1)
           | (None, a1) \<Rightarrow> (Inr result, a1)))"

definition bindTenant :: "string \<Rightarrow> ('n, 'c, 'st, 'q) Atol \<Rightarrow> goerror option \<times> ('n, 'c, 'st, 'q) Atol" where
  "bindTenant tenantID a =
     (case BindTenant tenantID (wGate (sdkWorld a)) of
        (err, g) \<Rightarrow> (err, setZanzibar ((sdkZanzibar a)\<lparr>outside := (sdkWorld a)\<lparr>wGate := g\<rparr>\<rparr>) a))"

definition markBootstrapped :: "('n, 'c, 'st, 'q) Atol \<Rightarrow> ('n, 'c, 'st, 'q) Atol" where
  "markBootstrapped a = a\<lparr>aBootstrapped := True, aBootstrapTime := wNow (sdkWorld a)\<rparr>"

text \<open>\<open>Bootstrap\<close> of the SDK up to the start of the sync goroutine, which runs \<open>Run\<close> on the client.\<close>

definition BootstrapSdk ::
    "('mod, 'c, 'st, 'txn, 'q) OPA \<Rightarrow> (string \<Rightarrow> yamlModel res) \<Rightarrow> Context \<Rightarrow> Snapshot res \<Rightarrow>
     ('n, 'c, 'st, 'q) Atol \<Rightarrow> goerror option \<times> ('n, 'c, 'st, 'q) Atol" where
  "BootstrapSdk opa unm ctx resp a =
     (if cfgControlPlaneURL (aConfig a) = [] then (Some (Errorf STR ''control plane URL not configured'' []), a)
      else if cfgStoreID (aConfig a) = [] then (Some (Errorf STR ''store ID (org ID) not configured'' []), a)
      else case bootstrapLoad opa unm ctx resp a of
        (Inl err, a1) \<Rightarrow> (Some err, a1)
      | (Inr result, a1) \<Rightarrow>
          (case bindTenant (brTenantID result) a1 of
             (Some err, a2) \<Rightarrow> (Some (Wrapf STR ''bind bootstrap tenant: %w'' [] err), a2)
           | (None, a2) \<Rightarrow>
               (let a3 = markBootstrapped a2 in
                if cfgDisableSync (aConfig a) then (None, a3)
                else (None, a3\<lparr>aSync := Some (SeedPolicyData (brPolicyData result)
                        (NewClient (brTenantID result) (brContinuationToken result)
                           (Some (wGate (sdkWorld a3))) (engines a3)))\<rparr>))))"

definition rebootstrap ::
    "('mod, 'c, 'st, 'txn, 'q) OPA \<Rightarrow> (string \<Rightarrow> yamlModel res) \<Rightarrow> Context \<Rightarrow> Snapshot res \<Rightarrow>
     ('n, 'c, 'st, 'q) Atol \<Rightarrow> string res \<times> ('n, 'c, 'st, 'q) Atol" where
  "rebootstrap opa unm ctx resp a =
     (case bootstrapLoad opa unm ctx resp a of
        (Inl err, a1) \<Rightarrow> (Inl (Wrapf STR ''rebootstrap: %w'' [] err), a1)
      | (Inr result, a1) \<Rightarrow>
          (case bindTenant (brTenantID result) a1 of
             (Some err, a2) \<Rightarrow> (Inl (Wrapf STR ''bind rebootstrap tenant: %w'' [] err), a2)
           | (None, a2) \<Rightarrow>
               (let a3 = markBootstrapped a2 in
                (Inr (brContinuationToken result),
                 case aSync a3 of None \<Rightarrow> a3 | Some c \<Rightarrow> a3\<lparr>aSync := Some (SeedPolicyData (brPolicyData result) c)\<rparr>))))"

section \<open>Staleness\<close>

datatype syncMode = modeLocal | modeUninitialized | modeLive

definition mode :: "('n, 'c, 'st, 'q) Atol \<Rightarrow> syncMode" where
  "mode a =
     (if aLocalOnly a \<or> cfgDisableSync (aConfig a) then modeLocal
      else if aBootstrapped a then modeLive
      else modeUninitialized)"

definition checkStale :: "('n, 'c, 'st, 'q) Atol \<Rightarrow> bool \<times> int" where
  "checkStale a =
     (if cfgStalenessMode (aConfig a) = StalenessOff \<or> cfgMaxStaleness (aConfig a) \<le> 0 then (False, 0)
      else if mode a = modeLocal then (False, 0)
      else if \<not> aBootstrapped a then (True, 0)
      else case aSync a of
        None \<Rightarrow> (True, 0)
      | Some client \<Rightarrow>
          (let status = Status_Client (wNow (sdkWorld a)) client in
           if stConnected status then (False, 0)
           else (let since = wNow (sdkWorld a) - stLastStreamActivity status in
                 if since > cfgMaxStaleness (aConfig a) then (True, since) else (False, 0))))"

definition staleError :: goerror where
  "staleError = Wrapf STR ''authorization snapshot is stale: disconnected for %s, budget %s'' [] ErrStale"

record SyncStatus =
  ssMode :: string
  ssReady :: bool
  ssConnected :: bool
  ssLag :: int
  ssLastAppliedAt :: int
  ssBootstrapAt :: int
  ssRebootstraps :: nat

definition SyncStatus_Atol :: "('n, 'c, 'st, 'q) Atol \<Rightarrow> SyncStatus" where
  "SyncStatus_Atol a =
     (let s = \<lparr>ssMode = (case mode a of modeLocal \<Rightarrow> ''local'' | modeLive \<Rightarrow> ''live'' | modeUninitialized \<Rightarrow> ''uninitialized''),
               ssReady = aBootstrapped a, ssConnected = False, ssLag = 0, ssLastAppliedAt = zeroTime,
               ssBootstrapAt = aBootstrapTime a, ssRebootstraps = 0\<rparr>
      in case aSync a of
           None \<Rightarrow> s
         | Some client \<Rightarrow>
             (let st = Status_Client (wNow (sdkWorld a)) client in
              s\<lparr>ssConnected := stConnected st, ssLag := stLag st, ssLastAppliedAt := stLastAppliedAt st,
                ssRebootstraps := stRebootstraps st\<rparr>))"

definition requireServingActive :: "Context \<Rightarrow> ('n, 'c, 'st, 'q) Atol \<Rightarrow> goerror option" where
  "requireServingActive ctx a =
     (if \<not> aServingGateRequired a then None
      else case worldGate (ctxTenant ctx) (sdkWorld a) of
        None \<Rightarrow> None
      | Some err \<Rightarrow>
          if errors_Is err ErrTenantServingRestricted \<or> errors_Is err ErrTenantServingScopeMismatch
          then Some err else Some ErrTenantServingLeaseUnavailable)"
section \<open>Decisions\<close>

text \<open>What the gated read path returns: a result, a stale deny, or an error; \<open>None\<close> is an evaluation
  that does not return. \<open>elapsed\<close> is the time the policy engine measures, \<open>outer\<close> the SDK's own.\<close>

datatype gated = GErr goerror | GStale EvalResult | GResult EvalResult

definition evaluateGated ::
    "('mod, 'c, 'st, 'txn, 'q) OPA \<Rightarrow> (string \<Rightarrow> yamlModel res) \<Rightarrow> Context \<Rightarrow> int \<Rightarrow> EvalInput \<Rightarrow>
     ('n, 'c, 'st, 'q) Atol \<Rightarrow> gated option \<times> ('n, 'c, 'st, 'q) Atol" where
  "evaluateGated opa unm ctx elapsed input a =
     (case requireServingActive ctx a of
        Some err \<Rightarrow> (Some (GErr err), a)
      | None \<Rightarrow>
          if fst (checkStale a) \<and> cfgStalenessMode (aConfig a) = StalenessError
          then (Some (GErr staleError), a)
          else if fst (checkStale a) \<and> cfgStalenessMode (aConfig a) = StalenessFailClosed
          then (Some (GStale (newResult False ''stale-deny'')), a)
          else case Evaluate opa unm ctx elapsed input (engines a) of
            (r, pe) \<Rightarrow>
              (map_option (\<lambda>x. case x of Inl err \<Rightarrow> GErr err | Inr res \<Rightarrow> GResult res) r, setEngines pe a))"

definition safeUs :: "int \<Rightarrow> int" where
  "safeUs elapsed = (case SafeInt32From64 elapsed of Inl _ \<Rightarrow> 0 | Inr v \<Rightarrow> v)"

definition parseObject :: "string \<Rightarrow> string \<times> string" where
  "parseObject object = (case cut CHR '':'' object of (b, a, found) \<Rightarrow> if found then (b, a) else (object, []))"

definition TrimPrefix :: "string \<Rightarrow> string \<Rightarrow> string" where
  "TrimPrefix s pre = (if take (length pre) s = pre then drop (length pre) s else s)"

definition logEntry :: "Entry \<Rightarrow> ('n, 'c, 'st, 'q) Atol \<Rightarrow> ('n, 'c, 'st, 'q) Atol" where
  "logEntry e a =
     (case aLogger a of
        None \<Rightarrow> a
      | Some l \<Rightarrow> a\<lparr>aLogger := Some (Log (wNow (sdkWorld a)) e l)\<rparr>)"

definition newEntry :: "string \<Rightarrow> string \<Rightarrow> string \<Rightarrow> string \<Rightarrow> int \<Rightarrow> Entry" where
  "newEntry user relation object authMethod evalUs =
     \<lparr>RequestID = [], eUser = user, eRelation = relation, eObject = object, eAllowed = False, eMatchedRule = [],
      eEvalUs = evalUs, eZanzibarCalls = 0, eAuthMethod = authMethod, eTimestamp = zeroTime\<rparr>"

definition decisionEntry :: "Entry \<Rightarrow> gated \<Rightarrow> Entry" where
  "decisionEntry entry g =
     (case g of
        GErr err \<Rightarrow>
          entry\<lparr>eAllowed := False, eMatchedRule := (if errors_Is err ErrStale then ''stale-error'' else ''error'')\<rparr>
      | GStale _ \<Rightarrow> entry\<lparr>eAllowed := False, eMatchedRule := ''stale-deny''\<rparr>
      | GResult r \<Rightarrow> entry\<lparr>eAllowed := Allowed r, eMatchedRule := MatchedRule r, eZanzibarCalls := ZanzibarCalls r\<rparr>)"

definition CanWithDetails ::
    "('mod, 'c, 'st, 'txn, 'q) OPA \<Rightarrow> (string \<Rightarrow> yamlModel res) \<Rightarrow> ReqCtx \<Rightarrow> int \<Rightarrow> int \<Rightarrow>
     string \<Rightarrow> string \<Rightarrow> string \<Rightarrow> Tuple list \<Rightarrow> ('n, 'c, 'st, 'q) Atol \<Rightarrow>
     EvalResult res option \<times> ('n, 'c, 'st, 'q) Atol" where
  "CanWithDetails opa unm rc elapsed outer user relation object contextTuples a =
     (case parseObject object of (resourceType, resourceID) \<Rightarrow>
       (case evaluateGated opa unm (rcCtx rc) elapsed
               \<lparr>inUser = user, inRelation = relation, inObject = object, inResourceType = resourceType,
                inResourceID = resourceID, inContextTuples = contextTuples, inExtra = []\<rparr> a of
          (None, a1) \<Rightarrow> (None, a1)
        | (Some g, a1) \<Rightarrow>
            (let authMethod = (case rcUser rc of None \<Rightarrow> [] | Some p \<Rightarrow> pAuthMethod p);
                 a2 = logEntry (decisionEntry (newEntry (TrimPrefix user ''user:'') relation object authMethod (safeUs outer)) g) a1
             in (Some (case g of
                   GErr err \<Rightarrow> Inl (Wrapf STR ''evaluate policy: %w'' [] err)
                 | GStale r \<Rightarrow> Inr r
                 | GResult r \<Rightarrow> Inr r), a2))))"

definition Can ::
    "('mod, 'c, 'st, 'txn, 'q) OPA \<Rightarrow> (string \<Rightarrow> yamlModel res) \<Rightarrow> ReqCtx \<Rightarrow> int \<Rightarrow> int \<Rightarrow>
     string \<Rightarrow> string \<Rightarrow> string \<Rightarrow> Tuple list \<Rightarrow> ('n, 'c, 'st, 'q) Atol \<Rightarrow> (bool \<times> goerror option) option \<times> ('n, 'c, 'st, 'q) Atol" where
  "Can opa unm rc elapsed outer user relation object contextTuples a =
     (case CanWithDetails opa unm rc elapsed outer user relation object contextTuples a of
        (r, a') \<Rightarrow> (map_option (\<lambda>x. case x of Inl err \<Rightarrow> (False, Some err) | Inr res \<Rightarrow> (Allowed res, None)) r, a'))"

definition Check_Sdk ::
    "('mod, 'c, 'st, 'txn, 'q) OPA \<Rightarrow> (string \<Rightarrow> yamlModel res) \<Rightarrow> ReqCtx \<Rightarrow> int \<Rightarrow> int \<Rightarrow>
     string \<Rightarrow> string \<Rightarrow> ('n, 'c, 'st, 'q) Atol \<Rightarrow> (bool \<times> goerror option) option \<times> ('n, 'c, 'st, 'q) Atol" where
  "Check_Sdk opa unm rc elapsed outer relation object a =
     (case rcUser rc of
        None \<Rightarrow> (Some (False, None), a)
      | Some p \<Rightarrow> Can opa unm rc elapsed outer (''user:'' @ pUserID p) relation object [] a)"

definition CheckWithDetails ::
    "('mod, 'c, 'st, 'txn, 'q) OPA \<Rightarrow> (string \<Rightarrow> yamlModel res) \<Rightarrow> ReqCtx \<Rightarrow> int \<Rightarrow> int \<Rightarrow>
     string \<Rightarrow> string \<Rightarrow> ('n, 'c, 'st, 'q) Atol \<Rightarrow> EvalResult res option \<times> ('n, 'c, 'st, 'q) Atol" where
  "CheckWithDetails opa unm rc elapsed outer relation object a =
     (case rcUser rc of
        None \<Rightarrow> (Some (Inr (newResult False ''no_principal'')), a)
      | Some p \<Rightarrow> CanWithDetails opa unm rc elapsed outer (''user:'' @ pUserID p) relation object [] a)"

definition CheckDebug_Sdk ::
    "(string \<Rightarrow> yamlModel res) \<Rightarrow> Context \<Rightarrow> string \<Rightarrow> string \<Rightarrow> string \<Rightarrow> ('n, 'c, 'st, 'q) Atol \<Rightarrow>
     CheckDebugResult option \<times> ('n, 'c, 'st, 'q) Atol" where
  "CheckDebug_Sdk unm ctx user relation object a =
     (case requireServingActive ctx a of
        Some err \<Rightarrow> (Some \<lparr>dbgAllowed = False, dbgFormat = STR '''', dbgArgs = [], dbgTuples = 0, dbgErr = Some err\<rparr>, a)
      | None \<Rightarrow> (case CheckDebug unm ctx user relation object (sdkZanzibar a) of (r, e) \<Rightarrow> (r, setZanzibar e a)))"

record Decision =
  dAllow :: bool
  dReason :: string
  dStepUp :: "StepUp option"

definition Decision_Err :: "Decision \<Rightarrow> goerror option" where
  "Decision_Err d = (if \<not> dAllow d then Some ErrAccessDenied else None)"

definition logDecision ::
    "string \<Rightarrow> string \<Rightarrow> string \<Rightarrow> string \<Rightarrow> bool \<Rightarrow> string \<Rightarrow> int \<Rightarrow> int \<Rightarrow> ('n, 'c, 'st, 'q) Atol \<Rightarrow> ('n, 'c, 'st, 'q) Atol" where
  "logDecision user action resource authMethod allowed matchedRule evalUs zcalls a =
     logEntry ((newEntry user action resource authMethod evalUs)
       \<lparr>eAllowed := allowed, eMatchedRule := matchedRule, eZanzibarCalls := zcalls\<rparr>) a"

definition logStaleDeny :: "string \<Rightarrow> string \<Rightarrow> string \<Rightarrow> string \<Rightarrow> ('n, 'c, 'st, 'q) Atol \<Rightarrow> ('n, 'c, 'st, 'q) Atol" where
  "logStaleDeny user relation object authMethod a =
     logEntry ((newEntry user relation object authMethod 0)\<lparr>eMatchedRule := ''stale-deny''\<rparr>) a"

definition authorizeExtra :: "Principal \<Rightarrow> ReqCtx \<Rightarrow> string \<Rightarrow> jobj" where
  "authorizeExtra p rc action =
     (let extra = [(''org'', JStr (pOrgID p)), (''action'', JStr action),
                   (''roles'', case pRoles p of None \<Rightarrow> JNull | Some rs \<Rightarrow> JArr (map JStr rs)),
                   (''plan'', JStr (pPlan p)), (''auth_method'', JStr (pAuthMethod p)),
                   (''mfa_verified'', JBool (pMFAVerified p)), (''trust_domain'', JStr (pTrustDomain p)),
                   (''client_ip'', JStr (pClientIP p))];
          extra1 = (if pAuthTime p \<noteq> zeroTime then AList.update ''auth_time_ns'' (JInt (int64 (pAuthTime p))) extra else extra);
          extra2 = (case rcIdentity rc of
                      None \<Rightarrow> extra1
                    | Some i \<Rightarrow> AList.update ''identity_scheme'' (JStr (idScheme i))
                                 (AList.update ''identity_id'' (JStr (idID i)) extra1))
      in InjectOPAInput extra2 (rcDevice rc))"

definition Authorize ::
    "('mod, 'c, 'st, 'txn, 'q) OPA \<Rightarrow> (string \<Rightarrow> yamlModel res) \<Rightarrow> ReqCtx \<Rightarrow> int \<Rightarrow> int \<Rightarrow>
     string \<Rightarrow> string \<Rightarrow> ('n, 'c, 'st, 'q) Atol \<Rightarrow> Decision res option \<times> ('n, 'c, 'st, 'q) Atol" where
  "Authorize opa unm rc elapsed outer action resource a =
     (case rcUser rc of
        None \<Rightarrow> (Some (Inl (Wrapf STR ''no principal in context: %w'' [] ErrAccessDenied)),
                  logDecision [] action resource [] False ''no_principal'' 0 0 a)
      | Some p \<Rightarrow>
          (case parseObject resource of (resourceType, resourceID) \<Rightarrow>
             (case evaluateGated opa unm (rcCtx rc) elapsed
                     \<lparr>inUser = ''user:'' @ pUserID p, inRelation = action, inObject = resource,
                      inResourceType = resourceType, inResourceID = resourceID, inContextTuples = [],
                      inExtra = authorizeExtra p rc action\<rparr> a of
                (None, a1) \<Rightarrow> (None, a1)
              | (Some (GErr err), a1) \<Rightarrow>
                  (Some (Inl (Wrapf STR ''evaluate policy: %w'' [] err)),
                   logDecision (pUserID p) action resource (pAuthMethod p) False
                     (if errors_Is err ErrStale then ''stale-error'' else ''error'') (safeUs outer) 0 a1)
              | (Some (GStale _), a1) \<Rightarrow>
                  (Some (Inr \<lparr>dAllow = False, dReason = ''stale-deny'', dStepUp = None\<rparr>),
                   logStaleDeny (pUserID p) action resource (pAuthMethod p) a1)
              | (Some (GResult r), a1) \<Rightarrow>
                  (Some (Inr \<lparr>dAllow = Allowed r, dReason = (if Reason r = [] then MatchedRule r else Reason r),
                              dStepUp = resStepUp r\<rparr>),
                   logDecision (pUserID p) action resource (pAuthMethod p) (Allowed r) (MatchedRule r) (safeUs outer)
                     (ZanzibarCalls r) a1))))"

section \<open>Grants and revokes\<close>

text \<open>The details of a Connect error; \<open>BadDetail\<close> is one that does not decode.\<close>

datatype errDetail = ErrorInfo string string | OtherDetail | BadDetail

definition isLastHolderError :: "errDetail list option \<Rightarrow> bool" where
  "isLastHolderError connectDetails =
     (case connectDetails of
        None \<Rightarrow> False
      | Some ds \<Rightarrow> ErrorInfo ''LAST_HOLDER'' ''atol.sh/access'' \<in> set ds)"

text \<open>\<open>rpc\<close> is what the control plane answers to the remote writer's call: an error with its details, if
  it is a Connect error.\<close>

definition GrantAccess ::
    "Context \<Rightarrow> (goerror \<times> errDetail list option) option \<Rightarrow> string \<Rightarrow> string \<Rightarrow> string \<Rightarrow> ('n, 'c, 'st, 'q) Atol \<Rightarrow>
     goerror option \<times> ('n, 'c, 'st, 'q) Atol" where
  "GrantAccess ctx rpc user relation object a =
     (case aTupleWriter a of
        None \<Rightarrow> (Some (Errorf STR ''control plane not configured: set ControlPlaneURL'' []), a)
      | Some LocalWriter \<Rightarrow>
          (case WriteRawTuple ctx user relation object (sdkZanzibar a) of
             (Some err, e) \<Rightarrow> (Some (Wrapf STR ''local grant: %w'' [] err), setZanzibar e a)
           | (None, e) \<Rightarrow> (None, setZanzibar e a))
      | Some (RemoteWriter _) \<Rightarrow>
          (case rpc of
             Some (err, _) \<Rightarrow> (Some (Wrapf STR ''grant access: %w'' [] err), a)
           | None \<Rightarrow>
               (case WriteRawTuple ctx user relation object (sdkZanzibar a) of
                  (Some err, e) \<Rightarrow>
                    (Some (Wrapf STR ''remote grant succeeded but local mirror failed for %s#%s@%s: %w''
                       [object, relation, user] err), setZanzibar e a)
                | (None, e) \<Rightarrow> (None, setZanzibar e a))))"

definition RevokeAccess ::
    "Context \<Rightarrow> (goerror \<times> errDetail list option) option \<Rightarrow> string \<Rightarrow> string \<Rightarrow> string \<Rightarrow> ('n, 'c, 'st, 'q) Atol \<Rightarrow>
     goerror option \<times> ('n, 'c, 'st, 'q) Atol" where
  "RevokeAccess ctx rpc user relation object a =
     (case aTupleWriter a of
        None \<Rightarrow> (Some (Errorf STR ''control plane not configured: set ControlPlaneURL'' []), a)
      | Some LocalWriter \<Rightarrow>
          (case DeleteRawTuple ctx user relation object (sdkZanzibar a) of
             (Some err, e) \<Rightarrow> (Some (Wrapf STR ''local revoke: %w'' [] err), setZanzibar e a)
           | (None, e) \<Rightarrow> (None, setZanzibar e a))
      | Some (RemoteWriter _) \<Rightarrow>
          (case rpc of
             Some (err, details) \<Rightarrow>
               if isLastHolderError details
               then (Some (Wrapf STR ''revoke %s#%s@%s: %w'' [object, relation, user] ErrLastHolder), a)
               else (Some (Wrapf STR ''revoke access: %w'' [] err), a)
           | None \<Rightarrow>
               (case DeleteRawTuple ctx user relation object (sdkZanzibar a) of
                  (Some err, e) \<Rightarrow>
                    (Some (Wrapf STR ''remote revoke succeeded but local mirror failed for %s#%s@%s: %w''
                       [object, relation, user] err), setZanzibar e a)
                | (None, e) \<Rightarrow> (None, setZanzibar e a))))"

section \<open>Listings\<close>

record Relationship =
  relSubject :: string
  relRelation :: string
  relObject :: string

record Member =
  memSubject :: string
  memRelation :: string

definition ListSubjects ::
    "(string \<Rightarrow> yamlModel res) \<Rightarrow> Context \<Rightarrow> string \<Rightarrow> string \<Rightarrow> ('n, 'c, 'st, 'q) Atol \<Rightarrow>
     string list res option \<times> ('n, 'c, 'st, 'q) Atol" where
  "ListSubjects unm ctx relation object a =
     (case ListUsers_Engine unm ctx relation object (sdkZanzibar a) of
        (None, e) \<Rightarrow> (None, setZanzibar e a)
      | (Some (Inl err), e) \<Rightarrow>
          (Some (Inl (Wrapf STR ''list subjects of %s (relation %s): %w'' [object, relation] err)), setZanzibar e a)
      | (Some (Inr subjects), e) \<Rightarrow> (Some (Inr subjects), setZanzibar e a))"

definition ListObjects_Sdk ::
    "(string \<Rightarrow> yamlModel res) \<Rightarrow> Context \<Rightarrow> string \<Rightarrow> string \<Rightarrow> string \<Rightarrow> ('n, 'c, 'st, 'q) Atol \<Rightarrow>
     string list res option \<times> ('n, 'c, 'st, 'q) Atol" where
  "ListObjects_Sdk unm ctx subject relation objectType a =
     (case ListObjects_Engine unm ctx subject relation objectType (sdkZanzibar a) of
        (None, e) \<Rightarrow> (None, setZanzibar e a)
      | (Some (Inl err), e) \<Rightarrow>
          (Some (Inl (Wrapf STR ''list objects of type %s (subject %s, relation %s): %w'' [objectType, subject, relation] err)),
           setZanzibar e a)
      | (Some (Inr (_, Some err)), e) \<Rightarrow>
          (Some (Inl (Wrapf STR ''list objects of type %s (subject %s, relation %s): %w'' [objectType, subject, relation] err)),
           setZanzibar e a)
      | (Some (Inr (objs, None)), e) \<Rightarrow> (Some (Inr objs), setZanzibar e a))"

definition relationshipFilter :: "string \<Rightarrow> string \<Rightarrow> string \<Rightarrow> TupleFilter" where
  "relationshipFilter object relation subject =
     (let (ut, uid, ur) = (if subject \<noteq> [] then ParseUserKey subject else ([], [], []));
          (ot, oid) = (if object \<noteq> [] then parseObject object else ([], []))
      in \<lparr>fObjectType = ot, fObjectID = oid, fRelation = relation, fUserType = ut, fUserID = uid, fUserRelation = ur\<rparr>)"

definition ReadRelationships :: "string \<Rightarrow> string \<Rightarrow> string \<Rightarrow> ('n, 'c, 'st, 'q) Atol \<Rightarrow> Relationship list res" where
  "ReadRelationships object relation subject a =
     (case GetModel (sdkZanzibar a) of
        None \<Rightarrow> Inl (Errorf STR ''read relationships: no model loaded'' [])
      | Some _ \<Rightarrow>
          (case ReadTuples (relationshipFilter object relation subject) (sdkZanzibar a) of
             Inl err \<Rightarrow> Inl (Wrapf STR ''read relationships: %w'' [] err)
           | Inr ts \<Rightarrow>
               Inr (map (\<lambda>t. \<lparr>relSubject = UserKey t, relRelation = Relation t, relObject = ObjectKey t\<rparr>) ts)))"

fun listMembersLoop ::
    "(string \<Rightarrow> yamlModel res) \<Rightarrow> Context \<Rightarrow> string \<Rightarrow> string list \<Rightarrow> Member list \<Rightarrow> ('n, 'c, 'st, 'q) Atol \<Rightarrow>
     Member list res option \<times> ('n, 'c, 'st, 'q) Atol" where
  "listMembersLoop unm ctx object [] members a = (Some (Inr members), a)"
| "listMembersLoop unm ctx object (relation # relations) members a =
     (case ListSubjects unm ctx relation object a of
        (None, a') \<Rightarrow> (None, a')
      | (Some (Inl err), a') \<Rightarrow>
          (Some (Inl (Wrapf STR ''list members of %s (relation %s): %w'' [object, relation] err)), a')
      | (Some (Inr subjects), a') \<Rightarrow>
          listMembersLoop unm ctx object relations
            (members @ map (\<lambda>s. \<lparr>memSubject = s, memRelation = relation\<rparr>) subjects) a')"

definition ListMembers ::
    "(string \<Rightarrow> yamlModel res) \<Rightarrow> Context \<Rightarrow> string \<Rightarrow> ('n, 'c, 'st, 'q) Atol \<Rightarrow>
     Member list res option \<times> ('n, 'c, 'st, 'q) Atol" where
  "ListMembers unm ctx object a =
     (case GetModel (sdkZanzibar a) of
        None \<Rightarrow> (Some (Inl (Errorf STR ''list members of %s: no model loaded'' [object])), a)
      | Some m \<Rightarrow>
          (case map_of (Types m) (fst (parseObject object)) of
             None \<Rightarrow> (Some (Inl (Errorf STR ''list members of %s: type %q not in default model'' [object, fst (parseObject object)])), a)
           | Some typeDef \<Rightarrow> listMembersLoop unm ctx object (map fst (Relations typeDef)) [] a))"
section \<open>Shared engines\<close>

lemma engines_setEngines [simp]: "engines (setEngines pe a) = pe"
  by (simp add: engines_def setEngines_def split: option.split)

lemma setEngines_sel [simp]:
  "aConfig (setEngines pe a) = aConfig a" "aLogger (setEngines pe a) = aLogger a"
  "aServingGateRequired (setEngines pe a) = aServingGateRequired a" "aLocalOnly (setEngines pe a) = aLocalOnly a"
  "aBootstrapped (setEngines pe a) = aBootstrapped a" "aMaterializers (setEngines pe a) = aMaterializers a"
  "aTupleWriter (setEngines pe a) = aTupleWriter a" "aSync (setEngines pe a) = None \<longleftrightarrow> aSync a = None"
  by (simp_all add: setEngines_def split: option.split)

lemma sdkZanzibar_set [simp]: "sdkZanzibar (setZanzibar e a) = e" "sdkWorld (setZanzibar e a) = outside e"
  by (simp_all add: sdkZanzibar_def setZanzibar_def sdkWorld_def)

lemma logEntry_sel [simp]:
  "engines (logEntry e a) = engines a" "aServingGateRequired (logEntry e a) = aServingGateRequired a"
  by (simp_all add: logEntry_def engines_def split: option.split)

section \<open>Decisions are gated and audited\<close>

definition tripped :: "('n, 'c, 'st, 'q) Atol \<Rightarrow> bool" where
  "tripped a \<longleftrightarrow> fst (checkStale a) \<and> cfgStalenessMode (aConfig a) \<in> {StalenessError, StalenessFailClosed}"

lemma evaluateGated_cases:
  obtains (refused) err where "requireServingActive ctx a = Some err" "evaluateGated opa unm ctx el input a = (Some (GErr err), a)"
  | (stale) "requireServingActive ctx a = None" "tripped a"
      "evaluateGated opa unm ctx el input a = (Some (GErr staleError), a) \<or>
       evaluateGated opa unm ctx el input a = (Some (GStale (newResult False ''stale-deny'')), a)"
  | (evaluated) r pe where "requireServingActive ctx a = None" "\<not> tripped a"
      "Evaluate opa unm ctx el input (engines a) = (r, pe)"
      "evaluateGated opa unm ctx el input a =
         (map_option (\<lambda>x. case x of Inl err \<Rightarrow> GErr err | Inr res \<Rightarrow> GResult res) r, setEngines pe a)"
proof (cases "requireServingActive ctx a")
  case (Some err)
  then show thesis by (intro refused) (simp_all add: evaluateGated_def)
next
  case None
  show thesis
  proof (cases "tripped a")
    case True
    with None show thesis by (intro stale) (auto simp: evaluateGated_def tripped_def StalenessError_def StalenessFailClosed_def)
  next
    case False
    obtain r pe where ev: "Evaluate opa unm ctx el input (engines a) = (r, pe)" by fastforce
    from False None ev show thesis
      by (intro evaluated [OF None False ev]) (auto simp: evaluateGated_def tripped_def)
  qed
qed

text \<open>The decision logger after one more entry.\<close>

definition logged_once :: "Entry \<Rightarrow> ('n, 'c, 'st, 'q) Atol \<Rightarrow> ('n, 'c, 'st, 'q) Atol \<Rightarrow> bool" where
  "logged_once e a a' \<longleftrightarrow> (\<exists>now. aLogger a' = map_option (Log now e) (aLogger a))"

lemma logged_once_logEntry: "aLogger a1 = aLogger a \<Longrightarrow> logged_once e a (logEntry e a1)"
  by (auto simp: logged_once_def logEntry_def split: option.split)

lemma evaluateGated_logger:
  "evaluateGated opa unm ctx el input a = (g, a1) \<Longrightarrow> aLogger a1 = aLogger a"
  by (cases rule: evaluateGated_cases [of ctx a opa unm el input]) auto

lemma evaluateGated_allowed:
  assumes "evaluateGated opa unm ctx el input a = (Some (GResult r), a1)"
  shows "requireServingActive ctx a = None" "\<not> tripped a" "fst (Evaluate opa unm ctx el input (engines a)) = Some (Inr r)"
proof -
  have "requireServingActive ctx a = None \<and> \<not> tripped a \<and> fst (Evaluate opa unm ctx el input (engines a)) = Some (Inr r)"
  proof (cases rule: evaluateGated_cases [of ctx a opa unm el input])
    case (evaluated ro pe)
    with assms show ?thesis by (cases ro) (auto split: sum.splits)
  qed (use assms in auto)
  then show "requireServingActive ctx a = None" "\<not> tripped a" "fst (Evaluate opa unm ctx el input (engines a)) = Some (Inr r)"
    by blast+
qed

lemma evaluateGated_stale:
  assumes "evaluateGated opa unm ctx el input a = (Some (GStale r), a1)"
  shows "\<not> Allowed r"
proof (cases rule: evaluateGated_cases [of ctx a opa unm el input])
  case (evaluated ro pe)
  with assms show ?thesis by (cases ro) (auto split: sum.splits)
qed (use assms in \<open>auto simp: newResult_def\<close>)

text \<open>The audit trail of one call: one entry about the request, with the outcome that is returned.\<close>

definition audited ::
    "string \<Rightarrow> string \<Rightarrow> string \<Rightarrow> bool \<Rightarrow> ('n, 'c, 'st, 'q) Atol \<Rightarrow> ('n, 'c, 'st, 'q) Atol \<Rightarrow> bool" where
  "audited user relation object allowed a a' \<longleftrightarrow>
     (\<exists>e. logged_once e a a' \<and> eUser e = user \<and> eRelation e = relation \<and> eObject e = object \<and> eAllowed e = allowed)"

text \<open>What an allow rests on: an open serving gate, a read path that is not stale, and the policy
  engine's own allow of that request.\<close>

definition allowed_by_policy ::
    "('mod, 'c, 'st, 'txn, 'q) OPA \<Rightarrow> (string \<Rightarrow> yamlModel res) \<Rightarrow> Context \<Rightarrow> int \<Rightarrow> string \<Rightarrow> string \<Rightarrow> string \<Rightarrow>
     ('n, 'c, 'st, 'q) Atol \<Rightarrow> bool" where
  "allowed_by_policy opa unm ctx el user relation object a \<longleftrightarrow>
     requireServingActive ctx a = None \<and> \<not> tripped a \<and>
     (\<exists>input r. inUser input = user \<and> inRelation input = relation \<and> inObject input = object \<and>
        fst (Evaluate opa unm ctx el input (engines a)) = Some (Inr r) \<and> Allowed r)"

lemma audited_logEntry:
  assumes "aLogger a1 = aLogger a" "eUser e = user" "eRelation e = relation" "eObject e = object" "eAllowed e = allowed"
  shows "audited user relation object allowed a (logEntry e a1)"
  using assms logged_once_logEntry [of a1 a e] unfolding audited_def by blast

lemma audited_logDecision:
  "aLogger a1 = aLogger a \<Longrightarrow>
   audited user relation object allowed a (logDecision user relation object m allowed rule us n a1)"
  by (simp add: logDecision_def newEntry_def audited_logEntry)

lemma audited_logStaleDeny:
  "aLogger a1 = aLogger a \<Longrightarrow> audited user relation object False a (logStaleDeny user relation object m a1)"
  by (simp add: logStaleDeny_def newEntry_def audited_logEntry)

lemma decisionEntry_sel [simp]:
  "eUser (decisionEntry e g) = eUser e" "eRelation (decisionEntry e g) = eRelation e"
  "eObject (decisionEntry e g) = eObject e"
  "eAllowed (decisionEntry e g) = (case g of GResult r \<Rightarrow> Allowed r | _ \<Rightarrow> False)"
  by (simp_all add: decisionEntry_def split: gated.split)

lemma newEntry_sel [simp]:
  "eUser (newEntry u r ob m us) = u" "eRelation (newEntry u r ob m us) = r" "eObject (newEntry u r ob m us) = ob"
  by (simp_all add: newEntry_def)

lemma allowed_by_policyI:
  assumes "evaluateGated opa unm ctx el input a = (Some (GResult r), a1)" "Allowed r"
  shows "allowed_by_policy opa unm ctx el (inUser input) (inRelation input) (inObject input) a"
  using evaluateGated_allowed [OF assms(1)] assms(2) unfolding allowed_by_policy_def by blast

lemma CanWithDetails_audited:
  assumes "CanWithDetails opa unm rc el outer user relation object cts a = (Some x, a')"
  shows "audited (TrimPrefix user ''user:'') relation object (case x of Inl _ \<Rightarrow> False | Inr r \<Rightarrow> Allowed r) a a' \<and>
    (\<forall>r. x = Inr r \<and> Allowed r \<longrightarrow> allowed_by_policy opa unm (rcCtx rc) el user relation object a)"
proof -
  obtain rt ri where po: "parseObject object = (rt, ri)" by fastforce
  define input where "input = \<lparr>inUser = user, inRelation = relation, inObject = object, inResourceType = rt,
      inResourceID = ri, inContextTuples = cts, inExtra = []\<rparr>"
  obtain go a1 where ev: "evaluateGated opa unm (rcCtx rc) el input a = (go, a1)" by fastforce
  from assms po ev obtain g where g: "go = Some g" by (cases go) (auto simp: CanWithDetails_def input_def)
  from assms po ev g obtain m where
    a': "a' = logEntry (decisionEntry (newEntry (TrimPrefix user ''user:'') relation object m (safeUs outer)) g) a1"
    and x: "x = (case g of GErr err \<Rightarrow> Inl (Wrapf STR ''evaluate policy: %w'' [] err) | GStale r \<Rightarrow> Inr r | GResult r \<Rightarrow> Inr r)"
    by (auto simp: CanWithDetails_def Let_def input_def)
  note lg = evaluateGated_logger [OF ev]
  from ev g have st: "g = GStale r \<Longrightarrow> \<not> Allowed r" for r by (auto dest: evaluateGated_stale)
  have "audited (TrimPrefix user ''user:'') relation object (case x of Inl _ \<Rightarrow> False | Inr r \<Rightarrow> Allowed r) a a'"
    unfolding a' using x st by (intro audited_logEntry [OF lg]) (simp_all split: gated.split)
  moreover have "allowed_by_policy opa unm (rcCtx rc) el user relation object a" if "x = Inr r" "Allowed r" for r
    using that x st g allowed_by_policyI [of opa unm "rcCtx rc" el input a r a1] ev
    by (cases g) (auto simp: input_def)
  ultimately show ?thesis by blast
qed

lemma Authorize_audited:
  assumes "Authorize opa unm rc el outer relation object a = (Some y, a')"
  shows "audited (case rcUser rc of None \<Rightarrow> [] | Some p \<Rightarrow> pUserID p) relation object
      (case y of Inl _ \<Rightarrow> False | Inr d \<Rightarrow> dAllow d) a a' \<and>
    (\<forall>d. y = Inr d \<and> dAllow d \<longrightarrow>
       (\<exists>p. rcUser rc = Some p \<and> allowed_by_policy opa unm (rcCtx rc) el (''user:'' @ pUserID p) relation object a))"
proof (cases "rcUser rc")
  case None
  with assms show ?thesis by (auto simp: Authorize_def audited_logDecision)
next
  case (Some p)
  obtain rt ri where po: "parseObject object = (rt, ri)" by fastforce
  define input where "input = \<lparr>inUser = ''user:'' @ pUserID p, inRelation = relation, inObject = object,
      inResourceType = rt, inResourceID = ri, inContextTuples = [], inExtra = authorizeExtra p rc relation\<rparr>"
  obtain go a1 where ev: "evaluateGated opa unm (rcCtx rc) el input a = (go, a1)" by fastforce
  from assms Some po ev obtain g where g: "go = Some g" by (cases go) (auto simp: Authorize_def input_def)
  note lg = evaluateGated_logger [OF ev]
  show ?thesis
  proof (cases g)
    case (GErr err)
    with assms Some po ev g show ?thesis by (auto simp: Authorize_def input_def audited_logDecision [OF lg])
  next
    case (GStale r)
    with assms Some po ev g show ?thesis by (auto simp: Authorize_def input_def audited_logStaleDeny [OF lg])
  next
    case (GResult r)
    with assms Some po ev g
    have y: "y = Inr \<lparr>dAllow = Allowed r, dReason = (if Reason r = [] then MatchedRule r else Reason r), dStepUp = resStepUp r\<rparr>"
      and a': "a' = logDecision (pUserID p) relation object (pAuthMethod p) (Allowed r) (MatchedRule r) (safeUs outer)
                     (ZanzibarCalls r) a1"
      by (auto simp: Authorize_def input_def)
    have "allowed_by_policy opa unm (rcCtx rc) el (''user:'' @ pUserID p) relation object a" if "Allowed r"
      using that allowed_by_policyI [of opa unm "rcCtx rc" el input a r a1] ev g GResult by (simp add: input_def)
    with Some show ?thesis by (auto simp: y a' audited_logDecision [OF lg])
  qed
qed

text \<open>
  C3. Every SDK decision is gated and audited. A call of \<open>CanWithDetails\<close> (and so of \<open>Can\<close>, and of \<open>Check\<close> and
  \<open>CheckWithDetails\<close> with a principal) or of \<open>Authorize\<close> that returns logs exactly one entry when a
  decision logger is configured, about that user, relation and object, whose outcome is the one returned
  (deny for an error); and it allows only when the tenant's serving gate is open, the staleness gate does
  not trip, and the policy engine allowed the request.
\<close>

theorem decisions_audited:
  "(CanWithDetails opa unm rc el outer user relation object cts a = (Some x, a') \<longrightarrow>
      audited (TrimPrefix user ''user:'') relation object (case x of Inl _ \<Rightarrow> False | Inr r \<Rightarrow> Allowed r) a a' \<and>
      (\<forall>r. x = Inr r \<and> Allowed r \<longrightarrow> allowed_by_policy opa unm (rcCtx rc) el user relation object a)) \<and>
   (Authorize opa unm rc el outer relation object a = (Some y, b') \<longrightarrow>
      audited (case rcUser rc of None \<Rightarrow> [] | Some p \<Rightarrow> pUserID p) relation object
        (case y of Inl _ \<Rightarrow> False | Inr d \<Rightarrow> dAllow d) a b' \<and>
      (\<forall>d. y = Inr d \<and> dAllow d \<longrightarrow>
         (\<exists>p. rcUser rc = Some p \<and> allowed_by_policy opa unm (rcCtx rc) el (''user:'' @ pUserID p) relation object a)))"
  by (rule conjI; rule impI) (erule CanWithDetails_audited, erule Authorize_audited)

section \<open>Sample SDK\<close>

definition sampleConfig :: Config where
  "sampleConfig =
     \<lparr>cfgControlPlaneURL = ''https://cp'', cfgKeyID = ''key'', cfgSecretKey = [], cfgStoreID = ''acme'',
      cfgZanzibarModelPath = ''model.yaml'', cfgIssuer = [], cfgAudience = [], cfgJWKSUrl = [], cfgBootstrapTimeout = 0,
      cfgDisableSync = False, cfgDecisionLogFlushInterval = 0, cfgDecisionLogBufferSize = 2, cfgDeviceEnabled = False,
      cfgDeviceControlPlaneURL = [], cfgDeviceAPIKey = [], cfgRequireDPoP = False, cfgMaxStaleness = 0,
      cfgStalenessMode = 0, cfgBootstrapInterval = 0\<rparr>"

definition sampleOptions :: "bool \<Rightarrow> newOptions" where
  "sampleOptions local = \<lparr>noLocalOnly = local, noMaxStaleness = None, noStalenessMode = None, noBootstrapInterval = None\<rparr>"

type_synonym sample_atol = "(nat, string, jobj, string) Atol"

definition sampleLogger :: Logger where
  "sampleLogger = \<lparr>lBuffer = \<lparr>entries = [], bufSize = 2\<rparr>, flushSize = 500, dropped = 0, reportedDrops = 0, sendFailures = 0\<rparr>"

definition sdkEngine :: "bool \<Rightarrow> (MemoryStore, unit, nat World) Engine" where
  "sdkEngine local =
     (let e = (NewEngine (memoryEngineStore barCodec) None None NewMemoryStore () \<lparr>wGate = NewTenantServingGate, wNow = 5, wHost = 0\<rparr>)
                \<lparr>defaultModel := Some \<lparr>tmModel = sample_model, tmSource = ''model'', tmRevision = 0\<rparr>\<rparr>
      in if local then e else SetTenantServingGate (Some worldGate) e)"

definition sampleAtol :: "bool \<Rightarrow> sample_atol" where
  "sampleAtol local =
     \<lparr>aConfig = defaults sampleConfig, aPolicy = NewPolicyEngine (sdkEngine local), aSync = None,
      aServingGateRequired = \<not> local, aLocalOnly = local, aBootstrapped = False, aBootstrapTime = zeroTime,
      aLogger = Some sampleLogger, aMaterializers = [],
      aTupleWriter = Some (if local then LocalWriter else RemoteWriter ''acme'')\<rparr>"

lemma sampleAtol_new:
  "NewAtol barCodec sampleDecoder (\<lambda>_. Inr ''model'') None 5 0 (sampleOptions local) sampleConfig = Some (Inr (sampleAtol local))"
  by (cases local)
    (simp_all add: NewAtol_def sampleAtol_def sampleOptions_def newConfig_def sdkEngine_def LoadModel_def Compile_sampleDecoder
      defaults_def sampleConfig_def NewLogger_def NewBuffer_def sampleLogger_def Let_def NewEngine_def SetTenantServingGate_def
      notifyModel_def NoopNotifier_def)

text \<open>A local grant, after which the granted user is allowed.\<close>

definition grantedAtol :: sample_atol where
  "grantedAtol = snd (GrantAccess rootCtx None ''user:ann'' ''viewer'' ''doc:1'' (sampleAtol True))"

definition annCtx :: ReqCtx where
  "annCtx = \<lparr>rcCtx = rootCtx, rcUser = Some \<lparr>pUserID = ''ann'', pIdentityID = [], pOrgID = [], pEmail = [], pEmailVerified = False, pAuthMethod = ''jwt'', pRoles = None, pPlan = [],
     pMFAVerified = False, pTrustDomain = [], pAuthTime = 0, pClientIP = []\<rparr>, rcIdentity = None, rcDevice = None\<rparr>"

lemma returned_value:
  assumes "map_option (\<lambda>x. case x of Inl (_ :: goerror) \<Rightarrow> None | Inr r \<Rightarrow> Some (f r)) v = Some (Some b)"
  obtains r where "v = Some (Inr r)" "f r = b"
proof (cases v)
  case (Some x)
  with assms that show thesis by (cases x) auto
qed (use assms in simp)

theorem decisions_audited_witness:
  "\<exists>r a' d b'. CanWithDetails sampleOPA sampleDecoder annCtx 1 2 ''user:ann'' ''viewer'' ''doc:1'' [] grantedAtol = (Some (Inr r), a') \<and>
     audited ''ann'' ''viewer'' ''doc:1'' True grantedAtol a' \<and>
     Authorize sampleOPA sampleDecoder annCtx 1 2 ''owner'' ''doc:1'' grantedAtol = (Some (Inr d), b') \<and>
     audited ''ann'' ''owner'' ''doc:1'' False grantedAtol b'"
proof -
  let ?can = "CanWithDetails sampleOPA sampleDecoder annCtx 1 2 ''user:ann'' ''viewer'' ''doc:1'' [] grantedAtol"
  let ?auth = "Authorize sampleOPA sampleDecoder annCtx 1 2 ''owner'' ''doc:1'' grantedAtol"
  have "map_option (\<lambda>x. case x of Inl _ \<Rightarrow> None | Inr r \<Rightarrow> Some (Allowed r)) (fst ?can) = Some (Some True)" by code_simp
  then obtain r a' where can: "?can = (Some (Inr r), a')" "Allowed r"
    by (elim returned_value) (metis prod.collapse)
  have "map_option (\<lambda>x. case x of Inl _ \<Rightarrow> None | Inr r \<Rightarrow> Some (dAllow r)) (fst ?auth) = Some (Some False)" by code_simp
  then obtain d b' where auth: "?auth = (Some (Inr d), b')" "\<not> dAllow d"
    by (elim returned_value) (metis prod.collapse)
  have "TrimPrefix ''user:ann'' ''user:'' = ''ann''" "rcUser annCtx \<noteq> None" "map_option pUserID (rcUser annCtx) = Some ''ann''"
    by code_simp+
  with can auth show ?thesis
    using decisions_audited [of sampleOPA sampleDecoder annCtx 1 2 "''user:ann''" "''viewer''" "''doc:1''" "[]" grantedAtol]
      decisions_audited [of sampleOPA sampleDecoder annCtx 1 2 "[]" "''owner''" "''doc:1''" "[]" grantedAtol]
    by fastforce
qed

end
