(* ===== verification/Sdk_Serving.thy ===== *)
theory Sdk_Serving
  imports Atol_Sdk
begin

text \<open>
  What every operation of the SDK keeps of the serving gate, so that a restriction that arrived on the stream is not lost
  again, whatever bootstraps, frames, grants, decisions and clock readings come after it; what a restricted SDK refuses; and what a
  bootstrap leaves in the engines.
\<close>

section \<open>Engines wired to the gate\<close>

named_theorems held_intros \<open>operations that keep the gate in place\<close>

text \<open>The engine the SDK builds: no notifier of its own, and the shared gate in front of its decisions.\<close>

definition wired :: "('s, 'm, 'n World) Engine \<Rightarrow> bool" where
  "wired e \<longleftrightarrow> eNotifier e = NoopNotifier \<and> servingGate e = Some worldGate"

text \<open>A gate that a bound tenant and a restriction never leave.\<close>

definition gate_kept :: "TenantServingGate \<Rightarrow> TenantServingGate \<Rightarrow> bool" where
  "gate_kept g g' \<longleftrightarrow>
     (gTenantID g \<noteq> [] \<longrightarrow> gTenantID g' = gTenantID g) \<and>
     (\<forall>r. gRestriction g = Some r \<longrightarrow> (\<exists>r'. gRestriction g' = Some r' \<and> rEpoch r \<le> rEpoch r'))"

definition held :: "('s, 'm, 'n World) Engine \<Rightarrow> ('s, 'm, 'n World) Engine \<Rightarrow> bool" where
  "held e e' \<longleftrightarrow> (wired e \<longrightarrow> wired e' \<and> gate_kept (wGate (outside e)) (wGate (outside e')))"

lemma gate_kept_refl [simp]: "gate_kept g g"
  by (simp add: gate_kept_def)

lemma gate_kept_trans: "gate_kept g g1 \<Longrightarrow> gate_kept g1 g2 \<Longrightarrow> gate_kept g g2"
  unfolding gate_kept_def by (metis order_trans)

lemma gate_kept_step: "gate_kept g (snd (gate_step ulid ev g))"
  using gate_step_tenant [of g ulid ev] gate_step_restriction [of g _ ulid ev] unfolding gate_kept_def by blast

lemma gate_kept_ops [simp]:
  "gate_kept g (snd (BindTenant tid g))" "gate_kept g (snd (Renew now tid challenge u g))" "gate_kept g (snd (Restrict ulid tid u g))"
  using gate_kept_step [of g ulid "(0, GBind tid)"] gate_kept_step [of g ulid "(now, GRenew tid challenge u)"]
    gate_kept_step [of g ulid "(0, GRestrict tid u)"] by simp_all

lemma held_refl [simp]: "held e e"
  by (simp add: held_def)

lemma held_trans: "held e e1 \<Longrightarrow> held e1 e2 \<Longrightarrow> held e e2"
  unfolding held_def using gate_kept_trans by blast

lemma held_frame:
  "wired e \<Longrightarrow> outside e' = outside e \<Longrightarrow> eNotifier e' = eNotifier e \<Longrightarrow> servingGate e' = servingGate e \<Longrightarrow> held e e'"
  by (simp add: held_def wired_def)

lemma held_cache: "held e (e\<lparr>cache := c\<rparr>)"
  by (simp add: held_def wired_def)

lemma held_model: "held e (snd (modelForOperation unm ctx e))"
  using modelForOperation_frame [of unm ctx e] held_cache by (metis prod.collapse)

lemma held_withModel: "held e (snd (withModel unm ctx k e))"
proof (cases "requireTenantServing ctx e")
  case None
  have "snd (withModel unm ctx k e) = snd (modelForOperation unm ctx e)"
    using None by (auto simp: withModel_def split: prod.split sum.split option.split)
  then show ?thesis using held_model by metis
qed (simp add: withModel_def)

lemma held_mutate:
  assumes "eNotifier e = NoopNotifier \<Longrightarrow> \<forall>x. rec t x = (Inr False, x)"
    and "\<And>e. \<exists>x. notify t e = e\<lparr>outside := x\<rparr> \<and> (eNotifier e = NoopNotifier \<longrightarrow> x = outside e)"
  shows "held e (snd (mutate rec ap wrap notify t e))"
proof (cases "wired e")
  case True
  then have rec: "rec t x = (Inr False, x)" for x using assms(1) by (simp add: wired_def)
  show ?thesis
  proof (cases "ap (tuplesState e)")
    case (Pair err s)
    let ?e = "e\<lparr>outside := outside e, tuplesState := s\<rparr>"
    have "notify t ?e = ?e" using assms(2) [of ?e] True by (auto simp: wired_def)
    with Pair rec True show ?thesis
      by (cases err) (auto intro!: held_frame simp: mutate_def Let_def)
  qed
qed (simp add: held_def)

lemma held_WriteTuple [held_intros]: "held e (snd (WriteTuple unm ctx user relation object e))"
proof -
  obtain r e1 where m: "modelForOperation unm ctx e = (r, e1)" by fastforce
  then have "held e e1" using held_model [of e unm ctx] by simp
  moreover have "held e1 (snd (WriteTuple unm ctx user relation object e))"
    using m
    by (auto simp: WriteTuple_def Let_def split: sum.split option.split
        intro!: held_mutate simp: recordTupleWrite_def notifyWrite_def NoopNotifier_def)
  ultimately show ?thesis by (rule held_trans)
qed

lemma held_DeleteTuple [held_intros]: "held e (snd (DeleteTuple unm ctx user relation object e))"
proof -
  obtain r e1 where m: "modelForOperation unm ctx e = (r, e1)" by fastforce
  then have "held e e1" using held_model [of e unm ctx] by simp
  moreover have "held e1 (snd (DeleteTuple unm ctx user relation object e))"
    using m
    by (auto simp: DeleteTuple_def Let_def split: sum.split option.split
        intro!: held_mutate simp: recordTupleDelete_def notifyDelete_def NoopNotifier_def)
  ultimately show ?thesis by (rule held_trans)
qed

lemma held_RawTuple [held_intros]:
  "held e (snd (WriteRawTuple ctx user relation object e))" "held e (snd (DeleteRawTuple ctx user relation object e))"
  by (auto simp: WriteRawTuple_def DeleteRawTuple_def Let_def recordTupleWrite_def recordTupleDelete_def
      notifyWrite_def notifyDelete_def NoopNotifier_def intro!: held_mutate)

lemma held_models [held_intros]:
  "held e (snd (LoadModel unm data e))" "held e (snd (ActivateModel unm data rv e))"
  by (auto simp: LoadModel_def ActivateModel_def notifyModel_def held_def wired_def NoopNotifier_def
      split: sum.split option.split)

lemma held_listings [held_intros]:
  "held e (snd (ListObjects_Engine unm ctx user relation objectType e))"
  "held e (snd (ListUsers_Engine unm ctx relation object e))"
  "held e (snd (relationCheck unm ctx cts user relation object e))"
  by (simp_all add: ListObjects_Engine_def ListUsers_Engine_def relationCheck_withModel held_withModel)

lemma held_CheckDebug [held_intros]: "held e (snd (CheckDebug unm ctx user relation object e))"
proof (cases "requireTenantServing ctx e")
  case None
  then have "snd (CheckDebug unm ctx user relation object e) = snd (modelForOperation unm ctx e)"
    by (auto simp: CheckDebug_def Let_def split: prod.split sum.split option.split)
  then show ?thesis using held_model by metis
qed (simp add: CheckDebug_def Let_def)

section \<open>Policy engine and client\<close>

abbreviation zan :: "('s, 'm, 'n, 'c, 'st, 'q) Client \<Rightarrow> ('s, 'm, 'n World) Engine" where
  "zan c \<equiv> pZanzibar (cPolicy c)"

lemma held_LoadBundle [held_intros]: "held (pZanzibar pe) (pZanzibar (snd (LoadBundle opa d pd pe)))"
  by (cases rule: LoadBundle_cases [of opa d pd pe]) simp_all

lemma held_SetPolicyData [held_intros]: "held (pZanzibar pe) (pZanzibar (snd (SetPolicyData opa path v pe)))"
  by (cases rule: SetPolicyData_cases [of opa path v pe]) simp_all

lemma held_fallbackCheck: "held (pZanzibar pe) (pZanzibar (snd (fallbackCheck unm ctx el input pe)))"
proof -
  have "pZanzibar (snd (fallbackCheck unm ctx el input pe)) =
      snd (relationCheck unm ctx (inContextTuples input) (inUser input) (inRelation input) (inObject input) (pZanzibar pe))"
    by (auto simp: fallbackCheck_def split: prod.split option.split sum.split)
  then show ?thesis by (simp add: held_listings)
qed

lemma held_runOPA:
  assumes "runOPA run unm bctx s = Some (rs, s')" and "evalCtx s = Some ctx"
  shows "held (evZanzibar s) (evZanzibar s')"
  using assms
proof (induction run arbitrary: s)
  case (CallCheck u r ob k)
  from CallCheck.prems(1) obtain a s1 where st: "checkAccessFn unm bctx u r ob s = Some (a, s1)"
    and rest: "runOPA (k a) unm bctx s1 = Some (rs, s')"
    by (auto split: option.splits prod.splits)
  from st CallCheck.prems(2) show ?case
  proof (cases rule: checkAccessFn_step)
    case (badarg err)
    with CallCheck.IH [OF _ rest] CallCheck.prems(2) show ?thesis by simp
  next
    case (checked us' rl' obs' answer e)
    then have "held (evZanzibar s) (evZanzibar s1)"
      using held_listings(3) [of "evZanzibar s" unm ctx "evContextTuples s" us' rl' obs'] by simp
    moreover from CallCheck.IH [OF _ rest] CallCheck.prems(2) checked(3) have "held (evZanzibar s1) (evZanzibar s')" by simp
    ultimately show ?thesis by (rule held_trans)
  qed
qed simp

lemma held_Evaluate [held_intros]: "held (pZanzibar pe) (pZanzibar (snd (Evaluate opa unm ctx el input pe)))"
proof (cases "policyServing ctx pe = None \<and> pBundle pe \<noteq> None")
  case False
  then show ?thesis by (auto simp: Evaluate_def held_fallbackCheck split: option.split)
next
  case True
  then obtain bs where bs: "pBundle pe = Some bs" and g: "policyServing ctx pe = None" by auto
  show ?thesis
  proof (cases "evalQuery opa unm ctx policyDecisionQuery (inputMap input) bs (startState ctx input pe)")
    case None
    with bs g show ?thesis by (simp add: Evaluate_def startState_def Let_def)
  next
    case (Some t)
    obtain answer bs' st' where t: "t = (answer, bs', st')" by (cases t rule: prod_cases3)
    let ?pe = "pe\<lparr>pZanzibar := evZanzibar st', pBundle := Some bs'\<rparr>"
    have st: "held (pZanzibar pe) (evZanzibar st')"
      using evalQuery_run [OF Some [unfolded t]] held_runOPA [of _ unm ctx "startState ctx input pe" answer st' ctx]
      by (auto simp: startState_def)
    have "pZanzibar (snd (Evaluate opa unm ctx el input pe)) \<in>
        {evZanzibar st', pZanzibar (snd (fallbackCheck unm ctx el input ?pe))}"
      unfolding Evaluate_bundle [OF g bs Some [unfolded t], of el]
      by (auto simp: Let_def split: sum.split option.split)
    with st held_fallbackCheck [of ?pe unm ctx el input] show ?thesis by (auto intro: held_trans)
  qed
qed

lemma held_onPolicy:
  "(\<And>pe. held (pZanzibar pe) (pZanzibar (snd (f pe)))) \<Longrightarrow> held (zan c) (zan (snd (onPolicy f c)))"
  by (auto simp: onPolicy_def split: prod.split) (metis snd_conv)

lemma held_onZanzibar: "(\<And>e. held e (snd (f e))) \<Longrightarrow> held (zan c) (zan (snd (onZanzibar f c)))"
  unfolding onZanzibar_def by (rule held_onPolicy) (auto split: prod.split, metis snd_conv)

lemma held_onGate: "(\<And>g now. gate_kept g (snd (f now g))) \<Longrightarrow> held (zan c) (zan (snd (onGate f c)))"
  unfolding onGate_def
  by (rule held_onZanzibar) (auto simp: held_def wired_def split: prod.split, metis snd_conv)

lemma held_onPolicyData: "held (zan c) (zan (snd (onPolicy (SetPolicyData opa path v) c)))"
  by (rule held_onPolicy) (rule held_SetPolicyData)

lemma held_overlay:
  "held (zan c) (zan (snd (first_err_st (\<lambda>(path, v). onPolicy (SetPolicyData opa path v)) kvs c)))"
  by (rule first_err_st_inv [where P = "\<lambda>c'. held (zan c) (zan c')"])
    (auto intro: held_trans held_onPolicyData)

lemma held_applyPolicyBundle: "held (zan c) (zan (snd (applyPolicyBundle opa upd c)))"
proof (cases "upd = None \<or> (\<exists>b v. upd = Some (b, v) \<and> (b = [] \<or> v \<noteq> 0 \<and> v \<le> lastBundleVersion c))")
  case True
  then show ?thesis by (auto simp: applyPolicyBundle_def)
next
  case False
  then obtain b v where upd: "upd = Some (b, v)" "b \<noteq> []" "\<not> (v \<noteq> 0 \<and> v \<le> lastBundleVersion c)" by auto
  obtain r c1 where lb: "onPolicy (LoadBundle opa b (baselineData c)) c = (r, c1)" by fastforce
  then have h: "held (zan c) (zan c1)"
    using held_onPolicy [of "LoadBundle opa b (baselineData c)" c] held_LoadBundle by (metis snd_conv)
  show ?thesis
  proof (cases r)
    case None
    with upd lb have "zan (snd (applyPolicyBundle opa upd c)) =
        zan (snd (first_err_st (\<lambda>(path, v). onPolicy (SetPolicyData opa path v)) (lastDataValue c) c1))"
      by (auto simp: applyPolicyBundle_def split: prod.split option.split)
    with h held_overlay [of c1 opa "lastDataValue c"] show ?thesis by (simp add: held_trans)
  qed (use upd lb h in \<open>simp add: applyPolicyBundle_def\<close>)
qed

lemma held_applyPolicyData: "held (zan c) (zan (snd (applyPolicyData opa upd c)))"
proof (cases upd)
  case (Some u)
  obtain path data v where u: "u = (path, data, v)" by (cases u rule: prod_cases3)
  show ?thesis
    using held_onPolicyData [of c opa path "case data of None \<Rightarrow> JNull | Some m \<Rightarrow> JObj m"]
    by (auto simp: applyPolicyData_def Some u Let_def split: prod.splits option.splits)
qed (simp add: applyPolicyData_def)

lemma held_applyServingState: "held (zan c) (zan (snd (applyServingState ulid tid ch upd c)))"
  by (auto simp: applyServingState_def split: option.split TenantServingState.split intro!: held_onGate)

lemma held_applyMutation: "held (zan c) (zan (snd (applyMutation opa unm ulid ctx ch msgOpt c)))"
proof (cases msgOpt)
  case (Some msg)
  then show ?thesis
    by (cases "msgMutation msg")
      (auto simp: applyMutation_def held_applyPolicyBundle held_applyPolicyData held_applyServingState
        split: option.split intro!: held_onZanzibar held_intros)
qed (simp add: applyMutation_def)

lemma held_tick: "held (zan c) (zan (tick now c))"
  by (simp add: tick_def held_def wired_def cWorld_def)

lemma held_marks [simp]:
  "zan (markActivity c) = zan c" "zan (advanceToken env msg c) = zan c" "zan (onRebootstrap tt tok c) = zan c"
  "zan (markStreamOpen c) = zan c" "zan (markStreamClosed c) = zan c" "zan (SeedPolicyData d c) = zan c"
  by (simp_all add: markActivity_def advanceToken_def setContinuationToken_def onRebootstrap_def markStreamOpen_def
      markStreamClosed_def SeedPolicyData_def)

lemma held_receiveLoop: "held (zan c) (zan (snd (receiveLoop env ch frames c)))"
proof (induction env ch frames c rule: receiveLoop.induct)
  case (2 env ch now msg frames c)
  let ?c0 = "markActivity (tick now c)"
  obtain r c1 where am: "applyMutation (envOPA env) (envYAML env) (envULID env) (envCtx env) [ch] (Some msg) ?c0 = (r, c1)" by fastforce
  have "held (zan c) (zan c1)"
    using held_tick [of c now] held_applyMutation [of ?c0 "envOPA env" "envYAML env" "envULID env" "envCtx env" "[ch]" "Some msg"] am
    by (simp add: held_trans)
  then show ?case
    using 2 [OF refl am [symmetric]] am by (cases r) (auto simp: Let_def intro: held_trans)
qed simp

section \<open>The SDK\<close>

definition sdk_held :: "('n, 'c, 'st, 'q) Atol \<Rightarrow> ('n, 'c, 'st, 'q) Atol \<Rightarrow> bool" where
  "sdk_held a a' \<longleftrightarrow> aServingGateRequired a' = aServingGateRequired a \<and> held (sdkZanzibar a) (sdkZanzibar a')"

lemma sdk_held_refl [simp]: "sdk_held a a"
  by (simp add: sdk_held_def)

lemma sdk_held_trans: "sdk_held a a1 \<Longrightarrow> sdk_held a1 a2 \<Longrightarrow> sdk_held a a2"
  unfolding sdk_held_def using held_trans by metis

lemma sdk_held_setEngines: "held (pZanzibar (engines a)) (pZanzibar pe) \<Longrightarrow> sdk_held a (setEngines pe a)"
  by (simp add: sdk_held_def sdkZanzibar_def)

lemma sdk_held_setZanzibar: "held (sdkZanzibar a) e \<Longrightarrow> sdk_held a (setZanzibar e a)"
  by (simp add: setZanzibar_def sdk_held_setEngines sdkZanzibar_def)

lemma sdk_held_logEntry [simp]: "sdk_held a (logEntry e a') = sdk_held a a'"
  by (simp add: sdk_held_def sdkZanzibar_def)

lemma sdk_held_client: "aSync a = Some c \<Longrightarrow> held (zan c) (zan c') \<Longrightarrow> sdk_held a (a\<lparr>aSync := Some c'\<rparr>)"
  by (simp add: sdk_held_def sdkZanzibar_def engines_def)

lemma sdk_held_evaluateGated: "sdk_held a (snd (evaluateGated opa unm ctx el input a))"
proof (cases rule: evaluateGated_cases [of ctx a opa unm el input])
  case (evaluated r pe)
  then show ?thesis using held_Evaluate [of "engines a" opa unm ctx el input] by (simp add: sdk_held_setEngines)
qed auto

lemma sdk_held_CanWithDetails: "sdk_held a (snd (CanWithDetails opa unm rc el outer user relation object cts a))"
proof -
  obtain rt ri where po: "parseObject object = (rt, ri)" by fastforce
  show ?thesis
    using sdk_held_evaluateGated [of a opa unm "rcCtx rc" el "\<lparr>inUser = user, inRelation = relation, inObject = object,
      inResourceType = rt, inResourceID = ri, inContextTuples = cts, inExtra = []\<rparr>"]
    by (auto simp: CanWithDetails_def po Let_def split: prod.split option.split)
qed

lemma sdk_held_Authorize: "sdk_held a (snd (Authorize opa unm rc el outer relation object a))"
proof (cases "rcUser rc")
  case (Some p)
  obtain rt ri where po: "parseObject object = (rt, ri)" by fastforce
  show ?thesis
    using sdk_held_evaluateGated [of a opa unm "rcCtx rc" el "\<lparr>inUser = ''user:'' @ pUserID p, inRelation = relation,
      inObject = object, inResourceType = rt, inResourceID = ri, inContextTuples = [], inExtra = authorizeExtra p rc relation\<rparr>"]
    by (auto simp: Authorize_def Some po logDecision_def logStaleDeny_def split: prod.split option.split gated.split)
qed (simp add: Authorize_def logDecision_def)

lemma sdk_held_raw:
  assumes "f (sdkZanzibar a) = (r, e)" and "\<And>e. held e (snd (f e))"
  shows "sdk_held a (setZanzibar e a)"
  using assms by (metis sdk_held_setZanzibar snd_conv)

lemma sdk_held_access:
  "sdk_held a (snd (GrantAccess ctx rpc user relation object a))" "sdk_held a (snd (RevokeAccess ctx rpc user relation object a))"
  by (auto simp: GrantAccess_def RevokeAccess_def split: option.split tupleWriter.split prod.split
      intro!: sdk_held_raw held_intros)

lemma sdk_held_listings:
  "sdk_held a (snd (ListObjects_Sdk unm ctx subject relation objectType a))"
  "sdk_held a (snd (ListSubjects unm ctx relation object a))"
  "sdk_held a (snd (CheckDebug_Sdk unm ctx user relation object a))"
  by (auto simp: ListObjects_Sdk_def ListSubjects_def CheckDebug_Sdk_def split: option.split prod.split sum.split
      intro!: sdk_held_raw held_intros)

lemma sdk_held_Materialize: "sdk_held a (snd (Materialize name a))"
  by (auto simp: Materialize_def held_def wired_def split: option.split sum.split intro!: sdk_held_setZanzibar)

lemma sdk_held_materializeLoop: "sdk_held a (snd (materializeLoop names firstErr a))"
proof (induction names firstErr a rule: materializeLoop.induct)
  case (2 name names firstErr a)
  obtain r a1 where m: "Materialize name a = (r, a1)" by fastforce
  then have "sdk_held a a1" using sdk_held_Materialize [of a name] by simp
  then show ?case using 2 m by (cases r) (auto intro: sdk_held_trans)
qed simp

lemma held_writeSnapshotTuples: "held e (snd (writeSnapshotTuples unm ctx ts e))"
  unfolding writeSnapshotTuples_def
  by (rule first_err_st_inv [where P = "held e"]) (auto intro: held_trans held_WriteTuple)

lemma held_loadSnapshotModel: "held e (snd (loadSnapshotModel unm snap e))"
  by (simp add: loadSnapshotModel_def held_models)

lemma held_Bootstrap: "held (pZanzibar pe) (pZanzibar (snd (Bootstrap opa unm ctx resp pe)))"
proof (cases "resp = Inl (projl resp) \<or> snTenantId (projr resp) = []")
  case True
  then show ?thesis by (cases resp) (auto simp: Bootstrap_def)
next
  case False
  then obtain snap where resp: "resp = Inr snap" "snTenantId snap \<noteq> []" by (cases resp) auto
  obtain r1 z1 where l: "loadSnapshotModel unm snap (pZanzibar pe) = (r1, z1)" by fastforce
  obtain r2 z2 where w: "writeSnapshotTuples unm ctx (snTuples snap) z1 = (r2, z2)" by fastforce
  have h1: "held (pZanzibar pe) z1" using held_loadSnapshotModel [of "pZanzibar pe" unm snap] l by simp
  have h2: "held (pZanzibar pe) z2"
    using held_trans [OF h1] held_writeSnapshotTuples [of z1 unm ctx "snTuples snap"] w by simp
  show ?thesis
    using resp l w h1 h2 held_LoadBundle [of "pe\<lparr>pZanzibar := z2\<rparr>" opa "snPolicyBundle snap"]
    by (auto simp: Bootstrap_def Let_def intro: held_trans split: option.splits prod.splits) (metis held_trans snd_conv)+
qed

lemma sdk_held_bootstrapLoad: "sdk_held a (snd (bootstrapLoad opa unm ctx resp a))"
proof -
  obtain r pe where b: "Bootstrap opa unm ctx resp (engines a) = (r, pe)" by fastforce
  have h: "sdk_held a (setEngines pe a)" using held_Bootstrap [of "engines a" opa unm ctx resp] b by (simp add: sdk_held_setEngines)
  have m: "sdk_held a (snd (MaterializeAll (setEngines pe a)))"
    using sdk_held_trans [OF h] sdk_held_materializeLoop by (metis MaterializeAll_def)
  show ?thesis using b h m by (auto simp: bootstrapLoad_def split: sum.split prod.split option.split)
qed

lemma sdk_held_bindTenant: "sdk_held a (snd (bindTenant tid a))"
proof -
  have "gate_kept (wGate (sdkWorld a)) g" if "BindTenant tid (wGate (sdkWorld a)) = (r, g)" for r g
    using that gate_kept_ops(1) [of "wGate (sdkWorld a)" tid] by simp
  then show ?thesis
    by (auto simp: bindTenant_def held_def wired_def sdkWorld_def sdkZanzibar_def split: prod.split intro!: sdk_held_setZanzibar)
qed

lemma engines_mark [simp]: "engines (markBootstrapped a) = engines a" "aServingGateRequired (markBootstrapped a) = aServingGateRequired a"
  "engines (a\<lparr>aSync := Some c\<rparr>) = cPolicy c" "sdkWorld (markBootstrapped a) = sdkWorld a"
  by (simp_all add: markBootstrapped_def engines_def sdkWorld_def split: option.split)

lemma held_NewClient:
  "held (pZanzibar pe) (zan (NewClient org token (Some (wGate (outside (pZanzibar pe)))) pe))"
  by (simp add: NewClient_def Let_def SetPolicyServingGate_def SetTenantServingGate_def held_def wired_def)

lemma sdk_held_BootstrapSdk: "sdk_held a (snd (BootstrapSdk opa unm ctx resp a))"
proof -
  obtain r a1 where b: "bootstrapLoad opa unm ctx resp a = (r, a1)" by fastforce
  have h1: "sdk_held a a1" using sdk_held_bootstrapLoad [of a opa unm ctx resp] b by simp
  have h2: "sdk_held a a2" if "bindTenant tid a1 = (e, a2)" for tid e a2
    using sdk_held_trans [OF h1] sdk_held_bindTenant [of a1 tid] that by simp
  have h3: "sdk_held a2 ((markBootstrapped a2)\<lparr>aSync := Some (SeedPolicyData d
        (NewClient org tok (Some (wGate (sdkWorld (markBootstrapped a2)))) (engines a2)))\<rparr>)" for a2 d org tok
    using held_NewClient [of "engines a2"] by (simp add: sdk_held_def sdkZanzibar_def sdkWorld_def)
  have h4: "sdk_held a2 (markBootstrapped a2)" for a2 :: "('a, 'b, 'c, 'd) Atol" by (simp add: sdk_held_def sdkZanzibar_def)
  show ?thesis
    using b h1 h2 sdk_held_trans [OF h2 h3] sdk_held_trans [OF h2 h4]
    by (auto simp: BootstrapSdk_def Let_def split: sum.split prod.split option.split)
qed

lemma sdk_held_rebootstrap: "sdk_held a (snd (rebootstrap opa unm ctx resp a))"
proof -
  obtain r a1 where b: "bootstrapLoad opa unm ctx resp a = (r, a1)" by fastforce
  have h1: "sdk_held a a1" using sdk_held_bootstrapLoad [of a opa unm ctx resp] b by simp
  have h2: "sdk_held a (markBootstrapped a2)" if "bindTenant tid a1 = (e, a2)" for tid e a2
    using sdk_held_trans [OF h1] sdk_held_bindTenant [of a1 tid] that by (simp add: sdk_held_def sdkZanzibar_def)
  have h3: "sdk_held a a2" if "bindTenant tid a1 = (e, a2)" for tid e a2
    using sdk_held_trans [OF h1] sdk_held_bindTenant [of a1 tid] that by simp
  have h4: "sdk_held a2 (a2\<lparr>aSync := Some (SeedPolicyData d c)\<rparr>)" if "aSync a2 = Some c" for a2 :: "('a, 'b, 'c, 'd) Atol" and c d
    using sdk_held_client [OF that, of "SeedPolicyData d c"] by simp
  show ?thesis
    using b h1 h2 h3 sdk_held_trans [OF h2 h4]
    by (auto simp: rebootstrap_def Let_def split: sum.split prod.split option.split)
qed

text \<open>The calls of an application, and the passing of time and of the application's own state between them.\<close>

inductive app_call ::
    "('mod, 'c, 'st, 'txn, 'q) SyncEnv \<Rightarrow> ('n, 'c, 'st, 'q) Atol \<Rightarrow> ('n, 'c, 'st, 'q) Atol \<Rightarrow> bool"
  for env where
  can: "app_call env a (snd (CanWithDetails (envOPA env) (envYAML env) rc el outer user relation object cts a))"
| authorize: "app_call env a (snd (Authorize (envOPA env) (envYAML env) rc el outer relation object a))"
| debug: "app_call env a (snd (CheckDebug_Sdk (envYAML env) ctx user relation object a))"
| objects: "app_call env a (snd (ListObjects_Sdk (envYAML env) ctx subject relation objectType a))"
| subjects: "app_call env a (snd (ListSubjects (envYAML env) ctx relation object a))"
| grant: "app_call env a (snd (GrantAccess ctx rpc user relation object a))"
| revoke: "app_call env a (snd (RevokeAccess ctx rpc user relation object a))"
| register: "app_call env a (RegisterMaterializer name fn a)"
| materialize: "app_call env a (snd (Materialize name a))"
| time: "app_call env a (setZanzibar ((sdkZanzibar a)\<lparr>outside := (sdkWorld a)\<lparr>wNow := now, wHost := host\<rparr>\<rparr>) a)"

lemma app_call_held: "app_call env a a' \<Longrightarrow> sdk_held a a'"
proof (induction rule: app_call.induct)
  case (register a name fn)
  then show ?case by (simp add: RegisterMaterializer_def sdk_held_def sdkZanzibar_def engines_def split: option.split)
next
  case (time a now host)
  then show ?case by (intro sdk_held_setZanzibar) (simp add: held_def wired_def sdkWorld_def sdkZanzibar_def)
qed (simp_all add: sdk_held_CanWithDetails sdk_held_Authorize sdk_held_listings sdk_held_access sdk_held_Materialize)

lemma NewAtol_wired:
  assumes "NewAtol codec unm readFile me now host no cfg = Some (Inr a)" and "aServingGateRequired a"
  shows "wired (sdkZanzibar a)"
proof -
  have "eNotifier z = NoopNotifier" if "LoadModel unm d (NewEngine st None None ts ms w) = (r, z)" for d st ts ms w r z
    using that by (auto simp: LoadModel_def notifyModel_def NewEngine_def split: sum.splits)
  with assms show ?thesis
    by (auto simp: NewAtol_def Let_def wired_def sdkZanzibar_def engines_def NewPolicyEngine_def SetTenantServingGate_def NewEngine_def
        split: if_splits sum.splits option.splits prod.splits)
qed

lemma restricted_world:
  assumes "gRestriction (wGate w) = Some r"
  obtains err where "worldGate tid w = Some err"
    and "gTenantID (wGate w) \<noteq> [] \<Longrightarrow> tid = [] \<or> tid = gTenantID (wGate w) \<Longrightarrow> err = restrictedError r"
  using assms that by (fastforce simp: worldGate_def RequireActive_def requireTenantLocked_def split: if_splits)

text \<open>Once a wired SDK's gate is restricted, every decision and listing of the bound tenant is that restriction's error.\<close>

lemma restricted_refuses:
  assumes "wired (sdkZanzibar a)" and "aServingGateRequired a" and "gRestriction (wGate (sdkWorld a)) = Some r"
    and "gTenantID (wGate (sdkWorld a)) \<noteq> []" and "ctxTenant (rcCtx rc) = [] \<or> ctxTenant (rcCtx rc) = gTenantID (wGate (sdkWorld a))"
  shows "fst (CanWithDetails opa unm rc el outer user relation object cts a) =
      Some (Inl (Wrapf STR ''evaluate policy: %w'' [] (restrictedError r)))"
    and "rcUser rc = Some p \<Longrightarrow> fst (Authorize opa unm rc el outer relation object a) =
      Some (Inl (Wrapf STR ''evaluate policy: %w'' [] (restrictedError r)))"
    and "\<exists>err. fst (ListObjects_Sdk unm (rcCtx rc) user relation ty a) = Some (Inl err) \<and> errors_Is err ErrTenantServingRestricted"
    and "\<exists>err. fst (ListSubjects unm (rcCtx rc) relation object a) = Some (Inl err) \<and> errors_Is err ErrTenantServingRestricted"
proof -
  have gate: "worldGate (ctxTenant (rcCtx rc)) (sdkWorld a) = Some (restrictedError r)"
    using restricted_world [OF assms(3), of "ctxTenant (rcCtx rc)"] assms(4,5) by metis
  have req: "requireServingActive (rcCtx rc) a = Some (restrictedError r)"
    using assms(2) gate by (simp add: requireServingActive_def restrictedError_def)
  have ev: "evaluateGated opa unm (rcCtx rc) el input a = (Some (GErr (restrictedError r)), a)" for input
    using req by (simp add: evaluateGated_def)
  have ten: "requireTenantServing (rcCtx rc) (sdkZanzibar a) =
      Some (Wrapf STR ''tenant authorization serving is unavailable: %w'' [] (restrictedError r))"
    using assms(1) gate by (simp add: requireTenantServing_def wired_def sdkWorld_def sdkZanzibar_def)
  show "fst (CanWithDetails opa unm rc el outer user relation object cts a) =
      Some (Inl (Wrapf STR ''evaluate policy: %w'' [] (restrictedError r)))"
    by (simp add: CanWithDetails_def ev Let_def split: prod.split)
  show "fst (Authorize opa unm rc el outer relation object a) =
      Some (Inl (Wrapf STR ''evaluate policy: %w'' [] (restrictedError r)))" if "rcUser rc = Some p"
    using that by (simp add: Authorize_def ev split: prod.split)
  show "\<exists>err. fst (ListObjects_Sdk unm (rcCtx rc) user relation ty a) = Some (Inl err) \<and> errors_Is err ErrTenantServingRestricted"
    using ten by (simp add: ListObjects_Sdk_def ListObjects_Engine_def withModel_def restrictedError_def)
  show "\<exists>err. fst (ListSubjects unm (rcCtx rc) relation object a) = Some (Inl err) \<and> errors_Is err ErrTenantServingRestricted"
    using ten by (simp add: ListSubjects_def ListUsers_Engine_def withModel_def restrictedError_def)
qed

lemma held_restricted:
  assumes "sdk_held a a'" and "wired (sdkZanzibar a)" and "aServingGateRequired a" and "gRestriction (wGate (sdkWorld a)) = Some r"
    and "gTenantID (wGate (sdkWorld a)) \<noteq> []"
  obtains r' where "wired (sdkZanzibar a')" "aServingGateRequired a'" "gRestriction (wGate (sdkWorld a')) = Some r'" "rEpoch r \<le> rEpoch r'"
    "gTenantID (wGate (sdkWorld a')) = gTenantID (wGate (sdkWorld a))"
  using assms by (auto simp: sdk_held_def held_def gate_kept_def sdkWorld_def sdkZanzibar_def)

section \<open>Sample histories\<close>

definition sampleSnapshot :: "string \<Rightarrow> Snapshot" where
  "sampleSnapshot tid =
     \<lparr>snTenantId = tid, snAuthorizationModel = ''model'', snAuthorizationModelRevision = 7,
      snTuples = [(''user:ann'', ''viewer'', ''doc:1''), (''user:cat'', ''owner'', ''doc:1'')],
      snPolicyData = None, snPolicyBundle = [], snContinuationToken = ''t0''\<rparr>"

definition bootedAtol :: sample_atol where
  "bootedAtol = snd (BootstrapSdk sampleOPA sampleDecoder rootCtx (Inr (sampleSnapshot ''acme'')) (sampleAtol False))"

definition receive :: "int \<times> Message \<Rightarrow> sample_atol \<Rightarrow> sample_atol" where
  "receive f a =
     (case aSync a of None \<Rightarrow> a | Some c \<Rightarrow> a\<lparr>aSync := Some (snd (receiveLoop sampleEnv ''nonce'' [f] c))\<rparr>)"

definition restrictFrame :: "int \<times> Message" where
  "restrictFrame =
     (6, \<lparr>msgTenantId = ''acme'', msgContinuationToken = ''t1'',
          msgMutation = TenantServingStateUpdateM (Some
            \<lparr>uState = TENANT_SERVING_STATE_RESTRICTED, uEpoch = 1, uRestrictionRequestId = ''r'',
             uRestrictionReason = ''admitted_target_missing'', uAuthorityEventId = ''e'', uAuthorityAppendOrdinal = 1,
             uServingChallenge = [], uLeaseExpiresAt = None\<rparr>)\<rparr>)"

definition renewFrame :: "int \<times> Message" where
  "renewFrame =
     (7, \<lparr>msgTenantId = ''acme'', msgContinuationToken = ''t2'',
          msgMutation = TenantServingStateUpdateM (Some (active_update ''nonce'' (20 * seconds)))\<rparr>)"

text \<open>Renewed, the SDK serves; restricted and renewed, it does not.\<close>

lemma renewed_serves:
  "map_option (map_sum (\<lambda>_. ()) Allowed)
     (fst (CanWithDetails sampleOPA sampleDecoder annCtx 1 2 ''user:ann'' ''viewer'' ''doc:1'' [] (receive renewFrame bootedAtol))) = Some (Inr True)"
  "map_option (map_sum (\<lambda>_. ()) Allowed)
     (fst (CanWithDetails sampleOPA sampleDecoder annCtx 1 2 ''user:ann'' ''viewer'' ''doc:1'' []
       (receive renewFrame (receive restrictFrame bootedAtol)))) = Some (Inl ())"
  by code_simp+

section \<open>What a bootstrap leaves\<close>

definition over_memory :: "(MemoryStore, 'm, 'x) Engine \<Rightarrow> bool" where
  "over_memory e \<longleftrightarrow> esTuples (eStore e) = memoryTupleStore \<and> mem_inv (tuplesState e)"

abbreviation tuples_of :: "(MemoryStore, 'm, 'x, 'c, 'st, 'q) PolicyEngine \<Rightarrow> MemoryStore" where
  "tuples_of pe \<equiv> tuplesState (pZanzibar pe)"

definition snapshotTuples :: "(string \<times> string \<times> string) list \<Rightarrow> Tuple set" where
  "snapshotTuples ts = (\<lambda>(user, relation, object). parseTuple user relation object) ` set ts"

lemma WriteTuple_memory:
  assumes "over_memory e" and "wf_tuple (parseTuple user relation object)"
    and "WriteTuple unm ctx user relation object e = (eo, e')"
  shows "over_memory e' \<and> materialized (tuplesState e') = materialized (tuplesState e) \<and> defaultModel e' = defaultModel e \<and>
    stored (tuplesState e') =
      (if eo = None then insert (parseTuple user relation object) (stored (tuplesState e)) else stored (tuplesState e))"
proof (cases "modelForOperation unm ctx e")
  case (Pair r e1)
  note keeps = modelForOperation_keeps [OF Pair]
  show ?thesis
  proof (cases "\<exists>tm. r = Inr tm \<and> ValidateTuple (map_option tmModel tm) (parseTuple user relation object) = None")
    case True
    then have m: "mutate (recordTupleWrite (eNotifier e) (ctxTenant ctx)) (tsWrite memoryTupleStore (parseTuple user relation object))
        (\<lambda>err. err) (notifyWrite ctx) (parseTuple user relation object) e1 = (eo, e')"
      using assms(1,3) Pair keeps by (auto simp: WriteTuple_def over_memory_def Let_def)
    from mutate_memory_write [OF m keeps(4) refl] keeps assms(1,2) show ?thesis
      by (cases eo) (auto simp: stored_writeLocked over_memory_def mem_inv_writeLocked)
  next
    case False
    with assms(1,3) Pair keeps show ?thesis
      by (cases r) (auto simp: WriteTuple_def over_memory_def Let_def)
  qed
qed

lemma writeSnapshotTuples_memory:
  assumes "over_memory e" and "\<forall>t \<in> snapshotTuples ts. wf_tuple t" and "writeSnapshotTuples unm ctx ts e = (eo, e')"
  shows "over_memory e' \<and> materialized (tuplesState e') = materialized (tuplesState e) \<and> defaultModel e' = defaultModel e \<and>
    stored (tuplesState e) \<subseteq> stored (tuplesState e') \<and>
    stored (tuplesState e') \<subseteq> stored (tuplesState e) \<union> snapshotTuples ts \<and>
    (eo = None \<longrightarrow> stored (tuplesState e') = stored (tuplesState e) \<union> snapshotTuples ts)"
  using assms
proof (induction ts arbitrary: e)
  case Nil
  then show ?case by (simp add: writeSnapshotTuples_def snapshotTuples_def)
next
  case (Cons t ts)
  obtain user relation object where t: "t = (user, relation, object)" by (cases t rule: prod_cases3)
  obtain r e1 where w: "WriteTuple unm ctx user relation object e = (r, e1)" by fastforce
  have wf: "wf_tuple (parseTuple user relation object)" "\<forall>t \<in> snapshotTuples ts. wf_tuple t"
    using Cons.prems(2) t by (auto simp: snapshotTuples_def)
  have sn: "snapshotTuples (t # ts) = insert (parseTuple user relation object) (snapshotTuples ts)"
    by (simp add: snapshotTuples_def t)
  note m = WriteTuple_memory [OF Cons.prems(1) wf(1) w]
  show ?case
  proof (cases r)
    case None
    then have "writeSnapshotTuples unm ctx ts e1 = (eo, e')" using Cons.prems(3) w t by (simp add: writeSnapshotTuples_def)
    from Cons.IH [OF _ wf(2) this] m None show ?thesis unfolding sn by auto
  next
    case (Some err)
    then have "eo \<noteq> None" "e' = e1" using Cons.prems(3) w t by (auto simp: writeSnapshotTuples_def)
    with m Some show ?thesis unfolding sn by auto
  qed
qed

definition modelAfter :: "(string \<Rightarrow> yamlModel res) \<Rightarrow> Snapshot \<Rightarrow> tenantModel option \<Rightarrow> tenantModel option \<Rightarrow> bool" where
  "modelAfter unm snap old new \<longleftrightarrow>
     (if snAuthorizationModel snap = [] then new = old
      else \<exists>m. Compile unm (snAuthorizationModel snap) = Inr m \<and>
        new = (if \<exists>tm. old = Some tm \<and> 0 < snAuthorizationModelRevision snap \<and> snAuthorizationModelRevision snap \<le> tmRevision tm
               then old
               else Some \<lparr>tmModel = m, tmSource = snAuthorizationModel snap, tmRevision = max 0 (snAuthorizationModelRevision snap)\<rparr>))"

lemma loadSnapshotModel_after:
  assumes "loadSnapshotModel unm snap e = (eo, e')"
  shows "tuplesState e' = tuplesState e \<and> eStore e' = eStore e \<and>
    (eo = None \<longrightarrow> modelAfter unm snap (defaultModel e) (defaultModel e'))"
  using assms
  by (auto simp: loadSnapshotModel_def LoadModel_def ActivateModel_def notifyModel_def modelAfter_def max_def
      split: if_splits sum.splits option.splits)

text \<open>
  What any bootstrap adds, the first or a later one, to an engine over the memory store, with a
  snapshot of separator-free tuples.
\<close>

lemma Bootstrap_adds:
  assumes "over_memory (pZanzibar pe)" and "\<forall>t \<in> snapshotTuples (snTuples snap). wf_tuple t"
    and "Bootstrap opa unm ctx (Inr snap) pe = (res, pe')"
  shows "over_memory (pZanzibar pe') \<and> materialized (tuples_of pe') = materialized (tuples_of pe) \<and>
    stored (tuples_of pe) \<subseteq> stored (tuples_of pe') \<and>
    stored (tuples_of pe') \<subseteq> stored (tuples_of pe) \<union> snapshotTuples (snTuples snap) \<and>
    (\<forall>result. res = Inr result \<longrightarrow>
       stored (tuples_of pe') = stored (tuples_of pe) \<union> snapshotTuples (snTuples snap) \<and>
       modelAfter unm snap (defaultModel (pZanzibar pe)) (defaultModel (pZanzibar pe')) \<and>
       brTenantID result = snTenantId snap \<and> brTenantID result \<noteq> [] \<and>
       brContinuationToken result = snContinuationToken snap \<and>
       brAuthorizationModelRevision result = snAuthorizationModelRevision snap \<and>
       brPolicyData result = (case snPolicyData snap of None \<Rightarrow> [] | Some d \<Rightarrow> d) \<and>
       (pBundle pe' = None \<longrightarrow> snPolicyBundle snap = [] \<and> pBundle pe = None))"
proof (cases "snTenantId snap = []")
  case True
  with assms show ?thesis by (auto simp: Bootstrap_def)
next
  case False
  obtain r1 z1 where l: "loadSnapshotModel unm snap (pZanzibar pe) = (r1, z1)" by fastforce
  obtain r2 z2 where w: "writeSnapshotTuples unm ctx (snTuples snap) z1 = (r2, z2)" by fastforce
  note la = loadSnapshotModel_after [OF l]
  have om: "over_memory z1" using la assms(1) by (simp add: over_memory_def)
  note wm = writeSnapshotTuples_memory [OF om assms(2) w]
  show ?thesis
  proof (cases "r1 = None \<and> r2 = None \<and> snPolicyBundle snap \<noteq> []")
    case True
    let ?pd = "case snPolicyData snap of None \<Rightarrow> [] | Some d \<Rightarrow> d"
    show ?thesis
      by (cases rule: LoadBundle_cases [of opa "snPolicyBundle snap" ?pd "pe\<lparr>pZanzibar := z2\<rparr>"])
        (use assms(3) False True l w la wm in \<open>auto simp: Bootstrap_def Let_def\<close>)
  next
    case nb: False
    with assms(3) False l w la wm om show ?thesis
      by (cases r1; cases r2) (auto simp: Bootstrap_def Let_def split: if_splits)
  qed
qed

text \<open>
  C19. What a first bootstrap leaves. On an engine over the memory store that holds no tuple yet, with
  a snapshot whose tuples have key parts free of the separators behind them, a bootstrap that succeeds
  leaves exactly the tuples of the snapshot, the materialized tuples as they were, and returns the
  tenant, which is not empty, the token, revision and policy data of the snapshot. A snapshot without
  a model leaves the model in force. Any other model compiles and is in force, with the snapshot's
  revision or, for one that is not positive, revision 0, unless the snapshot's revision is positive and
  the model in force has at least that revision and stays. A policy bundle is in force afterwards where
  the snapshot has one. A bootstrap that fails leaves only tuples of the snapshot.
\<close>

theorem Bootstrap_exact:
  assumes "over_memory (pZanzibar pe)" and "stored (tuples_of pe) = {}"
    and "\<forall>t \<in> snapshotTuples (snTuples snap). wf_tuple t"
    and "Bootstrap opa unm ctx (Inr snap) pe = (res, pe')"
  shows "materialized (tuples_of pe') = materialized (tuples_of pe) \<and>
    stored (tuples_of pe') \<subseteq> snapshotTuples (snTuples snap) \<and>
    (\<forall>result. res = Inr result \<longrightarrow>
       stored (tuples_of pe') = snapshotTuples (snTuples snap) \<and>
       modelAfter unm snap (defaultModel (pZanzibar pe)) (defaultModel (pZanzibar pe')) \<and>
       brTenantID result = snTenantId snap \<and> brTenantID result \<noteq> [] \<and>
       brContinuationToken result = snContinuationToken snap \<and>
       brAuthorizationModelRevision result = snAuthorizationModelRevision snap \<and>
       brPolicyData result = (case snPolicyData snap of None \<Rightarrow> [] | Some d \<Rightarrow> d) \<and>
       (pBundle pe' = None \<longrightarrow> snPolicyBundle snap = [] \<and> pBundle pe = None))"
  using Bootstrap_adds [OF assms(1,3,4)] unfolding assms(2) Un_empty_left by blast

theorem Bootstrap_exact_witness:
  "\<exists>result pe'. Bootstrap sampleOPA sampleDecoder rootCtx (Inr (sampleSnapshot ''acme'')) (engines (sampleAtol False)) = (Inr result, pe') \<and>
     stored (tuples_of pe') = {tup ''doc'' ''1'' ''viewer'' ''user'' ''ann'' [], tup ''doc'' ''1'' ''owner'' ''user'' ''cat'' []} \<and>
     brContinuationToken result = ''t0''"
proof -
  let ?b = "Bootstrap sampleOPA sampleDecoder rootCtx (Inr (sampleSnapshot ''acme'')) (engines (sampleAtol False))"
  have "(case fst ?b of Inl _ \<Rightarrow> False | Inr _ \<Rightarrow> True)" by code_simp
  then obtain result pe' where b: "?b = (Inr result, pe')" by (cases ?b) (auto split: sum.splits)
  have e: "over_memory (pZanzibar (engines (sampleAtol False)))" "stored (tuples_of (engines (sampleAtol False))) = {}"
    by (simp_all add: sampleAtol_def sdkEngine_def engines_def NewPolicyEngine_def over_memory_def NewEngine_def
        memoryEngineStore_def SetTenantServingGate_def)
  have "map (\<lambda>(user, relation, object). parseTuple user relation object) (snTuples (sampleSnapshot ''acme'')) =
      [tup ''doc'' ''1'' ''viewer'' ''user'' ''ann'' [], tup ''doc'' ''1'' ''owner'' ''user'' ''cat'' []]" by code_simp
  then have sn: "snapshotTuples (snTuples (sampleSnapshot ''acme'')) =
      {tup ''doc'' ''1'' ''viewer'' ''user'' ''ann'' [], tup ''doc'' ''1'' ''owner'' ''user'' ''cat'' []}"
    unfolding snapshotTuples_def by (metis list.set_map list.simps(15) empty_set)
  moreover have "wf_tuple (tup ''doc'' ''1'' ''viewer'' ''user'' ''ann'' [])" "wf_tuple (tup ''doc'' ''1'' ''owner'' ''user'' ''cat'' [])"
    by code_simp+
  ultimately have wf: "\<forall>t \<in> snapshotTuples (snTuples (sampleSnapshot ''acme'')). wf_tuple t" by simp
  show ?thesis
    using Bootstrap_exact [OF e wf b] b unfolding sn by (auto simp: sampleSnapshot_def)
qed

text \<open>
  A rebootstrap from a snapshot without a tuple leaves the tuple in force, so a revocation that the
  stream did not deliver is not caught up on; and a snapshot of another tenant is loaded before the
  tenant binding refuses it.
\<close>

lemma rebootstrap_keeps_revoked:
  "map_option (map_sum (\<lambda>_. ()) Allowed)
     (fst (CanWithDetails sampleOPA sampleDecoder annCtx 1 2 ''user:ann'' ''viewer'' ''doc:1'' []
       (receive renewFrame (snd (rebootstrap sampleOPA sampleDecoder rootCtx (Inr ((sampleSnapshot ''acme'')\<lparr>snTuples := []\<rparr>)) bootedAtol))))) =
   Some (Inr True)"
  by code_simp

lemma rebootstrap_foreign_snapshot:
  "(case rebootstrap sampleOPA sampleDecoder rootCtx (Inr ((sampleSnapshot ''other'')\<lparr>snTuples := [(''user:eve'', ''viewer'', ''doc:1'')]\<rparr>))
          bootedAtol of
      (Inl err, a) \<Rightarrow>
        map_option (map_sum (\<lambda>_. ()) Allowed)
          (fst (CanWithDetails sampleOPA sampleDecoder annCtx 1 2 ''user:eve'' ''viewer'' ''doc:1'' [] (receive renewFrame a)))
    | (Inr _, a) \<Rightarrow> None) = Some (Inr True)"
  by code_simp

end
