(* ===== verification/Dpop.thy ===== *)
theory Dpop
  imports Serving_Gate
begin

text \<open>
  DPoP proofs at a resource server (\<open>dpop.go\<close>, \<open>dpop_challenge.go\<close>): the validator with every refusal,
  the replay guard interface and its in-memory implementation, the request URI and its
  normalisation, and the challenge of a refused request.

  The JOSE library, hashes, the URL parser and printer and Unicode case folding are parameters,
  collected in \<open>Jose\<close>. Times are nanoseconds since the Unix epoch. The validator and the guard each read
  the clock once, so both readings are arguments.
\<close>

section \<open>Parameters\<close>

record URL =
  uScheme :: string
  uHost :: string
  uPath :: string
  uRawQuery :: string
  uFragment :: string
  uRest :: string

record dpopClaims =
  clJTI :: string
  clHTM :: string
  clHTU :: string
  clATH :: string
  clIAT :: int

definition DPoPSupportedAlgs :: "string list" where
  "DPoPSupportedAlgs = [''ES256'', ''ES384'', ''ES512'', ''PS256'', ''RS256'']"

text \<open>A header of a parsed token: its \<open>typ\<close> when that is a string, and the key it embeds.\<close>

record 'key joseHeader =
  hdTyp :: "string option"
  hdKey :: "'key option"

record ('tok, 'key) Jose =
  parseProof :: "string list \<Rightarrow> string \<Rightarrow> 'tok res"
  proofHeaders :: "'tok \<Rightarrow> 'key joseHeader list"
  isPublic :: "'key \<Rightarrow> bool"
  isEcOrRsa :: "'key \<Rightarrow> bool"
  proofClaims :: "'key \<Rightarrow> 'tok \<Rightarrow> dpopClaims res"
  thumbprint :: "'key \<Rightarrow> string res"
  tokenHash :: "string \<Rightarrow> string"
  equalFold :: "string \<Rightarrow> string \<Rightarrow> bool"
  url_Parse :: "string \<Rightarrow> URL res"
  url_String :: "URL \<Rightarrow> string"

section \<open>URIs\<close>

definition TrimSuffix :: "string \<Rightarrow> string \<Rightarrow> string" where
  "TrimSuffix s suf =
     (if length suf \<le> length s \<and> drop (length s - length suf) s = suf then take (length s - length suf) s else s)"

text \<open>\<open>TrimSuffix\<close> leaves a host without the suffix alone, so the tests with \<open>HasSuffix\<close> are in it.\<close>

definition normalizeDPoPURI :: "('tok, 'key) Jose \<Rightarrow> string \<Rightarrow> string" where
  "normalizeDPoPURI js s =
     (case url_Parse js s of
        Inl _ \<Rightarrow> s
      | Inr u \<Rightarrow>
          (let h1 = (if uScheme u = ''http'' then TrimSuffix (uHost u) '':80'' else uHost u);
               h2 = (if uScheme u = ''https'' then TrimSuffix h1 '':443'' else h1)
           in url_String js (u\<lparr>uRawQuery := [], uFragment := [], uHost := h2,
                uPath := (if uPath u = [] then ''/'' else uPath u)\<rparr>)))"

record HttpRequest =
  hrMethod :: string
  hrHost :: string
  hrPath :: string
  hrTLS :: bool
  hrHeaders :: "(string \<times> string) list"
  hrRemoteAddr :: string

text \<open>\<open>r.Header.Get\<close>: a missing header reads empty. Header names are canonical.\<close>

definition Header_Get :: "string \<Rightarrow> HttpRequest \<Rightarrow> string" where
  "Header_Get name r = (case map_of (hrHeaders r) name of None \<Rightarrow> [] | Some v \<Rightarrow> v)"

text \<open>\<open>lower\<close> and \<open>trim\<close> are \<open>strings.ToLower\<close> and \<open>strings.TrimSpace\<close>.\<close>

definition reconstructRequestURI ::
    "('tok, 'key) Jose \<Rightarrow> (string \<Rightarrow> string) \<Rightarrow> (string \<Rightarrow> string) \<Rightarrow> HttpRequest \<Rightarrow> string" where
  "reconstructRequestURI js lower trim r =
     (let scheme0 = (if hrTLS r then ''https'' else ''http'');
          xf = Header_Get ''X-Forwarded-Proto'' r;
          scheme = (if xf \<noteq> [] then lower (trim (fst (cut CHR '','' xf))) else scheme0)
      in url_String js \<lparr>uScheme = scheme, uHost = hrHost r, uPath = hrPath r, uRawQuery = [], uFragment = [], uRest = []\<rparr>)"

section \<open>Replay guards\<close>

text \<open>
  \<open>CheckAndRecord\<close> at a time: fresh and recorded, replayed, or an error of the backend. The contract of
  the \<open>ReplayGuard\<close> interface: what was recorded is detected, and kept, until it may be evicted.
\<close>

type_synonym 'g guard = "int \<Rightarrow> string \<Rightarrow> int \<Rightarrow> 'g \<Rightarrow> bool res \<times> 'g"

type_synonym memoryReplayGuard = "(string \<times> int) list"

definition newMemoryReplayGuard :: memoryReplayGuard where
  "newMemoryReplayGuard = []"

definition CheckAndRecord :: "memoryReplayGuard guard" where
  "CheckAndRecord now jti expiresAt seen =
     (let seen1 = filter (\<lambda>(_, t). \<not> t < now) seen in
      if map_of seen1 jti \<noteq> None then (Inr False, seen1)
      else (Inr True, AList.update jti expiresAt seen1))"

section \<open>The validator\<close>

definition DefaultDPoPSkew :: int where "DefaultDPoPSkew = 30 * seconds"
definition DefaultDPoPMaxAge :: int where "DefaultDPoPMaxAge = 60 * seconds"

record DPoPValidator =
  skew :: int
  maxAge :: int
  requireATH :: bool

definition NewDPoPValidator :: "bool \<Rightarrow> DPoPValidator" where
  "NewDPoPValidator withRequireATH =
     \<lparr>skew = DefaultDPoPSkew, maxAge = DefaultDPoPMaxAge, requireATH = withRequireATH\<rparr>"

record DPoPProof =
  prJKT :: string
  prJTI :: string
  prHTM :: string
  prHTU :: string
  prATH :: string
  prIssuedAt :: int

text \<open>\<open>time.Unix\<close> keeps 64-bit seconds since year 1.\<close>

definition time_Unix :: "int \<Rightarrow> int" where
  "time_Unix sec = ((sec + 62135596800 + 2 ^ 63) mod 2 ^ 64 - 2 ^ 63 - 62135596800) * seconds"

text \<open>The checks before the guard is asked: the key, the claims and the time of issue.\<close>

definition checkProof ::
    "('tok, 'key) Jose \<Rightarrow> DPoPValidator \<Rightarrow> int \<Rightarrow> string \<Rightarrow> string \<Rightarrow> string \<Rightarrow> string \<Rightarrow> ('key \<times> dpopClaims) res" where
  "checkProof js v now raw expectedHTM expectedHTU expectedAccessToken =
     (case parseProof js DPoPSupportedAlgs raw of
        Inl err \<Rightarrow> Inl (Wrapf STR ''%w: %v'' [] ErrDPoPMalformed)
      | Inr tok \<Rightarrow>
          (case proofHeaders js tok of
             [hdr] \<Rightarrow>
               if hdTyp hdr \<noteq> Some ''dpop+jwt'' then Inl (Wrapf STR ''%w: typ header must be dpop+jwt'' [] ErrDPoPMalformed)
               else (case hdKey hdr of
                 None \<Rightarrow> Inl (Wrapf STR ''%w: missing jwk header'' [] ErrDPoPMalformed)
               | Some key \<Rightarrow>
                   if \<not> isPublic js key then Inl (Wrapf STR ''%w: jwk is not a public key'' [] ErrDPoPMalformed)
                   else if \<not> isEcOrRsa js key then Inl (Wrapf STR ''%w: unsupported jwk key type %T'' [] ErrDPoPMalformed)
                   else case proofClaims js key tok of
                     Inl err \<Rightarrow> Inl (Wrapf STR ''%w: %v'' [] ErrDPoPSignature)
                   | Inr claims \<Rightarrow>
                       if \<not> equalFold js (clHTM claims) expectedHTM
                       then Inl (Wrapf STR ''%w: proof.htm=%q, request method=%q'' [clHTM claims, expectedHTM] ErrDPoPMethodMismatch)
                       else if normalizeDPoPURI js (clHTU claims) \<noteq> normalizeDPoPURI js expectedHTU
                       then Inl (Wrapf STR ''%w: proof.htu=%q, request URI=%q'' [clHTU claims, expectedHTU] ErrDPoPURIMismatch)
                       else if expectedAccessToken \<noteq> [] \<and> clATH claims = [] \<and> requireATH v
                       then Inl (Wrapf STR ''%w: proof omits ath'' [] ErrDPoPATHMismatch)
                       else if expectedAccessToken \<noteq> [] \<and> clATH claims \<noteq> [] \<and> clATH claims \<noteq> tokenHash js expectedAccessToken
                       then Inl (Wrapf STR ''%w: proof ath does not match access token'' [] ErrDPoPATHMismatch)
                       else if clIAT claims = 0 then Inl (Wrapf STR ''%w: iat missing'' [] ErrDPoPMalformed)
                       else if time_Unix (clIAT claims) > now + skew v \<or> time_Unix (clIAT claims) < now - maxAge v - skew v
                       then Inl (Wrapf STR ''%w: iat=%s now=%s maxAge=%s'' [] ErrDPoPStale)
                       else if clJTI claims = [] then Inl (Wrapf STR ''%w: jti missing'' [] ErrDPoPMalformed)
                       else Inr (key, claims))
           | _ \<Rightarrow> Inl (Wrapf STR ''%w: expected exactly one signature header'' [] ErrDPoPMalformed)))"

definition validateString ::
    "('tok, 'key) Jose \<Rightarrow> 'g guard \<Rightarrow> DPoPValidator \<Rightarrow> int \<Rightarrow> int \<Rightarrow> string \<Rightarrow> string \<Rightarrow> string \<Rightarrow> string \<Rightarrow> string \<Rightarrow> 'g \<Rightarrow>
     DPoPProof res \<times> 'g" where
  "validateString js check v now guardNow raw expectedHTM expectedHTU expectedJKT expectedAccessToken g =
     (case checkProof js v now raw expectedHTM expectedHTU expectedAccessToken of
        Inl err \<Rightarrow> (Inl err, g)
      | Inr (key, claims) \<Rightarrow>
          (let iat = time_Unix (clIAT claims); expiresAt = iat + (maxAge v + skew v) in
           case check guardNow (clJTI claims) expiresAt g of
             (Inl err, g') \<Rightarrow> (Inl (Wrapf STR ''%w: %v'' [] ErrDPoPReplayBackend), g')
           | (Inr False, g') \<Rightarrow> (Inl ErrDPoPReplay, g')
           | (Inr True, g') \<Rightarrow>
               (case thumbprint js key of
                  Inl err \<Rightarrow> (Inl (Wrapf STR ''%w: thumbprint: %v'' [] ErrDPoPMalformed), g')
                | Inr jkt \<Rightarrow>
                    if expectedJKT \<noteq> [] \<and> jkt \<noteq> expectedJKT
                    then (Inl (Wrapf STR ''%w: token jkt=%q, proof jkt=%q'' [expectedJKT, jkt] ErrDPoPJKTMismatch), g')
                    else (Inr \<lparr>prJKT = jkt, prJTI = clJTI claims, prHTM = clHTM claims, prHTU = clHTU claims,
                               prATH = clATH claims, prIssuedAt = iat\<rparr>, g'))))"

definition Validate ::
    "('tok, 'key) Jose \<Rightarrow> (string \<Rightarrow> string) \<Rightarrow> (string \<Rightarrow> string) \<Rightarrow> 'g guard \<Rightarrow> DPoPValidator \<Rightarrow> int \<Rightarrow> int \<Rightarrow>
     HttpRequest \<Rightarrow> string \<Rightarrow> string \<Rightarrow> 'g \<Rightarrow> DPoPProof res \<times> 'g" where
  "Validate js lower trim check v now guardNow r expectedJKT accessToken g =
     (let raw = Header_Get ''DPoP'' r in
      if raw = [] then (Inl ErrDPoPMissing, g)
      else validateString js check v now guardNow raw (hrMethod r) (reconstructRequestURI js lower trim r)
             expectedJKT accessToken g)"

section \<open>Challenges\<close>

record challengeConfig =
  invalidProof :: bool
  useNonce :: bool
  chNonce :: string

text \<open>The headers of the 401 response.\<close>

definition WriteDPoPChallenge :: "string list \<Rightarrow> challengeConfig \<Rightarrow> (string \<times> string) list" where
  "WriteDPoPChallenge algs cfg =
     (let algs1 = (if algs = [] then DPoPSupportedAlgs else algs);
          params = [''algs='' @ CHR 0x22 # joinWith '' '' algs1 @ [CHR 0x22]] @
            (if useNonce cfg then [''error='' @ CHR 0x22 # ''use_dpop_nonce'' @ [CHR 0x22]]
             else if invalidProof cfg then [''error='' @ CHR 0x22 # ''invalid_dpop_proof'' @ [CHR 0x22]] else [])
      in (if useNonce cfg \<and> chNonce cfg \<noteq> [] then [(''DPoP-Nonce'', chNonce cfg)] else []) @
         [(''WWW-Authenticate'', ''DPoP '' @ joinWith '', '' params)])"

section \<open>Outcomes\<close>

text \<open>The label under which \<open>recordOutcome\<close> counts an answer of the validator.\<close>

definition dpopReason :: "goerror option \<Rightarrow> string" where
  "dpopReason err =
     (case err of
        None \<Rightarrow> ''accepted''
      | Some e \<Rightarrow>
          if errors_Is e ErrDPoPJKTMismatch then ''key_mismatch''
          else if errors_Is e ErrDPoPReplay then ''replay''
          else if errors_Is e ErrDPoPATHMismatch then ''ath_mismatch''
          else ''rejected'')"

lemma dpopReason_accepted: "dpopReason err = ''accepted'' \<longleftrightarrow> err = None"
  by (auto simp: dpopReason_def split: option.split)

text \<open>Whatever the guard reports, a proof for another key than the token's, once past the guard, is counted apart.\<close>

lemma dpopReason_key_mismatch:
  assumes "checkProof js v now raw htm htu token = Inr (key, claims)" and "thumbprint js key = Inr other" "jkt \<noteq> []" "other \<noteq> jkt"
    and "check gnow (clJTI claims) (time_Unix (clIAT claims) + (maxAge v + skew v)) g = (Inr True, g')"
  shows "\<exists>err. validateString js check v now gnow raw htm htu jkt token g = (Inl err, g') \<and> dpopReason (Some err) = ''key_mismatch''"
  using assms by (simp add: validateString_def dpopReason_def Let_def)

section \<open>Accepted proofs\<close>

lemma checkProof_ok:
  assumes "checkProof js v now raw htm htu token = Inr (key, claims)"
  shows "\<exists>tok hdr. parseProof js DPoPSupportedAlgs raw = Inr tok \<and> proofHeaders js tok = [hdr] \<and> hdTyp hdr = Some ''dpop+jwt'' \<and> hdKey hdr = Some key \<and>
      isPublic js key \<and> isEcOrRsa js key \<and> proofClaims js key tok = Inr claims"
    "equalFold js (clHTM claims) htm" "normalizeDPoPURI js (clHTU claims) = normalizeDPoPURI js htu"
    "token \<noteq> [] \<Longrightarrow> clATH claims = tokenHash js token \<or> clATH claims = [] \<and> \<not> requireATH v"
    "clJTI claims \<noteq> []" "clIAT claims \<noteq> 0"
    "now - maxAge v - skew v \<le> time_Unix (clIAT claims)" "time_Unix (clIAT claims) \<le> now + skew v"
  using assms
  by (auto simp: checkProof_def split: sum.splits list.splits option.splits if_splits)

text \<open>The proof of a raw string does not depend on when it is checked.\<close>

lemma checkProof_claims:
  assumes "checkProof js v now raw htm htu token = Inr (key, claims)" and "checkProof js v' now' raw htm' htu' token' = Inr (key', claims')"
  shows "key' = key \<and> claims' = claims"
  using checkProof_ok(1) [OF assms(1)] checkProof_ok(1) [OF assms(2)] by auto

lemma validateString_ok:
  assumes "validateString js check v now gnow raw htm htu jkt token g = (Inr proof, g')"
  obtains key claims where "checkProof js v now raw htm htu token = Inr (key, claims)"
    "check gnow (clJTI claims) (time_Unix (clIAT claims) + (maxAge v + skew v)) g = (Inr True, g')"
    "thumbprint js key = Inr (prJKT proof)" "jkt \<noteq> [] \<Longrightarrow> prJKT proof = jkt"
    "proof = \<lparr>prJKT = prJKT proof, prJTI = clJTI claims, prHTM = clHTM claims, prHTU = clHTU claims, prATH = clATH claims,
       prIssuedAt = time_Unix (clIAT claims)\<rparr>"
proof -
  obtain key claims where c: "checkProof js v now raw htm htu token = Inr (key, claims)"
    using assms by (auto simp: validateString_def split: sum.splits)
  obtain b g1 where k: "check gnow (clJTI claims) (time_Unix (clIAT claims) + (maxAge v + skew v)) g = (b, g1)" by fastforce
  have "b = Inr True" using assms c k by (auto simp: validateString_def Let_def split: sum.splits bool.splits)
  with assms c k show thesis
    by (intro that [OF c]) (auto simp: validateString_def Let_def split: sum.splits if_splits)
qed

text \<open>
  A replay guard: what was recorded as fresh is detected and kept as long as its expiry has not
  passed, whatever else is asked meanwhile.
\<close>

locale replay_guard =
  fixes check :: "'g guard" and recorded :: "string \<Rightarrow> int \<Rightarrow> 'g \<Rightarrow> bool"
  assumes records: "check now jti expires g = (Inr True, g') \<Longrightarrow> recorded jti expires g'"
    and detects: "recorded jti t g \<Longrightarrow> now \<le> t \<Longrightarrow> check now jti expires g \<noteq> (Inr True, g')"
    and keeps: "recorded jti t g \<Longrightarrow> now \<le> t \<Longrightarrow> check now jti' expires g = (r, g') \<Longrightarrow> recorded jti t g'"
begin

lemma validate_records:
  assumes "validateString js check v now gnow raw htm htu jkt token g = (Inr proof, g')"
  shows "recorded (prJTI proof) (prIssuedAt proof + (maxAge v + skew v)) g'"
  using assms by (elim validateString_ok) (metis DPoPProof.select_convs(2,6) records)

lemma validate_keeps:
  assumes "recorded jti t g" and "gnow \<le> t" and "validateString js check v now gnow raw htm htu jkt token g = (r, g')"
  shows "recorded jti t g'"
proof (cases "checkProof js v now raw htm htu token")
  case (Inl err)
  with assms(1,3) show ?thesis by (simp add: validateString_def)
next
  case (Inr kc)
  obtain key claims where kc: "kc = (key, claims)" by (cases kc)
  obtain b g1 where k: "check gnow (clJTI claims) (time_Unix (clIAT claims) + (maxAge v + skew v)) g = (b, g1)" by fastforce
  have "g' = g1" using assms(3) Inr kc k by (auto simp: validateString_def Let_def split: sum.splits bool.splits if_splits)
  with keeps [OF assms(1,2) k] show ?thesis by simp
qed

lemma validate_detects:
  assumes "recorded (prJTI proof) t g" and "gnow \<le> t"
  shows "validateString js check v now gnow raw htm htu jkt token g \<noteq> (Inr proof, g')"
proof
  assume ok: "validateString js check v now gnow raw htm htu jkt token g = (Inr proof, g')"
  then show False
    by (elim validateString_ok) (metis DPoPProof.select_convs(2) detects [OF assms])
qed

end

lemma update_keeps: "(k, v) \<in> set m \<Longrightarrow> k \<noteq> k' \<Longrightarrow> (k, v) \<in> set (AList.update k' w m)"
  by (induction m) auto

text \<open>What the in-memory guard has recorded: an entry that expires no earlier.\<close>

definition seenUntil :: "string \<Rightarrow> int \<Rightarrow> memoryReplayGuard \<Rightarrow> bool" where
  "seenUntil jti t seen \<longleftrightarrow> (\<exists>t'. (jti, t') \<in> set seen \<and> t \<le> t')"

interpretation memguard: replay_guard CheckAndRecord seenUntil
proof
  fix now jti expires g g' t jti' r
  show "seenUntil jti expires g'" if "CheckAndRecord now jti expires g = (Inr True, g')"
  proof -
    have "g' = AList.update jti expires (filter (\<lambda>(_, t). \<not> t < now) g)"
      using that by (auto simp: CheckAndRecord_def Let_def split: if_splits)
    then have "map_of g' jti = Some expires" by (simp add: map_of_update)
    then show ?thesis by (auto simp: seenUntil_def dest: map_of_SomeD)
  qed
  show "CheckAndRecord now jti expires g \<noteq> (Inr True, g')" if "seenUntil jti t g" "now \<le> t"
  proof -
    from that(1) obtain t' where "(jti, t') \<in> set g" "t \<le> t'" by (auto simp: seenUntil_def)
    with that(2) have "(jti, t') \<in> set (filter (\<lambda>(_, t). \<not> t < now) g)" by simp
    then have "map_of (filter (\<lambda>(_, t). \<not> t < now) g) jti \<noteq> None" by (metis map_of_eq_None_iff imageI fst_conv)
    then show ?thesis by (simp add: CheckAndRecord_def Let_def)
  qed
  show "seenUntil jti t g'" if "seenUntil jti t g" "now \<le> t" "CheckAndRecord now jti' expires g = (r, g')"
  proof -
    from that(1) obtain t' where "(jti, t') \<in> set g" "t \<le> t'" by (auto simp: seenUntil_def)
    with that(2) have t': "(jti, t') \<in> set (filter (\<lambda>(_, t). \<not> t < now) g)" "t \<le> t'" by simp_all
    show ?thesis
    proof (cases "map_of (filter (\<lambda>(_, t). \<not> t < now) g) jti' = None")
      case True
      then have "jti' \<noteq> jti" using t'(1) by (metis map_of_eq_None_iff imageI fst_conv)
      with True t' that(3) show ?thesis
        using update_keeps [OF t'(1), of jti'] by (auto simp: CheckAndRecord_def Let_def seenUntil_def)
    next
      case False
      with t' that(3) show ?thesis by (auto simp: CheckAndRecord_def Let_def seenUntil_def)
    qed
  qed
qed

section \<open>Histories\<close>

text \<open>A call of the validator, with the two readings of the clock it makes: its own, and later the one of its guard, which the guard takes before it waits
  for its lock. Calls are listed in the order in which they hold the lock.\<close>

record dpopCall =
  dcNow :: int
  dcGuardNow :: int
  dcRaw :: string
  dcHTM :: string
  dcHTU :: string
  dcJKT :: string
  dcToken :: string

definition dpopStep :: "('tok, 'key) Jose \<Rightarrow> 'g guard \<Rightarrow> DPoPValidator \<Rightarrow> dpopCall \<Rightarrow> 'g \<Rightarrow> DPoPProof res \<times> 'g" where
  "dpopStep js check v c g =
     validateString js check v (dcNow c) (dcGuardNow c) (dcRaw c) (dcHTM c) (dcHTU c) (dcJKT c) (dcToken c) g"

definition dpopRun :: "('tok, 'key) Jose \<Rightarrow> 'g guard \<Rightarrow> DPoPValidator \<Rightarrow> dpopCall list \<Rightarrow> 'g \<Rightarrow> 'g" where
  "dpopRun js check v cs g = fold (\<lambda>c g. snd (dpopStep js check v c g)) cs g"

context replay_guard
begin

lemma run_keeps:
  "recorded jti t g \<Longrightarrow> \<forall>c \<in> set cs. dcGuardNow c \<le> t \<Longrightarrow> recorded jti t (dpopRun js check v cs g)"
proof (induction cs arbitrary: g)
  case (Cons c cs)
  have "recorded jti t (snd (dpopStep js check v c g))"
    using validate_keeps [OF Cons.prems(1)] Cons.prems(2) by (metis dpopStep_def list.set_intros(1) prod.collapse)
  with Cons show ?case by (simp add: dpopRun_def)
qed (simp add: dpopRun_def)

lemma accepted_once:
  assumes "dcRaw c' = dcRaw c" and "dpopStep js check v c g = (Inr p, g1)" and "t = prIssuedAt p + (maxAge v + skew v)"
    and "(\<forall>d \<in> set (cs @ [c']). dcGuardNow d \<le> t) \<or> t < dcNow c'"
  shows "dpopStep js check v c' (dpopRun js check v cs g1) \<noteq> (Inr p', g2)"
proof
  assume again: "dpopStep js check v c' (dpopRun js check v cs g1) = (Inr p', g2)"
  have rec: "recorded (prJTI p) t g1" using validate_records assms(2,3) unfolding dpopStep_def by blast
  from assms(2) obtain key claims where c: "checkProof js v (dcNow c) (dcRaw c) (dcHTM c) (dcHTU c) (dcToken c) = Inr (key, claims)"
    and p: "prIssuedAt p = time_Unix (clIAT claims)" "prJTI p = clJTI claims"
    unfolding dpopStep_def by (elim validateString_ok) (metis DPoPProof.select_convs(2,6))
  from again obtain key' claims' where c': "checkProof js v (dcNow c') (dcRaw c') (dcHTM c') (dcHTU c') (dcToken c') = Inr (key', claims')"
    and p': "prJTI p' = clJTI claims'"
    unfolding dpopStep_def by (elim validateString_ok) (metis DPoPProof.select_convs(2))
  have same: "claims' = claims" using checkProof_claims [OF c c' [unfolded assms(1)]] by simp
  have "dcNow c' \<le> t" using checkProof_ok(7) [OF c'] same p(1) assms(3) by simp
  with assms(4) have gd: "\<forall>d \<in> set cs. dcGuardNow d \<le> t" "dcGuardNow c' \<le> t" by auto
  from run_keeps [OF rec gd(1)] have "recorded (prJTI p') t (dpopRun js check v cs g1)" using p(2) p' same by simp
  from validate_detects [OF this gd(2)] again show False unfolding dpopStep_def by blast
qed

end

text \<open>
  C16. An accepted proof is bound to its request. Whenever the validator accepts, with whatever replay
  guard, the proof has exactly one header, of type \<open>dpop+jwt\<close>, with a public EC or RSA key under which
  its claims verify; it was made for this method and, up to normalisation, this URI; it carries the hash
  of this access token, or none where none is required; it was issued in the window around the clock;
  the guard found its identifier fresh; and its key has the thumbprint the token is bound to.
\<close>

theorem dpop_sound:
  assumes "validateString js check v now gnow raw htm htu jkt token g = (Inr proof, g')"
  shows "\<exists>tok hdr key claims. parseProof js DPoPSupportedAlgs raw = Inr tok \<and> proofHeaders js tok = [hdr] \<and> hdTyp hdr = Some ''dpop+jwt'' \<and>
     hdKey hdr = Some key \<and> isPublic js key \<and> isEcOrRsa js key \<and> proofClaims js key tok = Inr claims \<and>
     equalFold js (clHTM claims) htm \<and> normalizeDPoPURI js (clHTU claims) = normalizeDPoPURI js htu \<and>
     (token \<noteq> [] \<longrightarrow> clATH claims = tokenHash js token \<or> clATH claims = [] \<and> \<not> requireATH v) \<and>
     now - maxAge v - skew v \<le> prIssuedAt proof \<and> prIssuedAt proof \<le> now + skew v \<and> prIssuedAt proof = time_Unix (clIAT claims) \<and>
     prJTI proof = clJTI claims \<and> prJTI proof \<noteq> [] \<and>
     check gnow (prJTI proof) (prIssuedAt proof + (maxAge v + skew v)) g = (Inr True, g') \<and>
     thumbprint js key = Inr (prJKT proof) \<and> (jkt \<noteq> [] \<longrightarrow> prJKT proof = jkt)"
proof -
  from assms obtain key claims where c: "checkProof js v now raw htm htu token = Inr (key, claims)"
    and k: "check gnow (clJTI claims) (time_Unix (clIAT claims) + (maxAge v + skew v)) g = (Inr True, g')"
    and t: "thumbprint js key = Inr (prJKT proof)" "jkt \<noteq> [] \<Longrightarrow> prJKT proof = jkt"
    and p: "prJTI proof = clJTI claims" "prIssuedAt proof = time_Unix (clIAT claims)"
    by (elim validateString_ok) (metis DPoPProof.select_convs(2,6))
  from checkProof_ok [OF c] k t p show ?thesis by auto
qed

text \<open>
  C13. A proof is accepted once. With the in-memory guard, a proof that was accepted is not accepted again, whatever is validated
  in between: as long as no reading that a guard call took of the clock since, the one of the second validation included, has passed the end of the proof's
  window, it is a replay; and once the validator's own reading has passed this end, it is stale.
\<close>

theorem dpop_no_replay:
  assumes "dcRaw c' = dcRaw c" and "dpopStep js CheckAndRecord v c g = (Inr p, g1)" and "t = prIssuedAt p + (maxAge v + skew v)"
    and "(\<forall>d \<in> set (cs @ [c']). dcGuardNow d \<le> t) \<or> t < dcNow c'"
  shows "dpopStep js CheckAndRecord v c' (dpopRun js CheckAndRecord v cs g1) \<noteq> (Inr p', g2)"
  using assms by (rule memguard.accepted_once)

section \<open>A sample validator\<close>

text \<open>Proofs that are their own identifiers, with one key; plain URIs.\<close>

definition sampleJose :: "(string, string) Jose" where
  "sampleJose =
     \<lparr>parseProof = (\<lambda>_ raw. if raw = [] then Inl (ExternalError STR ''empty'') else Inr raw),
      proofHeaders = (\<lambda>_. [\<lparr>hdTyp = Some ''dpop+jwt'', hdKey = Some ''key''\<rparr>]),
      isPublic = (\<lambda>_. True), isEcOrRsa = (\<lambda>_. True),
      proofClaims = (\<lambda>_ tok. Inr \<lparr>clJTI = tok, clHTM = ''GET'', clHTU = ''https://rs/a'', clATH = [], clIAT = 1000\<rparr>),
      thumbprint = Inr, tokenHash = (\<lambda>t. t), equalFold = asciiFold,
      url_Parse = (\<lambda>s. Inr \<lparr>uScheme = [], uHost = [], uPath = s, uRawQuery = [], uFragment = [], uRest = []\<rparr>),
      url_String = (\<lambda>u. (if uScheme u = [] then [] else uScheme u @ ''://'') @ uHost u @ uPath u)\<rparr>"

definition sampleCall :: "int \<Rightarrow> dpopCall" where
  "sampleCall now = \<lparr>dcNow = now, dcGuardNow = now + 1, dcRaw = ''p1'', dcHTM = ''GET'', dcHTU = ''https://rs/a'', dcJKT = ''key'', dcToken = ''at''\<rparr>"

lemma sampleCall_accepted:
  "map_sum (\<lambda>_. ()) prJTI (fst (dpopStep sampleJose CheckAndRecord (NewDPoPValidator False) (sampleCall (1010 * seconds)) newMemoryReplayGuard)) =
     Inr ''p1''"
  by code_simp

theorem dpop_sound_witness:
  "\<exists>proof g'. dpopStep sampleJose CheckAndRecord (NewDPoPValidator False) (sampleCall (1010 * seconds)) newMemoryReplayGuard = (Inr proof, g') \<and>
     prJKT proof = ''key''"
proof -
  let ?s = "dpopStep sampleJose CheckAndRecord (NewDPoPValidator False) (sampleCall (1010 * seconds)) newMemoryReplayGuard"
  obtain r g' where s: "?s = (r, g')" by fastforce
  with sampleCall_accepted obtain pr where r: "r = Inr pr" by (cases r) auto
  have "dcJKT (sampleCall (1010 * seconds)) = ''key''" by (simp add: sampleCall_def)
  with dpop_sound [OF s [unfolded dpopStep_def r]] s r show ?thesis by auto
qed

theorem dpop_no_replay_witness:
  "\<exists>p g1. dpopStep sampleJose CheckAndRecord (NewDPoPValidator False) (sampleCall (1010 * seconds)) newMemoryReplayGuard = (Inr p, g1) \<and>
     (\<forall>now p' g2. now \<in> {1050 * seconds, 2000 * seconds} \<longrightarrow>
        dpopStep sampleJose CheckAndRecord (NewDPoPValidator False) (sampleCall now) g1 \<noteq> (Inr p', g2))"
proof -
  let ?s = "dpopStep sampleJose CheckAndRecord (NewDPoPValidator False) (sampleCall (1010 * seconds)) newMemoryReplayGuard"
  obtain r g1 where s: "?s = (r, g1)" by fastforce
  have "map_sum (\<lambda>_. ()) prIssuedAt (fst ?s) = Inr (1000 * seconds)" by code_simp
  with s obtain p where r: "r = Inr p" "prIssuedAt p = 1000 * seconds" by (cases r) auto
  have "dpopStep sampleJose CheckAndRecord (NewDPoPValidator False) (sampleCall now) g1 \<noteq> (Inr p', g2)"
    if "now \<in> {1050 * seconds, 2000 * seconds}" for now p' g2
    using dpop_no_replay [OF _ s [unfolded r(1)] refl, of "sampleCall now" "[]"] that r(2)
    by (auto simp: sampleCall_def dpopRun_def NewDPoPValidator_def DefaultDPoPMaxAge_def DefaultDPoPSkew_def seconds_def)
  with s r show ?thesis by blast
qed

text \<open>
  In between the two there is a gap: when the guard's reading has passed the expiry that the
  validator's has not, the entry is evicted first, and the same proof is accepted again.
\<close>

lemma replay_at_expiry:
  "(let v = NewDPoPValidator False; r1 = dpopStep sampleJose CheckAndRecord v (sampleCall (1010 * seconds)) newMemoryReplayGuard;
        r2 = validateString sampleJose CheckAndRecord v (1090 * seconds) (1090 * seconds + 1) ''p1'' ''GET'' ''https://rs/a'' ''key'' ''at'' (snd r1)
    in (map_sum (\<lambda>_. ()) prJTI (fst r1), map_sum (\<lambda>_. ()) prJTI (fst r2))) = (Inr ''p1'', Inr ''p1'')"
  by code_simp

end
