(* ===== verification/Device_Drift.thy ===== *)
theory Device_Drift
  imports Dpop
begin

text \<open>
  Session-device drift detection (\<open>device/drift.go\<close>, \<open>snapshot.go\<close>, \<open>signals.go\<close>): the bounded cache of
  bound devices, the signals of a live request, and the detector that reports each shape of divergence
  once. \<open>strings.ToLower\<close>, \<open>strings.TrimSpace\<close>, \<open>strings.EqualFold\<close> and \<open>net.SplitHostPort\<close> are parameters
  (\<open>asciiStd\<close> is what they do to ASCII text);
  the control plane's answers and the clock readings are arguments.
\<close>

record Std =
  lower :: "string \<Rightarrow> string"
  trim :: "string \<Rightarrow> string"
  foldEq :: "string \<Rightarrow> string \<Rightarrow> bool"
  splitHost :: "string \<Rightarrow> string option"

section \<open>The snapshot cache\<close>

record DeviceSnapshot =
  dsFound :: bool
  dsDeviceId :: string
  dsBrowserFamily :: string

record snapshotEntry =
  seSnap :: DeviceSnapshot
  seFetchedAt :: int

record snapshotCache =
  scTTL :: int
  scNegativeTTL :: int
  scMaxEntries :: int
  scCache :: "(string \<times> snapshotEntry) list"

definition negativeSnapshotTTL :: int where
  "negativeSnapshotTTL = 15 * seconds"

definition newSnapshotCache :: "int \<Rightarrow> int \<Rightarrow> snapshotCache" where
  "newSnapshotCache ttl maxEntries =
     (let ttl1 = (if ttl \<le> 0 then 300 * seconds else ttl);
          max1 = (if maxEntries \<le> 0 then 4096 else maxEntries)
      in \<lparr>scTTL = ttl1, scNegativeTTL = min negativeSnapshotTTL ttl1, scMaxEntries = max1, scCache = []\<rparr>)"

definition entryTTL :: "DeviceSnapshot \<Rightarrow> snapshotCache \<Rightarrow> int" where
  "entryTTL snap c = (if \<not> dsFound snap then scNegativeTTL c else scTTL c)"

definition evictOldestLocked :: "snapshotCache \<Rightarrow> snapshotCache" where
  "evictOldestLocked c =
     (let (oldestKey, _) =
            fold (\<lambda>(k, e) (ok, ot). if ok = [] \<or> seFetchedAt e < ot then (k, seFetchedAt e) else (ok, ot)) (scCache c) ([], zeroTime)
      in if oldestKey \<noteq> [] then c\<lparr>scCache := AList.delete oldestKey (scCache c)\<rparr> else c)"

text \<open>\<open>get\<close>: the lookup at one reading of the clock, and the insertion of the fetched snapshot at another;
  \<open>others\<close> is what other requests did to the cache in between.\<close>

definition insertLocked :: "int \<Rightarrow> string \<Rightarrow> DeviceSnapshot \<Rightarrow> snapshotCache \<Rightarrow> snapshotCache" where
  "insertLocked now key snap c =
     (let c1 = (if int (length (scCache c)) \<ge> scMaxEntries c then evictOldestLocked c else c)
      in c1\<lparr>scCache := AList.update key \<lparr>seSnap = snap, seFetchedAt = now\<rparr> (scCache c1)\<rparr>)"

definition get_Cache ::
    "int \<Rightarrow> (snapshotCache \<Rightarrow> snapshotCache) \<Rightarrow> DeviceSnapshot res \<Rightarrow> int \<Rightarrow> string \<Rightarrow> string \<Rightarrow> snapshotCache \<Rightarrow>
     DeviceSnapshot option \<times> snapshotCache" where
  "get_Cache now others resp now' orgID sessionID c =
     (let key = orgID @ ''|'' @ sessionID;
          hit = (case map_of (scCache c) key of
                   None \<Rightarrow> None
                 | Some e \<Rightarrow> if now - seFetchedAt e < entryTTL (seSnap e) c then Some (seSnap e) else None)
      in case hit of
           Some snap \<Rightarrow> (Some snap, c)
         | None \<Rightarrow>
             (case resp of
                Inl _ \<Rightarrow> (None, others c)
              | Inr snap \<Rightarrow> (Some snap, insertLocked now' key snap (others c))))"

section \<open>Signals\<close>

fun contains :: "string \<Rightarrow> string \<Rightarrow> bool" where
  "contains [] sub = (sub = [])"
| "contains (c # s) sub = (take (length sub) (c # s) = sub \<or> contains s sub)"

definition uaFamily :: "Std \<Rightarrow> string \<Rightarrow> string" where
  "uaFamily std ua =
     (let s = lower std (trim std ua) in
      if s = [] then ''cli''
      else if contains s ''edg/'' \<or> contains s ''edge'' then ''edge''
      else if contains s ''firefox'' then ''firefox''
      else if contains s ''chrome'' \<or> contains s ''chromium'' then ''chrome''
      else if contains s ''safari'' \<and> contains s ''applewebkit'' then ''safari''
      else (let tool = takeWhile (\<lambda>c. c \<noteq> CHR ''/'' \<and> c \<noteq> CHR '' '') s in
            if tool \<noteq> [] \<and> tool \<noteq> s then tool else s))"

definition isBrowserNavigation :: "Std \<Rightarrow> HttpRequest \<Rightarrow> bool" where
  "isBrowserNavigation std r \<longleftrightarrow>
     foldEq std (Header_Get ''Sec-Fetch-Mode'' r) ''navigate'' \<or> foldEq std (Header_Get ''Sec-Fetch-Dest'' r) ''document''"

definition remoteHost :: "Std \<Rightarrow> HttpRequest \<Rightarrow> string" where
  "remoteHost std r = (case splitHost std (hrRemoteAddr r) of None \<Rightarrow> hrRemoteAddr r | Some host \<Rightarrow> host)"

definition clientIP :: "Std \<Rightarrow> HttpRequest \<Rightarrow> string" where
  "clientIP std r =
     (let xff = Header_Get ''X-Forwarded-For'' r; (hop, _, found) = cut CHR '','' xff in
      if xff \<noteq> [] then (if found \<and> hop \<noteq> [] then trim std hop else trim std xff)
      else remoteHost std r)"

section \<open>The detector\<close>

record DriftDetector =
  ddCache :: snapshotCache
  ddMaxSeen :: int
  ddSeen :: "string list"

definition NewDriftDetector :: "int \<Rightarrow> int \<Rightarrow> DriftDetector" where
  "NewDriftDetector snapshotTTL maxSessions =
     (let m = (if maxSessions \<le> 0 then 4096 else maxSessions)
      in \<lparr>ddCache = newSnapshotCache snapshotTTL m, ddMaxSeen = m, ddSeen = []\<rparr>)"

definition markFirst :: "string \<Rightarrow> DriftDetector \<Rightarrow> bool \<times> DriftDetector" where
  "markFirst key d =
     (if key \<in> set (ddSeen d) then (False, d)
      else (let seen = (if int (length (ddSeen d)) \<ge> ddMaxSeen d then [] else ddSeen d)
            in (True, d\<lparr>ddSeen := key # seen\<rparr>)))"

record DivergenceEvent =
  dvOrgId :: string
  dvSessionId :: string
  dvUserId :: string
  dvBoundDeviceId :: string
  dvObservedUserAgent :: string
  dvObservedIp :: string
  dvKind :: string

definition divergence :: "Std \<Rightarrow> DeviceSnapshot \<Rightarrow> HttpRequest \<Rightarrow> string" where
  "divergence std snap r =
     (let family = uaFamily std (Header_Get ''User-Agent'' r);
          hasFingerprint = (Header_Get ''X-Atol-Device-Id'' r \<noteq> [])
      in if dsBrowserFamily snap \<noteq> [] \<and> family \<noteq> dsBrowserFamily snap then ''user_agent''
         else if dsDeviceId snap \<noteq> [] \<and> \<not> hasFingerprint \<and> \<not> isBrowserNavigation std r then ''no_fingerprint''
         else [])"

text \<open>\<open>Inspect\<close>: the kind it returns, and the event it hands to the reporting goroutine.\<close>

definition Inspect ::
    "Std \<Rightarrow> int \<Rightarrow> (snapshotCache \<Rightarrow> snapshotCache) \<Rightarrow> DeviceSnapshot res \<Rightarrow> int \<Rightarrow> string \<Rightarrow> string \<Rightarrow> string \<Rightarrow> HttpRequest \<Rightarrow>
     DriftDetector \<Rightarrow> (string \<times> DivergenceEvent option) \<times> DriftDetector" where
  "Inspect std now others resp now' orgID sessionID userID r d =
     (if sessionID = [] \<or> orgID = [] then (([], None), d)
      else case get_Cache now others resp now' orgID sessionID (ddCache d) of
        (None, c) \<Rightarrow> (([], None), d\<lparr>ddCache := c\<rparr>)
      | (Some snap, c) \<Rightarrow>
          (let d1 = d\<lparr>ddCache := c\<rparr>;
               ua = Header_Get ''User-Agent'' r;
               kind = divergence std snap r
           in if \<not> dsFound snap \<or> kind = [] then (([], None), d1)
              else case markFirst (orgID @ ''|'' @ sessionID @ ''|'' @ kind @ ''|'' @ uaFamily std ua) d1 of
                (False, d2) \<Rightarrow> ((kind, None), d2)
              | (True, d2) \<Rightarrow>
                  ((kind, Some \<lparr>dvOrgId = orgID, dvSessionId = sessionID, dvUserId = userID, dvBoundDeviceId = dsDeviceId snap,
                                dvObservedUserAgent = ua, dvObservedIp = clientIP std r, dvKind = kind\<rparr>), d2)))"

section \<open>Bounds\<close>

definition cache_bounded :: "snapshotCache \<Rightarrow> bool" where
  "cache_bounded c \<longleftrightarrow> 0 < scMaxEntries c \<and> int (length (scCache c)) \<le> scMaxEntries c \<and> go_map (scCache c) \<and>
     (\<forall>p \<in> set (scCache c). fst p \<noteq> [])"

definition drift_bounded :: "DriftDetector \<Rightarrow> bool" where
  "drift_bounded d \<longleftrightarrow> cache_bounded (ddCache d) \<and> 0 < ddMaxSeen d \<and> int (length (ddSeen d)) \<le> ddMaxSeen d \<and> distinct (ddSeen d)"

text \<open>What other requests do to the cache: insertions.\<close>

definition insertions :: "(int \<times> string \<times> DeviceSnapshot) list \<Rightarrow> snapshotCache \<Rightarrow> snapshotCache" where
  "insertions xs = fold (\<lambda>(now, key, snap). insertLocked now key snap) xs"

lemma oldest_in:
  assumes "\<forall>p \<in> set m. fst p \<noteq> []" and "ok \<noteq> [] \<or> m \<noteq> []"
  shows "fst (fold (\<lambda>(k, e) (ok, ot). if ok = [] \<or> seFetchedAt e < ot then (k, seFetchedAt e) else (ok, ot)) m (ok, ot)) \<in>
    (if ok = [] then {} else {ok}) \<union> fst ` set m"
  using assms
proof (induction m arbitrary: ok ot)
  case (Cons p m)
  obtain k e where p: "p = (k, e)" by (cases p)
  have k: "k \<noteq> []" using Cons.prems(1) p by simp
  show ?case
  proof (cases "ok = [] \<or> seFetchedAt e < ot")
    case True
    with Cons.IH [of k "seFetchedAt e"] Cons.prems(1) k p show ?thesis by auto
  next
    case False
    with Cons.IH [of ok ot] Cons.prems(1) p show ?thesis by auto
  qed
qed auto

lemma length_delete: "go_map m \<Longrightarrow> k \<in> fst ` set m \<Longrightarrow> Suc (length (AList.delete k m)) = length m"
proof (induction m)
  case (Cons p m)
  obtain a b where p: "p = (a, b)" by (cases p)
  show ?case
  proof (cases "a = k")
    case True
    with Cons.prems p have "k \<notin> fst ` set m" by auto
    then have "AList.delete k m = m" by (simp add: AList.delete_idem)
    with True p show ?thesis by simp
  next
    case False
    with Cons p show ?thesis by auto
  qed
qed simp

lemma evict_shrinks:
  assumes "cache_bounded c" and "scCache c \<noteq> []"
  shows "\<exists>k. evictOldestLocked c = c\<lparr>scCache := AList.delete k (scCache c)\<rparr> \<and> Suc (length (AList.delete k (scCache c))) = length (scCache c)"
proof -
  let ?f = "fold (\<lambda>(k, e) (ok, ot). if ok = [] \<or> seFetchedAt e < ot then (k, seFetchedAt e) else (ok, ot)) (scCache c) ([], zeroTime)"
  have ne: "\<forall>p \<in> set (scCache c). fst p \<noteq> []" using assms(1) by (simp add: cache_bounded_def)
  have "fst ?f \<in> fst ` set (scCache c)" using oldest_in [OF ne, of "[]"] assms(2) by simp
  moreover from this ne have "fst ?f \<noteq> []" by auto
  ultimately show ?thesis
    using length_delete [of "scCache c" "fst ?f"] assms(1)
    by (intro exI [of _ "fst ?f"]) (auto simp: evictOldestLocked_def cache_bounded_def split: prod.split)
qed

lemma length_update_le: "length (AList.update k v m) \<le> Suc (length m)"
  by (induction m) auto

lemma insertLocked_bounded:
  assumes "cache_bounded c" and "key \<noteq> []"
  shows "cache_bounded (insertLocked now key snap c)"
proof -
  define c1 where "c1 = (if int (length (scCache c)) \<ge> scMaxEntries c then evictOldestLocked c else c)"
  have "0 < scMaxEntries c" using assms(1) by (simp add: cache_bounded_def)
  have "scMaxEntries c1 = scMaxEntries c \<and> int (length (scCache c1)) < scMaxEntries c \<and> go_map (scCache c1) \<and> (\<forall>p \<in> set (scCache c1). fst p \<noteq> [])"
  proof (cases "int (length (scCache c)) \<ge> scMaxEntries c")
    case True
    with \<open>0 < scMaxEntries c\<close> have "scCache c \<noteq> []" by auto
    from evict_shrinks [OF assms(1) this] obtain k where
      "c1 = c\<lparr>scCache := AList.delete k (scCache c)\<rparr>" "Suc (length (AList.delete k (scCache c))) = length (scCache c)"
      using True by (auto simp: c1_def)
    with assms(1) show ?thesis by (auto simp: cache_bounded_def set_delete_go)
  next
    case False
    with assms(1) show ?thesis by (simp add: c1_def cache_bounded_def)
  qed
  moreover from this length_update_le [of key "\<lparr>seSnap = snap, seFetchedAt = now\<rparr>" "scCache c1"]
  have "int (length (AList.update key \<lparr>seSnap = snap, seFetchedAt = now\<rparr> (scCache c1))) \<le> scMaxEntries c" by linarith
  ultimately show ?thesis
    using assms unfolding insertLocked_def c1_def [symmetric] Let_def
    by (auto simp: cache_bounded_def set_update_go)
qed

lemma insertions_bounded:
  "cache_bounded c \<Longrightarrow> \<forall>(now, key, snap) \<in> set xs. key \<noteq> [] \<Longrightarrow> cache_bounded (insertions xs c)"
  by (induction xs arbitrary: c) (auto simp: insertions_def insertLocked_bounded)

text \<open>
  Drift detection stays bounded and reports each shape once. Whatever requests arrive, also
  between the lookup and the insertion of another one, the snapshot cache and the set of reported shapes
  never exceed their limits; a request is flagged only when its signals diverge from a device found
  bound to its session; and an event goes out only for a shape not yet in the set, which
  then holds it.
\<close>

theorem drift_reports:
  assumes "drift_bounded d" and "\<forall>(now, key, snap) \<in> set xs. key \<noteq> []"
    and "Inspect std now (insertions xs) resp now' orgID sessionID userID r d = ((kind, ev), d')"
  shows "drift_bounded d' \<and>
    (kind \<noteq> [] \<longrightarrow> (\<exists>snap. dsFound snap \<and> kind = divergence std snap r) \<and>
       orgID @ ''|'' @ sessionID @ ''|'' @ kind @ ''|'' @ uaFamily std (Header_Get ''User-Agent'' r) \<in> set (ddSeen d')) \<and>
    (\<forall>e. ev = Some e \<longrightarrow> dvKind e = kind \<and> kind \<noteq> [] \<and>
       orgID @ ''|'' @ sessionID @ ''|'' @ kind @ ''|'' @ uaFamily std (Header_Get ''User-Agent'' r) \<notin> set (ddSeen d))"
proof (cases "sessionID = [] \<or> orgID = []")
  case True
  with assms(1,3) show ?thesis by (auto simp: Inspect_def)
next
  case False
  obtain so c where g: "get_Cache now (insertions xs) resp now' orgID sessionID (ddCache d) = (so, c)" by fastforce
  have "cache_bounded (ddCache d)" using assms(1) by (simp add: drift_bounded_def)
  with insertions_bounded [OF this assms(2)] g have c: "cache_bounded c"
    by (auto simp: get_Cache_def Let_def insertLocked_bounded split: option.splits sum.splits)
  define key where "key = (\<lambda>kind. orgID @ ''|'' @ sessionID @ ''|'' @ kind @ ''|'' @ uaFamily std (Header_Get ''User-Agent'' r))"
  have d1: "drift_bounded (d\<lparr>ddCache := c\<rparr>)" using assms(1) c by (simp add: drift_bounded_def)
  have mk: "drift_bounded d2 \<and> k \<in> set (ddSeen d2) \<and> (b \<longrightarrow> k \<notin> set (ddSeen d))"
    if "markFirst k (d\<lparr>ddCache := c\<rparr>) = (b, d2)" for k b d2
    using that d1 by (auto simp: markFirst_def drift_bounded_def Let_def Suc_le_eq split: if_splits)
  show ?thesis
  proof (cases so)
    case None
    with assms(3) False g d1 show ?thesis by (auto simp: Inspect_def)
  next
    case (Some snap)
    obtain b d2 where m: "markFirst (key (divergence std snap r)) (d\<lparr>ddCache := c\<rparr>) = (b, d2)" by fastforce
    with assms(3) False g Some d1 mk [OF m] show ?thesis
      by (cases b) (auto simp: Inspect_def Let_def key_def split: if_splits)
  qed
qed

section \<open>A sample request\<close>

text \<open>The standard library on ASCII text.\<close>

definition asciiStd :: Std where
  "asciiStd = \<lparr>lower = asciiLower, trim = asciiTrim, foldEq = asciiFold, splitHost = map_option fst \<circ> SplitHostPort\<rparr>"

definition curlRequest :: HttpRequest where
  "curlRequest = \<lparr>hrMethod = ''GET'', hrHost = ''rs'', hrPath = ''/'', hrTLS = True,
     hrHeaders = [(''User-Agent'', ''curl/8.7.1'')], hrRemoteAddr = ''10.0.0.1:9''\<rparr>"

theorem drift_reports_witness:
  "\<exists>kind ev d'. Inspect asciiStd 0 (insertions []) (Inr \<lparr>dsFound = True, dsDeviceId = ''dev'', dsBrowserFamily = ''chrome''\<rparr>) 1
     ''acme'' ''s1'' ''ann'' curlRequest (NewDriftDetector 0 1) = ((kind, Some ev), d') \<and> drift_bounded d' \<and> dvKind ev = ''user_agent''"
proof -
  let ?i = "Inspect asciiStd 0 (insertions []) (Inr \<lparr>dsFound = True, dsDeviceId = ''dev'', dsBrowserFamily = ''chrome''\<rparr>) 1
     ''acme'' ''s1'' ''ann'' curlRequest (NewDriftDetector 0 1)"
  have "map_option dvKind (snd (fst ?i)) = Some ''user_agent''" by code_simp
  then obtain kind ev d' where i: "?i = ((kind, Some ev), d')" and e: "dvKind ev = ''user_agent''"
    by (cases ?i; cases "snd (fst ?i)") auto
  have "drift_bounded (NewDriftDetector 0 1)"
    by (simp add: NewDriftDetector_def newSnapshotCache_def drift_bounded_def cache_bounded_def Let_def)
  from drift_reports [OF this _ i] i e show ?thesis by simp
qed

end
