(* ===== verification/Jwks.thy ===== *)
theory Jwks
  imports Serving_Gate
begin

text \<open>
  The key-set cache of the token validator (\<open>identity/jwks.go\<close>): cached lookups with a time to live,
  and the forced refresh on an unknown key identifier, which is paced and shared between callers.

  The fetcher is shared by all requests under its mutex, so a history is a sequence of critical
  sections: a refresh after the time to live, or one round of a forced refresh. The endpoint's answer
  is an argument. Go compares key sets by pointer; here every fetch gives its set a new number.
\<close>

section \<open>State\<close>

record 'ks Fetcher =
  jKeys :: "(nat \<times> 'ks) option"
  jFetches :: nat
  jFetchedAt :: int
  jTTL :: int
  jForcedAt :: int
  jMinForce :: int

definition NewJWKSFetcher :: "'ks Fetcher" where
  "NewJWKSFetcher =
     \<lparr>jKeys = None, jFetches = 0, jFetchedAt = zeroTime, jTTL = 300 * seconds, jForcedAt = zeroTime, jMinForce = seconds\<rparr>"

text \<open>What one HTTP fetch meets.\<close>

datatype 'ks fetchAnswer =
    BadRequest goerror
  | Unreachable goerror
  | BadStatus
  | Undecodable goerror
  | Fetched 'ks

definition fetchLocked :: "string \<Rightarrow> int \<Rightarrow> 'ks fetchAnswer \<Rightarrow> 'ks Fetcher \<Rightarrow> (nat \<times> 'ks) res \<times> 'ks Fetcher" where
  "fetchLocked url now answer f =
     (case answer of
        BadRequest err \<Rightarrow> (Inl (Wrapf STR ''creating JWKS request: %w'' [] err), f)
      | Unreachable err \<Rightarrow> (Inl (Wrapf STR ''fetching JWKS from %s: %w'' [url] err), f)
      | BadStatus \<Rightarrow> (Inl (Errorf STR ''JWKS endpoint %s returned status %d: %s'' [url]), f)
      | Undecodable err \<Rightarrow> (Inl (Wrapf STR ''decoding JWKS response from %s: %w'' [url] err), f)
      | Fetched ks \<Rightarrow>
          (let n = Suc (jFetches f) in
           (Inr (n, ks), f\<lparr>jKeys := Some (n, ks), jFetches := n, jFetchedAt := now\<rparr>)))"

definition cached :: "int \<Rightarrow> 'ks Fetcher \<Rightarrow> (nat \<times> 'ks) option" where
  "cached now f = (case jKeys f of None \<Rightarrow> None | Some k \<Rightarrow> if now - jFetchedAt f < jTTL f then Some k else None)"

definition refresh_Jwks :: "string \<Rightarrow> int \<Rightarrow> int \<Rightarrow> 'ks fetchAnswer \<Rightarrow> 'ks Fetcher \<Rightarrow> (nat \<times> 'ks) res \<times> 'ks Fetcher" where
  "refresh_Jwks url now fetchedNow answer f =
     (case cached now f of Some k \<Rightarrow> (Inr k, f) | None \<Rightarrow> fetchLocked url fetchedNow answer f)"

text \<open>\<open>GetKeys\<close>: the reading lookup, then the refresh, before which others may have changed the fetcher
  into \<open>f'\<close>.\<close>

definition GetKeys ::
    "string \<Rightarrow> int \<Rightarrow> ('ks Fetcher \<Rightarrow> 'ks Fetcher) \<Rightarrow> int \<Rightarrow> int \<Rightarrow> 'ks fetchAnswer \<Rightarrow> 'ks Fetcher \<Rightarrow> (nat \<times> 'ks) res \<times> 'ks Fetcher" where
  "GetKeys url readNow others now fetchedNow answer f =
     (case cached readNow f of Some k \<Rightarrow> (Inr k, f) | None \<Rightarrow> refresh_Jwks url now fetchedNow answer (others f))"

text \<open>One round of \<open>forceRefresh\<close>: it returns the current set, fetches at a time, or waits. \<open>keyOf\<close> is \<open>JSONWebKeySet.Key\<close>. The key set a caller
  has seen is never taken away again, so the branch without one, where Go would meet a nil
  pointer, is not reached.\<close>

datatype 'ks forceResult =
    Returns "(nat \<times> 'ks) res" "'ks Fetcher"
  | Refetches int "(nat \<times> 'ks) res" "'ks Fetcher"
  | Waits int

definition forceRound ::
    "('ks \<Rightarrow> string \<Rightarrow> 'key list) \<Rightarrow> string \<Rightarrow> string \<Rightarrow> nat \<Rightarrow> int \<Rightarrow> int \<Rightarrow> int \<Rightarrow> 'ks fetchAnswer \<Rightarrow> 'ks Fetcher \<Rightarrow>
     'ks forceResult" where
  "forceRound keyOf url kid seen sinceNow forcedNow fetchedNow answer f =
     (case jKeys f of
        Some (n, ks) \<Rightarrow>
          if n \<noteq> seen then Returns (Inr (n, ks)) f
          else if keyOf ks kid \<noteq> [] then Returns (Inr (n, ks)) f
          else (let wait = jMinForce f - (sinceNow - jForcedAt f) in
                if jForcedAt f = zeroTime \<or> wait \<le> 0
                then (case fetchLocked url fetchedNow answer (f\<lparr>jForcedAt := forcedNow\<rparr>) of (r, f') \<Rightarrow> Refetches forcedNow r f')
                else Waits wait)
      | None \<Rightarrow> Returns (Inl (Errorf STR ''nil key set'' [])) f)"

text \<open>A round as it is met: what others did to the fetcher before it, its clock readings, the endpoint's
  answer, and, when it waits, whether the context ends first.\<close>

record 'ks roundIn =
  rnOthers :: "'ks Fetcher \<Rightarrow> 'ks Fetcher"
  rnSince :: int
  rnForced :: int
  rnFetched :: int
  rnAnswer :: "'ks fetchAnswer"
  rnCancelled :: "goerror option"

text \<open>\<open>None\<close> when the given rounds all wait.\<close>

fun forceRefresh ::
    "('ks \<Rightarrow> string \<Rightarrow> 'key list) \<Rightarrow> string \<Rightarrow> string \<Rightarrow> nat \<Rightarrow> 'ks roundIn list \<Rightarrow> 'ks Fetcher \<Rightarrow>
     ((nat \<times> 'ks) res \<times> 'ks Fetcher) option" where
  "forceRefresh keyOf url kid seen [] f = None"
| "forceRefresh keyOf url kid seen (i # is) f =
     (let f0 = rnOthers i f in
      case forceRound keyOf url kid seen (rnSince i) (rnForced i) (rnFetched i) (rnAnswer i) f0 of
        Returns r f' \<Rightarrow> Some (r, f')
      | Refetches _ r f' \<Rightarrow> Some (r, f')
      | Waits _ \<Rightarrow>
          (case rnCancelled i of
             Some err \<Rightarrow> Some (Inl err, f0)
           | None \<Rightarrow> forceRefresh keyOf url kid seen is f0))"

definition FindKey ::
    "('ks \<Rightarrow> string \<Rightarrow> 'key list) \<Rightarrow> string \<Rightarrow> string \<Rightarrow> int \<Rightarrow> 'ks roundIn \<Rightarrow> 'ks roundIn list \<Rightarrow> 'ks Fetcher \<Rightarrow>
     ('key list res \<times> 'ks Fetcher) option" where
  "FindKey keyOf url kid readNow g is f =
     (case GetKeys url readNow (rnOthers g) (rnSince g) (rnFetched g) (rnAnswer g) f of
        (Inl err, f1) \<Rightarrow> Some (Inl err, f1)
      | (Inr (n, ks), f1) \<Rightarrow>
          if keyOf ks kid \<noteq> [] then Some (Inr (keyOf ks kid), f1)
          else (case forceRefresh keyOf url kid n is f1 of
                  None \<Rightarrow> None
                | Some (Inl err, f2) \<Rightarrow> Some (Inl err, f2)
                | Some (Inr (_, ks'), f2) \<Rightarrow> Some (Inr (keyOf ks' kid), f2)))"

section \<open>Histories\<close>

text \<open>A critical section of some caller, with its clock readings in the order they are made.\<close>

datatype 'ks jwksOp =
    RefreshOp int int "'ks fetchAnswer"
  | ForceOp string nat int int int "'ks fetchAnswer"

text \<open>A step yields the time of the forced fetch it makes, if it makes one.\<close>

fun jwksStep ::
    "('ks \<Rightarrow> string \<Rightarrow> 'key list) \<Rightarrow> string \<Rightarrow> 'ks jwksOp \<Rightarrow> 'ks Fetcher \<Rightarrow> int list \<times> 'ks Fetcher" where
  "jwksStep keyOf url (RefreshOp now fetched answer) f = ([], snd (refresh_Jwks url now fetched answer f))"
| "jwksStep keyOf url (ForceOp kid seen since forced fetched answer) f =
     (case forceRound keyOf url kid seen since forced fetched answer f of
        Returns _ f' \<Rightarrow> ([], f')
      | Refetches t _ f' \<Rightarrow> ([t], f')
      | Waits _ \<Rightarrow> ([], f))"

fun jwksRun :: "('ks \<Rightarrow> string \<Rightarrow> 'key list) \<Rightarrow> string \<Rightarrow> 'ks jwksOp list \<Rightarrow> 'ks Fetcher \<Rightarrow> int list \<times> 'ks Fetcher" where
  "jwksRun keyOf url [] f = ([], f)"
| "jwksRun keyOf url (op # ops) f =
     (case jwksStep keyOf url op f of (ts, f1) \<Rightarrow> (case jwksRun keyOf url ops f1 of (ts', f2) \<Rightarrow> (ts @ ts', f2)))"

lemma fetchLocked_frame:
  "fetchLocked url now answer f = (r, f') \<Longrightarrow> jForcedAt f' = jForcedAt f \<and> jMinForce f' = jMinForce f \<and> jFetches f \<le> jFetches f' \<and>
     (\<forall>k. r = Inr k \<longrightarrow> jKeys f' = Some k \<and> fst k = Suc (jFetches f))"
  by (auto simp: fetchLocked_def Let_def split: fetchAnswer.splits)

text \<open>When a round may fetch.\<close>

definition mayForce :: "('ks \<Rightarrow> string \<Rightarrow> 'key list) \<Rightarrow> string \<Rightarrow> nat \<Rightarrow> int \<Rightarrow> 'ks Fetcher \<Rightarrow> bool" where
  "mayForce keyOf kid seen since f \<longleftrightarrow>
     (case jKeys f of
        None \<Rightarrow> False
      | Some (n, ks) \<Rightarrow> n = seen \<and> keyOf ks kid = [] \<and> (jForcedAt f = zeroTime \<or> jMinForce f - (since - jForcedAt f) \<le> 0))"

text \<open>Outside its condition a round changes nothing; under it, it fetches with \<open>forcedAt\<close> moved first.\<close>

lemma forceRound_cases:
  obtains (fetch) r f' where "mayForce keyOf kid seen since f"
      "fetchLocked url fetched answer (f\<lparr>jForcedAt := forced\<rparr>) = (r, f')"
      "forceRound keyOf url kid seen since forced fetched answer f = Refetches forced r f'"
  | (reuse) n ks where "\<not> mayForce keyOf kid seen since f" "jKeys f = Some (n, ks)" "n \<noteq> seen \<or> keyOf ks kid \<noteq> []"
      "forceRound keyOf url kid seen since forced fetched answer f = Returns (Inr (n, ks)) f"
  | (missing) "\<not> mayForce keyOf kid seen since f" "jKeys f = None"
      "\<exists>err. forceRound keyOf url kid seen since forced fetched answer f = Returns (Inl err) f"
  | (wait) w where "\<not> mayForce keyOf kid seen since f" "0 < w" "w \<le> jMinForce f - (since - jForcedAt f)"
      "forceRound keyOf url kid seen since forced fetched answer f = Waits w"
proof (cases "jKeys f")
  case None
  then show thesis by (intro missing) (auto simp: mayForce_def forceRound_def)
next
  case (Some k)
  obtain n ks where k: "k = (n, ks)" by (cases k)
  consider "n \<noteq> seen \<or> keyOf ks kid \<noteq> []" | "n = seen" "keyOf ks kid = []" by blast
  then show thesis
  proof cases
    case 1
    with Some k show thesis by (intro reuse [of n ks]) (auto simp: mayForce_def forceRound_def)
  next
    case 2
    show thesis
    proof (cases "mayForce keyOf kid seen since f")
      case True
      obtain r f' where "fetchLocked url fetched answer (f\<lparr>jForcedAt := forced\<rparr>) = (r, f')" by fastforce
      with True 2 Some k show thesis by (intro fetch) (auto simp: mayForce_def forceRound_def Let_def)
    next
      case False
      with 2 Some k show thesis
        by (intro wait [of "jMinForce f - (since - jForcedAt f)"]) (auto simp: mayForce_def forceRound_def Let_def)
    qed
  qed
qed

definition forces_after :: "int \<Rightarrow> 'ks Fetcher \<Rightarrow> int list \<Rightarrow> bool" where
  "forces_after m f ts \<longleftrightarrow>
     sorted_wrt (\<lambda>a b. a + m \<le> b) ts \<and> (jForcedAt f \<noteq> zeroTime \<longrightarrow> (\<forall>t \<in> set ts. jForcedAt f + m \<le> t))"

lemma jwksRun_paced:
  assumes "\<forall>op \<in> set ops. \<forall>kid seen since forced fetched answer.
      op = ForceOp kid seen since forced fetched answer \<longrightarrow> since \<le> forced \<and> zeroTime < forced"
    and "jMinForce f = m" and "0 \<le> m"
  shows "forces_after m f (fst (jwksRun keyOf url ops f))"
  using assms
proof (induction ops arbitrary: f)
  case (Cons op ops)
  obtain ts f1 where st: "jwksStep keyOf url op f = (ts, f1)" by fastforce
  have run: "fst (jwksRun keyOf url (op # ops) f) = ts @ fst (jwksRun keyOf url ops f1)" using st by (simp split: prod.split)
  have ih: "forces_after m f1 (fst (jwksRun keyOf url ops f1))" if "jMinForce f1 = m"
    using Cons.IH [OF _ that Cons.prems(3)] Cons.prems(1) by simp
  show ?case
  proof (cases op)
    case (RefreshOp now fetched answer)
    then have "ts = []" "jForcedAt f1 = jForcedAt f" "jMinForce f1 = m"
      using st Cons.prems(2) using fetchLocked_frame [OF surjective_pairing, of url fetched answer f] by (auto simp: refresh_Jwks_def split: option.splits)
    with ih run show ?thesis by (simp add: forces_after_def)
  next
    case (ForceOp kid seen since forced fetched answer)
    then have le: "since \<le> forced" "zeroTime < forced" using Cons.prems(1) by simp_all
    show ?thesis
    proof (cases rule: forceRound_cases [of keyOf kid seen since f url fetched answer forced])
      case (fetch r f')
      then have f1: "ts = [forced]" "f1 = f'" using st ForceOp by auto
      have fr: "jForcedAt f' = forced" "jMinForce f' = m" using fetchLocked_frame [OF fetch(2)] Cons.prems(2) by simp_all
      have "jForcedAt f \<noteq> zeroTime \<longrightarrow> jForcedAt f + m \<le> forced"
        using fetch(1) le(1) Cons.prems(2) by (auto simp: mayForce_def split: option.splits)
      with ih fr f1 run le(2) Cons.prems(3) show ?thesis by (fastforce simp: forces_after_def)
    qed (use st ForceOp ih run Cons.prems(2) in \<open>auto simp: forces_after_def\<close>)
  qed
qed (simp add: forces_after_def)

text \<open>
  C34. Unknown key identifiers cannot stampede the issuer. Whatever callers ask for, in any
  interleaving of their critical sections, and whatever the endpoint answers, two forced fetches
  of the key set are at least a second apart.
\<close>

theorem jwks_paced:
  assumes "\<forall>op \<in> set ops. \<forall>kid seen since forced fetched answer.
      op = ForceOp kid seen since forced fetched answer \<longrightarrow> since \<le> forced \<and> zeroTime < forced"
    and "jwksRun keyOf url ops NewJWKSFetcher = (ts, f)"
  shows "sorted_wrt (\<lambda>a b. a + seconds \<le> b) ts"
  using jwksRun_paced [OF assms(1), of NewJWKSFetcher seconds keyOf url] assms(2)
  by (simp add: forces_after_def NewJWKSFetcher_def seconds_def)

definition sampleKeyOf :: "string list \<Rightarrow> string \<Rightarrow> string list" where
  "sampleKeyOf ks kid = filter (\<lambda>k. k = kid) ks"

definition sampleJwksOps :: "string list jwksOp list" where
  "sampleJwksOps =
     [RefreshOp 0 0 (Fetched [''k1'']), ForceOp ''k2'' 1 seconds seconds seconds (Fetched [''k1'']),
      ForceOp ''k2'' 2 (seconds + 5) (seconds + 5) (seconds + 5) (Fetched [''k2'']),
      ForceOp ''k2'' 2 (2 * seconds) (2 * seconds) (2 * seconds) (Fetched [''k2''])]"

theorem jwks_paced_witness:
  "fst (jwksRun sampleKeyOf ''u'' sampleJwksOps NewJWKSFetcher) = [seconds, 2 * seconds] \<and>
   sorted_wrt (\<lambda>a b. a + seconds \<le> b) (fst (jwksRun sampleKeyOf ''u'' sampleJwksOps NewJWKSFetcher))"
proof -
  have "fst (jwksRun sampleKeyOf ''u'' sampleJwksOps NewJWKSFetcher) = [seconds, 2 * seconds]" by code_simp
  moreover have "\<forall>op \<in> set sampleJwksOps. \<forall>kid seen since forced fetched answer.
      op = ForceOp kid seen since forced fetched answer \<longrightarrow> since \<le> forced \<and> zeroTime < forced"
    by (simp add: sampleJwksOps_def zeroTime_def seconds_def)
  from jwks_paced [OF this] have "sorted_wrt (\<lambda>a b. a + seconds \<le> b) (fst (jwksRun sampleKeyOf ''u'' sampleJwksOps NewJWKSFetcher))"
    by (metis prod.collapse)
  ultimately show ?thesis by blast
qed

section \<open>A miss is never stale\<close>

definition numbered :: "'ks Fetcher \<Rightarrow> bool" where
  "numbered f \<longleftrightarrow> (\<forall>n ks. jKeys f = Some (n, ks) \<longrightarrow> n \<le> jFetches f)"

lemma forceRefresh_result:
  assumes "forceRefresh keyOf url kid seen is f = Some (Inr (n', ks'), f2)" and "numbered f"
    and "\<forall>i \<in> set is. \<forall>g. numbered g \<longrightarrow> numbered (rnOthers i g)"
  shows "n' \<noteq> seen \<or> keyOf ks' kid \<noteq> []"
  using assms
proof (induction keyOf url kid seen "is" f rule: forceRefresh.induct)
  case (2 keyOf url kid seen i "is" f)
  have num: "numbered (rnOthers i f)" using 2(3,4) by simp
  show ?case
  proof (cases rule: forceRound_cases [of keyOf kid seen "rnSince i" "rnOthers i f" url "rnFetched i" "rnAnswer i" "rnForced i"])
    case (fetch r f')
    with 2(2) have "r = Inr (n', ks')" by (simp add: Let_def)
    with fetchLocked_frame [OF fetch(2)] have "n' = Suc (jFetches (rnOthers i f))" by simp
    moreover have "seen \<le> jFetches (rnOthers i f)"
      using fetch(1) num by (auto simp: mayForce_def numbered_def split: option.splits)
    ultimately show ?thesis by simp
  next
    case (reuse n ks)
    with 2(2) show ?thesis by (auto simp: Let_def)
  next
    case missing
    with 2(2) show ?thesis by (auto simp: Let_def)
  next
    case (wait w)
    with 2(2) have "rnCancelled i = None" "forceRefresh keyOf url kid seen is (rnOthers i f) = Some (Inr (n', ks'), f2)"
      by (auto simp: Let_def split: option.splits)
    with 2(1) [OF refl wait(4)] num 2(4) show ?thesis by simp
  qed
qed simp

text \<open>
  A lookup that ends without a key has seen a set fetched after the one its first look missed in:
  a stale cache is never taken as proof that a key identifier is unknown.
\<close>

lemma FindKey_miss_refetched:
  assumes "FindKey keyOf url kid readNow g is f = Some (Inr [], f')" and "numbered f"
    and "\<forall>i \<in> set (g # is). \<forall>h. numbered h \<longrightarrow> numbered (rnOthers i h)"
  shows "\<exists>n ks f1 n' ks'. GetKeys url readNow (rnOthers g) (rnSince g) (rnFetched g) (rnAnswer g) f = (Inr (n, ks), f1) \<and>
    forceRefresh keyOf url kid n is f1 = Some (Inr (n', ks'), f') \<and> n' \<noteq> n"
proof -
  obtain n ks f1 where k: "GetKeys url readNow (rnOthers g) (rnSince g) (rnFetched g) (rnAnswer g) f = (Inr (n, ks), f1)"
    and r: "keyOf ks kid = []"
    using assms(1) by (auto simp: FindKey_def split: prod.splits sum.splits if_splits)
  from assms(1) k r obtain n' ks' where fr: "forceRefresh keyOf url kid n is f1 = Some (Inr (n', ks'), f')" and m: "keyOf ks' kid = []"
    by (auto simp: FindKey_def split: option.splits prod.splits sum.splits)
  have "numbered (rnOthers g f)" using assms(2,3) by simp
  then have "numbered f1"
    using k assms(2) by (auto simp: GetKeys_def refresh_Jwks_def fetchLocked_def numbered_def Let_def
        split: option.splits fetchAnswer.splits)
  from forceRefresh_result [OF fr this] assms(3) m have "n' \<noteq> n" by simp
  with k fr show ?thesis by blast
qed

end
