(* ===== verification/Auth_Middleware.thy ===== *)
theory Auth_Middleware
  imports Atol_Sdk Device_Drift Jwks
begin

text \<open>
  Authentication of requests: the token validator (\<open>auth.go\<close>), the revocation list
  (\<open>session_validator.go\<close>) and the three middlewares (\<open>middleware/http.go\<close>, \<open>connect.go\<close>, \<open>grpc.go\<close>).

  The JOSE library is the parameter \<open>TokenLib\<close>, with \<open>ValidateWithLeeway\<close> of its claims. The key lookup is
  the fetcher's \<open>FindKey\<close>, on its state; a lookup that is still waiting is \<open>None\<close>. What a request meets
  outside, the clock readings and answers of the control plane, is \<open>RequestWorld\<close>.
\<close>

section \<open>Tokens\<close>

record AtolClaims =
  cOrgID :: string
  cPlan :: string
  cRoles :: "string list option"
  cAuthMethod :: string
  cMFAVerified :: bool
  cEmailVerified :: bool
  cTrustDomain :: string
  cAuthTime :: int
  cIdentityID :: string
  cIdentityScheme :: string
  cWrappedDEK :: string
  cCnf :: "string option"

text \<open>The registered claims; dates are Unix seconds.\<close>

record stdClaims =
  sdSubject :: string
  sdID :: string
  sdIssuer :: string
  sdAudience :: "string list"
  sdExpiry :: "int option"
  sdNotBefore :: "int option"
  sdIssuedAt :: "int option"

record tokenHeader =
  thKeyID :: string
  thTyp :: "string option"

record ('tok, 'key) TokenLib =
  parseToken :: "string list \<Rightarrow> string \<Rightarrow> 'tok res"
  tokenHeaders :: "'tok \<Rightarrow> tokenHeader list"
  tokenClaims :: "'key \<Rightarrow> 'tok \<Rightarrow> (stdClaims \<times> AtolClaims) res"
  validateWithLeeway :: "stdClaims \<Rightarrow> string \<Rightarrow> string option \<Rightarrow> int \<Rightarrow> int \<Rightarrow> goerror option"

record TokenValidator =
  tvIssuer :: string
  tvAudience :: string
  tvRequiredType :: string

definition tokenValidationLeeway :: int where
  "tokenValidationLeeway = 30 * seconds"

definition principalOf :: "stdClaims \<Rightarrow> AtolClaims \<Rightarrow> Principal" where
  "principalOf std custom =
     \<lparr>pUserID = sdSubject std, pIdentityID = cIdentityID custom, pOrgID = cOrgID custom, pEmail = [],
      pEmailVerified = cEmailVerified custom, pAuthMethod = cAuthMethod custom, pRoles = cRoles custom, pPlan = cPlan custom,
      pMFAVerified = cMFAVerified custom, pTrustDomain = cTrustDomain custom,
      pAuthTime = (if cAuthTime custom > 0 then time_Unix (cAuthTime custom) else zeroTime), pClientIP = []\<rparr>"

definition identityOf :: "AtolClaims \<Rightarrow> Identity" where
  "identityOf custom = \<lparr>idID = cIdentityID custom, idScheme = cIdentityScheme custom, idAuthMethod = cAuthMethod custom\<rparr>"

type_synonym validated = "Principal \<times> Identity \<times> AtolClaims \<times> string"

definition ValidateToken ::
    "('tok, 'key) TokenLib \<Rightarrow> (string \<Rightarrow> 'f \<Rightarrow> ('key list res \<times> 'f) option) \<Rightarrow> TokenValidator \<Rightarrow> int \<Rightarrow> string \<Rightarrow> 'f \<Rightarrow>
     (validated res \<times> 'f) option" where
  "ValidateToken lib findKey tv now rawToken f =
     (case parseToken lib [''RS256''] rawToken of
        Inl err \<Rightarrow> Some (Inl (Wrapf STR ''parse token: %w'' [] err), f)
      | Inr tok \<Rightarrow>
          (case tokenHeaders lib tok of
             [] \<Rightarrow> Some (Inl (Errorf STR ''token has no headers'' []), f)
           | hdr # _ \<Rightarrow>
               (let typ = (case thTyp hdr of None \<Rightarrow> [] | Some t \<Rightarrow> t) in
                if tvRequiredType tv \<noteq> [] \<and> typ \<noteq> tvRequiredType tv
                then Some (Inl (Wrapf STR ''%w: got %q, want %q'' [typ, tvRequiredType tv] ErrTokenTypeMismatch), f)
                else case findKey (thKeyID hdr) f of
                  None \<Rightarrow> None
                | Some (Inl err, f') \<Rightarrow> Some (Inl (Wrapf STR ''find signing key: %w'' [] err), f')
                | Some (Inr [], f') \<Rightarrow> Some (Inl (Errorf STR ''unknown signing key: %s'' [thKeyID hdr]), f')
                | Some (Inr (signingKey # _), f') \<Rightarrow>
                    (case tokenClaims lib signingKey tok of
                       Inl err \<Rightarrow> Some (Inl (Wrapf STR ''verify claims: %w'' [] err), f')
                     | Inr (std, custom) \<Rightarrow>
                         (case validateWithLeeway lib std (tvIssuer tv)
                                 (if tvAudience tv \<noteq> [] then Some (tvAudience tv) else None) now tokenValidationLeeway of
                            Some err \<Rightarrow> Some (Inl (Wrapf STR ''validate claims: %w'' [] err), f')
                          | None \<Rightarrow> Some (Inr (principalOf std custom, identityOf custom, custom, sdID std), f'))))))"

section \<open>Revoked sessions\<close>

record SessionValidator =
  svRevoked :: "string list"
  svLastRefreshErr :: "goerror option"
  svConsecutiveFailures :: nat

definition NewSessionValidator :: SessionValidator where
  "NewSessionValidator = \<lparr>svRevoked = [], svLastRefreshErr = None, svConsecutiveFailures = 0\<rparr>"

definition IsRevoked :: "string \<Rightarrow> SessionValidator \<Rightarrow> bool" where
  "IsRevoked sessionID v \<longleftrightarrow> sessionID \<noteq> [] \<and> sessionID \<in> set (svRevoked v)"

definition Healthy :: "SessionValidator \<Rightarrow> bool" where
  "Healthy v \<longleftrightarrow> svLastRefreshErr v = None"

definition refresh_Session :: "string \<Rightarrow> string list res \<Rightarrow> SessionValidator \<Rightarrow> goerror option \<times> SessionValidator" where
  "refresh_Session org resp v =
     (case resp of
        Inl err \<Rightarrow> (Some (Wrapf STR ''fetch session CRL for org %s: %w'' [org] err), v)
      | Inr ids \<Rightarrow> (None, v\<lparr>svRevoked := ids\<rparr>))"

definition refreshAndRecord :: "string \<Rightarrow> string list res \<Rightarrow> SessionValidator \<Rightarrow> SessionValidator" where
  "refreshAndRecord org resp v =
     (case refresh_Session org resp v of
        (Some err, v') \<Rightarrow> v'\<lparr>svLastRefreshErr := Some err, svConsecutiveFailures := svConsecutiveFailures v' + 1\<rparr>
      | (None, v') \<Rightarrow> v'\<lparr>svLastRefreshErr := None, svConsecutiveFailures := 0\<rparr>)"

section \<open>Requests\<close>

record AuthCtx =
  xUser :: "Principal option"
  xClaims :: "AtolClaims option"
  xIdentity :: "Identity option"
  xDPoPVerified :: bool

text \<open>The engine's accessors the middlewares use, and the state behind them.\<close>

record ('tok, 'key, 'ptok, 'pkey, 'f, 'g) AuthEngine =
  eRequireDPoP :: bool
  eLib :: "('tok, 'key) TokenLib"
  eFindKey :: "string \<Rightarrow> 'f \<Rightarrow> ('key list res \<times> 'f) option"
  eValidator :: "TokenValidator option"
  eJose :: "('ptok, 'pkey) Jose"
  eStd :: Std
  eGuard :: "'g guard"
  eDPoP :: DPoPValidator

record ('f, 'g) AuthState =
  sFetcher :: 'f
  sSession :: "SessionValidator option"
  sDrift :: "DriftDetector option"
  sGuard :: 'g

record RequestWorld =
  wTokenNow :: int
  wDriftNow :: int
  wDriftOthers :: "snapshotCache \<Rightarrow> snapshotCache"
  wDriftResp :: "DeviceSnapshot res"
  wDriftStored :: int
  wProofNow :: int
  wGuardNow :: int

definition extractAuthToken :: "Std \<Rightarrow> string \<Rightarrow> string \<times> string" where
  "extractAuthToken std auth =
     (case cut CHR '' '' auth of (scheme, token, found) \<Rightarrow>
        if auth = [] \<or> \<not> found then ([], [])
        else if foldEq std scheme ''Bearer'' then (''Bearer'', token)
        else if foldEq std scheme ''DPoP'' then (''DPoP'', token)
        else ([], []))"

definition extractClientIP :: "Std \<Rightarrow> HttpRequest \<Rightarrow> string" where
  "extractClientIP std r =
     (let xff = Header_Get ''X-Forwarded-For'' r;
          ip = trim std (fst (cut CHR '','' xff));
          xri = Header_Get ''X-Real-IP'' r
      in if xff \<noteq> [] \<and> ip \<noteq> [] then ip
         else if xri \<noteq> [] then trim std xri
         else remoteHost std r)"

definition boundJKT :: "AtolClaims \<Rightarrow> string" where
  "boundJKT claims = (case cCnf claims of None \<Rightarrow> [] | Some jkt \<Rightarrow> jkt)"

section \<open>The HTTP middleware\<close>

datatype httpOutcome = Refused string | Challenged bool | Next AuthCtx

definition inspectDrift ::
    "Std \<Rightarrow> RequestWorld \<Rightarrow> HttpRequest \<Rightarrow> Principal \<Rightarrow> string \<Rightarrow> ('f, 'g) AuthState \<Rightarrow> ('f, 'g) AuthState" where
  "inspectDrift std w r p sessionID s =
     (case sDrift s of
        None \<Rightarrow> s
      | Some d \<Rightarrow>
          if sessionID = [] then s
          else s\<lparr>sDrift := Some (snd (Inspect std (wDriftNow w) (wDriftOthers w) (wDriftResp w) (wDriftStored w)
                  (pOrgID p) sessionID (pUserID p) r d))\<rparr>)"

definition HTTPMiddleware ::
    "('tok, 'key, 'ptok, 'pkey, 'f, 'g) AuthEngine \<Rightarrow> RequestWorld \<Rightarrow> HttpRequest \<Rightarrow> AuthCtx \<Rightarrow> ('f, 'g) AuthState \<Rightarrow>
     (httpOutcome \<times> ('f, 'g) AuthState) option" where
  "HTTPMiddleware e w r ctx s =
     (case extractAuthToken (eStd e) (Header_Get ''Authorization'' r) of (scheme, token) \<Rightarrow>
        if token = [] then Some (Refused ''unauthorized'', s)
        else if eRequireDPoP e \<and> \<not> foldEq (eStd e) scheme ''DPoP'' then Some (Challenged False, s)
        else case eValidator e of
          None \<Rightarrow> Some (Refused ''unauthorized'', s)
        | Some v \<Rightarrow>
            (case ValidateToken (eLib e) (eFindKey e) v (wTokenNow w) token (sFetcher s) of
               None \<Rightarrow> None
             | Some (Inl _, f) \<Rightarrow> Some (Refused ''unauthorized'', s\<lparr>sFetcher := f\<rparr>)
             | Some (Inr (who, identity, claims, sessionID), f) \<Rightarrow>
                 (let s1 = s\<lparr>sFetcher := f\<rparr> in
                  if (case sSession s1 of None \<Rightarrow> False | Some sv \<Rightarrow> sessionID \<noteq> [] \<and> IsRevoked sessionID sv)
                  then Some (Refused ''session revoked'', s1)
                  else
                    (let s2 = inspectDrift (eStd e) w r who sessionID s1;
                         jkt = boundJKT claims;
                         next = (\<lambda>verified. Next (ctx\<lparr>xUser := Some (who\<lparr>pClientIP := extractClientIP (eStd e) r\<rparr>),
                                    xClaims := Some claims, xIdentity := Some identity,
                                    xDPoPVerified := verified \<or> xDPoPVerified ctx\<rparr>))
                     in if jkt \<noteq> [] \<or> foldEq (eStd e) scheme ''DPoP''
                        then (case Validate (eJose e) (lower (eStd e)) (trim (eStd e)) (eGuard e) (eDPoP e) (wProofNow w) (wGuardNow w)
                                     r jkt token (sGuard s2) of
                                (Inl _, g) \<Rightarrow> Some (Challenged True, s2\<lparr>sGuard := g\<rparr>)
                              | (Inr _, g) \<Rightarrow> Some (next True, s2\<lparr>sGuard := g\<rparr>))
                        else Some (next False, s2)))))"

section \<open>The device middleware\<close>

text \<open>The device in the context of the request that is passed on.\<close>

definition DeviceMiddleware :: "bool \<Rightarrow> HttpRequest \<Rightarrow> DeviceContext option \<Rightarrow> DeviceContext option" where
  "DeviceMiddleware enabled r dc =
     (let deviceID = Header_Get ''X-Atol-Device-Id'' r in
      if \<not> enabled then dc
      else if deviceID = [] then dc
      else Some \<lparr>dvDeviceID = deviceID, dvKnown = False, dvConfidence = ''0'', dvSignals = None\<rparr>)"

section \<open>The Connect and gRPC interceptors\<close>

datatype rpcOutcome = Unauthenticated "goerror option" | Handle AuthCtx

text \<open>Their common part, after the token was extracted; \<open>deny\<close> is the error for each refusal.\<close>

definition rpcInterceptor ::
    "(String.literal \<Rightarrow> goerror option \<Rightarrow> rpcOutcome) \<Rightarrow> ('tok, 'key, 'ptok, 'pkey, 'f, 'g) AuthEngine \<Rightarrow> int \<Rightarrow> string \<times> string \<Rightarrow>
     AuthCtx \<Rightarrow> ('f, 'g) AuthState \<Rightarrow> (rpcOutcome \<times> ('f, 'g) AuthState) option" where
  "rpcInterceptor deny e now auth ctx s =
     (if xUser ctx \<noteq> None then Some (Handle ctx, s)
      else case auth of (scheme, token) \<Rightarrow>
        if token = [] then Some (deny STR ''missing bearer token'' None, s)
        else if eRequireDPoP e \<and> \<not> foldEq (eStd e) scheme ''DPoP'' then Some (deny STR ''DPoP scheme required'' None, s)
        else case eValidator e of
          None \<Rightarrow> Some (deny STR ''token validation not configured'' None, s)
        | Some v \<Rightarrow>
            (case ValidateToken (eLib e) (eFindKey e) v now token (sFetcher s) of
               None \<Rightarrow> None
             | Some (Inl err, f) \<Rightarrow> Some (deny STR ''invalid token'' (Some err), s\<lparr>sFetcher := f\<rparr>)
             | Some (Inr (who, identity, claims, _), f) \<Rightarrow>
                 (let s1 = s\<lparr>sFetcher := f\<rparr> in
                  if boundJKT claims \<noteq> [] \<and> \<not> xDPoPVerified ctx
                  then Some (deny STR ''DPoP-bound token requires HTTP middleware'' None, s1)
                  else Some (Handle (ctx\<lparr>xUser := Some who, xClaims := Some claims, xIdentity := Some identity\<rparr>), s1))))"

text \<open>The same reading of the \<open>Authorization\<close> header as for HTTP, on the headers alone.\<close>

definition extractAuthTokenFromHeaders :: "Std \<Rightarrow> string \<Rightarrow> string \<times> string" where
  "extractAuthTokenFromHeaders std auth =
     (if auth = [] then ([], [])
      else case cut CHR '' '' auth of (scheme, token, found) \<Rightarrow>
        if \<not> found then ([], [])
        else if foldEq std scheme ''Bearer'' then (''Bearer'', token)
        else if foldEq std scheme ''DPoP'' then (''DPoP'', token)
        else ([], []))"

lemma extractAuthTokenFromHeaders_http [simp]: "extractAuthTokenFromHeaders = extractAuthToken"
  by (simp add: fun_eq_iff extractAuthTokenFromHeaders_def extractAuthToken_def split: prod.split)

text \<open>Connect answers a missing token without a cause and an invalid one with the validator's error.\<close>

definition ConnectInterceptor ::
    "('tok, 'key, 'ptok, 'pkey, 'f, 'g) AuthEngine \<Rightarrow> int \<Rightarrow> string \<Rightarrow> AuthCtx \<Rightarrow> ('f, 'g) AuthState \<Rightarrow>
     (rpcOutcome \<times> ('f, 'g) AuthState) option" where
  "ConnectInterceptor e now authorization =
     rpcInterceptor (\<lambda>msg err. Unauthenticated
         (if msg = STR ''missing bearer token'' then None else case err of None \<Rightarrow> Some (Errorf msg []) | Some err \<Rightarrow> Some err))
       e now (extractAuthTokenFromHeaders (eStd e) authorization)"

text \<open>\<open>metadata\<close> are the values of the key \<open>authorization\<close>, if there is incoming metadata.\<close>

definition extractGRPCAuthToken :: "Std \<Rightarrow> string list option \<Rightarrow> string \<times> string" where
  "extractGRPCAuthToken std metadata =
     (case metadata of None \<Rightarrow> ([], []) | Some [] \<Rightarrow> ([], []) | Some (auth # _) \<Rightarrow> extractAuthToken std auth)"

definition GRPCUnaryInterceptor ::
    "('tok, 'key, 'ptok, 'pkey, 'f, 'g) AuthEngine \<Rightarrow> int \<Rightarrow> string list option \<Rightarrow> AuthCtx \<Rightarrow> ('f, 'g) AuthState \<Rightarrow>
     (rpcOutcome \<times> ('f, 'g) AuthState) option" where
  "GRPCUnaryInterceptor e now metadata =
     rpcInterceptor (\<lambda>msg _. Unauthenticated (Some (Errorf msg []))) e now (extractGRPCAuthToken (eStd e) metadata)"

section \<open>What a handler may rely on\<close>

text \<open>A token the validator accepts: signed by a key the lookup found, with claims that validate.\<close>

definition authentic ::
    "('tok, 'key) TokenLib \<Rightarrow> (string \<Rightarrow> 'f \<Rightarrow> ('key list res \<times> 'f) option) \<Rightarrow> TokenValidator \<Rightarrow> int \<Rightarrow> string \<Rightarrow> 'f \<Rightarrow>
     Principal \<Rightarrow> AtolClaims \<Rightarrow> string \<Rightarrow> bool" where
  "authentic lib findKey tv now token f who claims sessionID \<longleftrightarrow>
     (\<exists>tok hdr hdrs k ks f' std. parseToken lib [''RS256''] token = Inr tok \<and> tokenHeaders lib tok = hdr # hdrs \<and>
        (tvRequiredType tv \<noteq> [] \<longrightarrow> thTyp hdr = Some (tvRequiredType tv)) \<and>
        findKey (thKeyID hdr) f = Some (Inr (k # ks), f') \<and> tokenClaims lib k tok = Inr (std, claims) \<and>
        validateWithLeeway lib std (tvIssuer tv) (if tvAudience tv \<noteq> [] then Some (tvAudience tv) else None) now tokenValidationLeeway = None \<and>
        who = principalOf std claims \<and> sessionID = sdID std)"

lemma ValidateToken_ok:
  assumes "ValidateToken lib findKey tv now token f = Some (Inr (who, identity, claims, sessionID), f')"
  shows "authentic lib findKey tv now token f who claims sessionID \<and> identity = identityOf claims"
proof -
  obtain tok hdr hdrs where t: "parseToken lib [''RS256''] token = Inr tok" "tokenHeaders lib tok = hdr # hdrs"
    using assms by (auto simp: ValidateToken_def split: sum.splits list.splits)
  have ty: "tvRequiredType tv \<noteq> [] \<longrightarrow> thTyp hdr = Some (tvRequiredType tv)"
    using assms t by (auto simp: ValidateToken_def Let_def split: if_splits option.splits)
  obtain k ks where k: "findKey (thKeyID hdr) f = Some (Inr (k # ks), f')"
    using assms t by (auto simp: ValidateToken_def Let_def split: if_splits option.splits prod.splits sum.splits list.splits)
  obtain std where "tokenClaims lib k tok = Inr (std, claims)"
    "validateWithLeeway lib std (tvIssuer tv) (if tvAudience tv \<noteq> [] then Some (tvAudience tv) else None) now tokenValidationLeeway = None"
    "who = principalOf std claims" "identity = identityOf claims" "sessionID = sdID std"
    using assms t k by (auto simp: ValidateToken_def Let_def split: if_splits option.splits prod.splits sum.splits)
  with t ty k show ?thesis unfolding authentic_def by blast
qed

lemma Validate_jkt:
  assumes "Validate js lw tr ck dv now gn r jkt token g = (Inr pf, g')" and "jkt \<noteq> []"
  shows "prJKT pf = jkt"
proof -
  from assms(1) have "validateString js ck dv now gn (Header_Get ''DPoP'' r) (hrMethod r) (reconstructRequestURI js lw tr r) jkt token g = (Inr pf, g')"
    by (simp add: Validate_def Let_def split: if_splits)
  then show ?thesis by (rule validateString_ok) (use assms(2) in blast)
qed

lemma HTTPMiddleware_next:
  assumes "HTTPMiddleware e w r ctx s = Some (Next ctx', s')"
  shows "\<exists>scheme token v who claims sessionID.
     extractAuthToken (eStd e) (Header_Get ''Authorization'' r) = (scheme, token) \<and> token \<noteq> [] \<and> eValidator e = Some v \<and>
     authentic (eLib e) (eFindKey e) v (wTokenNow w) token (sFetcher s) who claims sessionID \<and>
     (\<forall>sv. sSession s = Some sv \<longrightarrow> \<not> IsRevoked sessionID sv) \<and>
     xUser ctx' = Some (who\<lparr>pClientIP := extractClientIP (eStd e) r\<rparr>) \<and> xClaims ctx' = Some claims \<and>
     (eRequireDPoP e \<longrightarrow> foldEq (eStd e) scheme ''DPoP'') \<and>
     (boundJKT claims \<noteq> [] \<or> foldEq (eStd e) scheme ''DPoP'' \<longrightarrow> xDPoPVerified ctx' \<and>
        (\<exists>proof g'. Validate (eJose e) (lower (eStd e)) (trim (eStd e)) (eGuard e) (eDPoP e) (wProofNow w) (wGuardNow w) r
            (boundJKT claims) token (sGuard s) = (Inr proof, g') \<and>
          (boundJKT claims \<noteq> [] \<longrightarrow> prJKT proof = boundJKT claims)))"
proof -
  obtain scheme token where a: "extractAuthToken (eStd e) (Header_Get ''Authorization'' r) = (scheme, token)" by fastforce
  with assms obtain v where v: "eValidator e = Some v" "token \<noteq> []" "eRequireDPoP e \<longrightarrow> foldEq (eStd e) scheme ''DPoP''"
    by (auto simp: HTTPMiddleware_def split: if_splits option.splits)
  from assms a v obtain who identity claims sessionID f where
    t: "ValidateToken (eLib e) (eFindKey e) v (wTokenNow w) token (sFetcher s) = Some (Inr (who, identity, claims, sessionID), f)"
    by (auto simp: HTTPMiddleware_def split: if_splits option.splits prod.splits sum.splits)
  note h = assms [unfolded HTTPMiddleware_def a prod.case v(1) option.case t sum.case Let_def]
  have rev: "\<forall>sv. sSession s = Some sv \<longrightarrow> \<not> IsRevoked sessionID sv"
    using h v by (auto simp: IsRevoked_def split: if_splits option.splits)
  have gd: "sGuard (inspectDrift (eStd e) w r who sessionID (s\<lparr>sFetcher := f\<rparr>)) = sGuard s"
    by (simp add: inspectDrift_def split: option.split)
  have cx: "xUser ctx' = Some (who\<lparr>pClientIP := extractClientIP (eStd e) r\<rparr>) \<and> xClaims ctx' = Some claims"
    using h v by (auto split: if_splits prod.splits sum.splits)
  have dp: "boundJKT claims \<noteq> [] \<or> foldEq (eStd e) scheme ''DPoP'' \<longrightarrow> xDPoPVerified ctx' \<and>
      (\<exists>proof g'. Validate (eJose e) (lower (eStd e)) (trim (eStd e)) (eGuard e) (eDPoP e) (wProofNow w) (wGuardNow w) r
          (boundJKT claims) token (sGuard s) = (Inr proof, g') \<and> (boundJKT claims \<noteq> [] \<longrightarrow> prJKT proof = boundJKT claims))"
  proof
    assume "boundJKT claims \<noteq> [] \<or> foldEq (eStd e) scheme ''DPoP''"
    with h v obtain pf g' where vd: "xDPoPVerified ctx'" "Validate (eJose e) (lower (eStd e)) (trim (eStd e)) (eGuard e) (eDPoP e)
        (wProofNow w) (wGuardNow w) r (boundJKT claims) token (sGuard s) = (Inr pf, g')"
      by (auto simp: gd split: if_splits prod.splits sum.splits)
    with Validate_jkt [OF vd(2)] show "xDPoPVerified ctx' \<and> (\<exists>proof g'. Validate (eJose e) (lower (eStd e)) (trim (eStd e))
        (eGuard e) (eDPoP e) (wProofNow w) (wGuardNow w) r (boundJKT claims) token (sGuard s) = (Inr proof, g') \<and>
        (boundJKT claims \<noteq> [] \<longrightarrow> prJKT proof = boundJKT claims))" by blast
  qed
  show ?thesis
    by (rule exI [of _ scheme], rule exI [of _ token], rule exI [of _ v], rule exI [of _ who], rule exI [of _ claims],
        rule exI [of _ sessionID]) (use a v ValidateToken_ok [OF t] rev cx dp in simp)
qed

text \<open>And it refuses no request that meets all of this.\<close>

lemma HTTPMiddleware_accepts:
  assumes "extractAuthToken (eStd e) (Header_Get ''Authorization'' r) = (scheme, token)" and "token \<noteq> []"
    and "eRequireDPoP e \<longrightarrow> foldEq (eStd e) scheme ''DPoP''" and "eValidator e = Some v"
    and "ValidateToken (eLib e) (eFindKey e) v (wTokenNow w) token (sFetcher s) = Some (Inr (who, identity, claims, sessionID), f)"
    and "\<forall>sv. sSession s = Some sv \<longrightarrow> \<not> IsRevoked sessionID sv"
    and "boundJKT claims \<noteq> [] \<or> foldEq (eStd e) scheme ''DPoP'' \<longrightarrow>
      (\<exists>pf g. Validate (eJose e) (lower (eStd e)) (trim (eStd e)) (eGuard e) (eDPoP e) (wProofNow w) (wGuardNow w) r
         (boundJKT claims) token (sGuard s) = (Inr pf, g))"
  shows "\<exists>ctx' s'. HTTPMiddleware e w r ctx s = Some (Next ctx', s') \<and>
    xUser ctx' = Some (who\<lparr>pClientIP := extractClientIP (eStd e) r\<rparr>) \<and> xClaims ctx' = Some claims \<and> xIdentity ctx' = Some identity"
proof -
  have gd: "sGuard (inspectDrift (eStd e) w r who sessionID (s\<lparr>sFetcher := f\<rparr>)) = sGuard s"
    by (simp add: inspectDrift_def split: option.split)
  have rv: "\<not> (case sSession s of None \<Rightarrow> False | Some sv \<Rightarrow> sessionID \<noteq> [] \<and> IsRevoked sessionID sv)"
    using assms(6) by (simp split: option.split)
  show ?thesis
  proof (cases "boundJKT claims \<noteq> [] \<or> foldEq (eStd e) scheme ''DPoP''")
    case True
    with assms(7) obtain pf g where "Validate (eJose e) (lower (eStd e)) (trim (eStd e)) (eGuard e) (eDPoP e) (wProofNow w) (wGuardNow w) r
         (boundJKT claims) token (sGuard s) = (Inr pf, g)" by blast
    with True assms(1-5) rv show ?thesis by (auto simp: HTTPMiddleware_def Let_def gd)
  next
    case False
    with assms(1-5) rv show ?thesis by (simp add: HTTPMiddleware_def Let_def)
  qed
qed

text \<open>
  C5. The HTTP middleware lets a request through only with a valid, unrevoked and, where it must be,
  proven token. When the handler runs, the request carried a token of a supported scheme, the
  configured validator accepted it now, its session is not on the revocation list, and the principal
  is the token's with the client address; DPoP was used where it is required; and if the token is bound to a key, or the
  client used the DPoP scheme, a proof of this request was accepted, made with the bound key.
\<close>

theorem http_auth_sound:
  assumes "HTTPMiddleware e w r ctx s = Some (Next ctx', s')"
  shows "\<exists>scheme token v who claims sessionID.
     extractAuthToken (eStd e) (Header_Get ''Authorization'' r) = (scheme, token) \<and> token \<noteq> [] \<and> eValidator e = Some v \<and>
     authentic (eLib e) (eFindKey e) v (wTokenNow w) token (sFetcher s) who claims sessionID \<and>
     (\<forall>sv. sSession s = Some sv \<longrightarrow> \<not> IsRevoked sessionID sv) \<and>
     xUser ctx' = Some (who\<lparr>pClientIP := extractClientIP (eStd e) r\<rparr>) \<and> xClaims ctx' = Some claims \<and>
     (eRequireDPoP e \<longrightarrow> foldEq (eStd e) scheme ''DPoP'') \<and>
     (boundJKT claims \<noteq> [] \<or> foldEq (eStd e) scheme ''DPoP'' \<longrightarrow> xDPoPVerified ctx' \<and>
        (\<exists>proof g'. Validate (eJose e) (lower (eStd e)) (trim (eStd e)) (eGuard e) (eDPoP e) (wProofNow w) (wGuardNow w) r
            (boundJKT claims) token (sGuard s) = (Inr proof, g') \<and>
          (boundJKT claims \<noteq> [] \<longrightarrow> prJKT proof = boundJKT claims)))"
  using assms by (rule HTTPMiddleware_next)

lemma rpcInterceptor_ok:
  assumes "rpcInterceptor deny e now (scheme, token) ctx s = Some (Handle ctx', s')" and "\<And>m x. \<exists>y. deny m x = Unauthenticated y"
  shows "(xUser ctx \<noteq> None \<and> ctx' = ctx \<and> s' = s) \<or>
      (\<exists>v who claims sessionID. token \<noteq> [] \<and>
         eValidator e = Some v \<and> authentic (eLib e) (eFindKey e) v now token (sFetcher s) who claims sessionID \<and>
         xUser ctx' = Some who \<and> xClaims ctx' = Some claims \<and>
         (eRequireDPoP e \<longrightarrow> foldEq (eStd e) scheme ''DPoP'') \<and> (boundJKT claims \<noteq> [] \<longrightarrow> xDPoPVerified ctx))"
proof (cases "xUser ctx = None")
  case False
  with assms(1) show ?thesis by (simp add: rpcInterceptor_def)
next
  case True
  have nd: "deny m x \<noteq> Handle c" for m x c using assms(2) [of m x] by auto
  from assms(1) True nd obtain v where v: "eValidator e = Some v" "token \<noteq> []" "eRequireDPoP e \<longrightarrow> foldEq (eStd e) scheme ''DPoP''"
    by (auto simp: rpcInterceptor_def split: if_splits option.splits)
  from assms(1) True nd v obtain who identity claims sessionID f where
    t: "ValidateToken (eLib e) (eFindKey e) v now token (sFetcher s) = Some (Inr (who, identity, claims, sessionID), f)"
    by (auto simp: rpcInterceptor_def split: if_splits option.splits prod.splits sum.splits)
  from assms(1) True nd v t ValidateToken_ok [OF t] show ?thesis
    by (auto simp: rpcInterceptor_def Let_def split: if_splits)
qed

text \<open>
  C33. The Connect and gRPC interceptors run the handler only for a principal set upstream, in the
  context as it was, or for a token that the configured validator accepts now, presented in the DPoP scheme
  where that is required, and not bound to a key unless a proof was verified upstream.
\<close>

theorem rpc_auth_sound:
  assumes "ConnectInterceptor e now authorization ctx s = Some (Handle ctx', s') \<or>
    GRPCUnaryInterceptor e now metadata ctx s = Some (Handle ctx', s')"
  shows "(xUser ctx \<noteq> None \<and> ctx' = ctx \<and> s' = s) \<or>
    (\<exists>scheme token v who claims sessionID.
       (scheme, token) \<in> {extractAuthToken (eStd e) authorization, extractGRPCAuthToken (eStd e) metadata} \<and> token \<noteq> [] \<and>
       eValidator e = Some v \<and> authentic (eLib e) (eFindKey e) v now token (sFetcher s) who claims sessionID \<and>
       xUser ctx' = Some who \<and> xClaims ctx' = Some claims \<and>
       (eRequireDPoP e \<longrightarrow> foldEq (eStd e) scheme ''DPoP'') \<and> (boundJKT claims \<noteq> [] \<longrightarrow> xDPoPVerified ctx))"
proof -
  have ok: ?thesis
    if "rpcInterceptor deny e now auth ctx s = Some (Handle ctx', s')" "\<And>m x. \<exists>y. deny m x = Unauthenticated y"
      "auth \<in> {extractAuthToken (eStd e) authorization, extractGRPCAuthToken (eStd e) metadata}" for deny auth
  proof -
    obtain scheme token where a: "auth = (scheme, token)" by (cases auth)
    from rpcInterceptor_ok [OF that(1) [unfolded a] that(2)] that(3) show ?thesis unfolding a by blast
  qed
  from assms show ?thesis
    unfolding ConnectInterceptor_def GRPCUnaryInterceptor_def by (elim disjE) (erule ok; simp)+
qed

section \<open>Sample requests\<close>

definition sampleClaims :: "string \<Rightarrow> AtolClaims" where
  "sampleClaims tok = \<lparr>cOrgID = ''acme'', cPlan = [], cRoles = None, cAuthMethod = ''passkey'', cMFAVerified = True, cEmailVerified = True,
     cTrustDomain = [], cAuthTime = 0, cIdentityID = [], cIdentityScheme = [], cWrappedDEK = [],
     cCnf = (if tok = ''bound'' then Some ''key'' else None)\<rparr>"

definition sampleLib :: "(string, string) TokenLib" where
  "sampleLib =
     \<lparr>parseToken = (\<lambda>_. Inr), tokenHeaders = (\<lambda>_. [\<lparr>thKeyID = ''k1'', thTyp = Some ''at+jwt''\<rparr>]),
      tokenClaims = (\<lambda>_ tok. Inr (\<lparr>sdSubject = ''ann'', sdID = tok, sdIssuer = ''iss'', sdAudience = [], sdExpiry = None,
        sdNotBefore = None, sdIssuedAt = None\<rparr>, sampleClaims tok)),
      validateWithLeeway = (\<lambda>_ _ _ _ _. None)\<rparr>"

definition idleRound :: "string list roundIn" where
  "idleRound = \<lparr>rnOthers = (\<lambda>f. f), rnSince = 0, rnForced = 0, rnFetched = 0, rnAnswer = BadStatus, rnCancelled = None\<rparr>"

type_synonym sample_auth = "(string, string, string, string, string list Fetcher, memoryReplayGuard) AuthEngine"

definition sampleAuth :: "bool \<Rightarrow> sample_auth" where
  "sampleAuth require =
     \<lparr>eRequireDPoP = require, eLib = sampleLib, eFindKey = (\<lambda>kid. FindKey sampleKeyOf ''u'' kid 0 idleRound []),
      eValidator = Some \<lparr>tvIssuer = ''iss'', tvAudience = [], tvRequiredType = ''at+jwt''\<rparr>, eJose = sampleJose, eStd = asciiStd,
      eGuard = CheckAndRecord, eDPoP = NewDPoPValidator False\<rparr>"

definition sampleState :: "(string list Fetcher, memoryReplayGuard) AuthState" where
  "sampleState = \<lparr>sFetcher = NewJWKSFetcher\<lparr>jKeys := Some (1, [''k1'']), jFetches := 1, jFetchedAt := 0\<rparr>,
     sSession = Some (refreshAndRecord ''acme'' (Inr [''stolen'']) NewSessionValidator), sDrift = None, sGuard = []\<rparr>"

definition sampleRequest :: "string \<Rightarrow> HttpRequest" where
  "sampleRequest auth = \<lparr>hrMethod = ''GET'', hrHost = ''rs'', hrPath = ''/a'', hrTLS = True,
     hrHeaders = [(''Authorization'', auth), (''DPoP'', ''p1'')], hrRemoteAddr = ''10.0.0.1''\<rparr>"

definition sampleWorld :: RequestWorld where
  "sampleWorld = \<lparr>wTokenNow = 1010 * seconds, wDriftNow = 0, wDriftOthers = (\<lambda>c. c), wDriftResp = Inl ErrStale, wDriftStored = 0,
     wProofNow = 1010 * seconds, wGuardNow = 1010 * seconds\<rparr>"

definition noCtx :: AuthCtx where
  "noCtx = \<lparr>xUser = None, xClaims = None, xIdentity = None, xDPoPVerified = False\<rparr>"

fun nextUser :: "(httpOutcome \<times> 's) option \<Rightarrow> (string \<times> bool) option" where
  "nextUser (Some (Next ctx, _)) = map_option (\<lambda>p. (pUserID p, xDPoPVerified ctx)) (xUser ctx)"
| "nextUser _ = None"

fun handledUser :: "(rpcOutcome \<times> 's) option \<Rightarrow> string option" where
  "handledUser (Some (Handle ctx, _)) = map_option pUserID (xUser ctx)"
| "handledUser _ = None"

theorem http_auth_sound_witness:
  "\<exists>ctx' s'. HTTPMiddleware (sampleAuth True) sampleWorld (sampleRequest ''DPoP bound'') noCtx sampleState = Some (Next ctx', s') \<and>
     xDPoPVerified ctx' \<and> nextUser (HTTPMiddleware (sampleAuth True) sampleWorld (sampleRequest ''DPoP stolen'') noCtx sampleState) = None"
proof -
  let ?h = "HTTPMiddleware (sampleAuth True) sampleWorld (sampleRequest ''DPoP bound'') noCtx sampleState"
  have n: "nextUser ?h = Some (''ann'', True)" by code_simp
  have "nextUser (HTTPMiddleware (sampleAuth True) sampleWorld (sampleRequest ''DPoP stolen'') noCtx sampleState) = None" by code_simp
  moreover from n obtain ctx' s' where h: "?h = Some (Next ctx', s')" by (cases ?h rule: nextUser.cases) auto
  moreover have "foldEq (eStd (sampleAuth True)) = asciiFold" "eRequireDPoP (sampleAuth True)" by (simp_all add: sampleAuth_def asciiStd_def)
  ultimately show ?thesis using http_auth_sound [OF h] by auto
qed

theorem rpc_auth_sound_witness:
  "\<exists>ctx' s'. ConnectInterceptor (sampleAuth False) (1010 * seconds) ''Bearer plain'' noCtx sampleState = Some (Handle ctx', s') \<and>
     (\<forall>claims. xClaims ctx' = Some claims \<longrightarrow> boundJKT claims = [])"
proof -
  let ?h = "ConnectInterceptor (sampleAuth False) (1010 * seconds) ''Bearer plain'' noCtx sampleState"
  have "handledUser ?h = Some ''ann''" by code_simp
  then obtain ctx' s' where h: "?h = Some (Handle ctx', s')" by (cases ?h rule: handledUser.cases) auto
  with rpc_auth_sound [OF disjI1 [OF h], of None] show ?thesis by (auto simp: noCtx_def)
qed

text \<open>
  The interceptors do not ask the revocation list, and where DPoP is required they run the handler for an
  unbound token that is merely presented under the DPoP scheme, without any proof.
\<close>

lemma rpc_ignores_revocation:
  "IsRevoked ''stolen'' (case sSession sampleState of Some sv \<Rightarrow> sv | None \<Rightarrow> NewSessionValidator) \<and>
   handledUser (ConnectInterceptor (sampleAuth False) (1010 * seconds) ''Bearer stolen'' noCtx sampleState) = Some ''ann'' \<and>
   handledUser (GRPCUnaryInterceptor (sampleAuth False) (1010 * seconds) (Some [''Bearer stolen'']) noCtx sampleState) = Some ''ann''"
  by code_simp

lemma rpc_dpop_without_proof:
  "eRequireDPoP (sampleAuth True) \<and>
   handledUser (ConnectInterceptor (sampleAuth True) (1010 * seconds) ''DPoP plain'' noCtx sampleState) = Some ''ann'' \<and>
   handledUser (GRPCUnaryInterceptor (sampleAuth True) (1010 * seconds) (Some [''DPoP plain'']) noCtx sampleState) = Some ''ann''"
  by code_simp

end
