(* ===== verification/Test_Kit.thy ===== *)
theory Test_Kit
  imports Auth_Middleware
begin

text \<open>
  The token factory and the DPoP prover of the test kit (\<open>atoltest/token.go\<close>, \<open>atoltest/prover.go\<close>), and what they
  promise: their tokens and proofs pass the SDK's real validator and middleware. They are the model's
  honest client, so this is also the statement that the middleware is not merely refusing everything.

  The signing side of the JOSE library is a parameter, with the documented agreement between signing and
  verifying as a hypothesis. A panic is \<open>None\<close>.
\<close>

section \<open>Tokens\<close>

record tokenConfig =
  tcSubject :: string
  tcEmail :: string
  tcOrgID :: string
  tcRoles :: "string list"
  tcPlan :: string
  tcAuthMethod :: string
  tcMFAVerified :: bool
  tcEmailVerified :: bool
  tcIdentityID :: string
  tcIdentityScheme :: string
  tcTrustDomain :: string
  tcAudience :: string
  tcExpiry :: int
  tcJTI :: string
  tcAuthTime :: "int option"
  tcJKT :: string
  tcTyp :: string

datatype TokenOption =
    WithSubject string | WithEmail string | WithOrgID string | WithRoles "string list" | WithPlan string
  | WithAuthMethod string | WithMFA | WithEmailVerified bool | WithIdentity string string | WithTrustDomain string
  | WithAudience string | WithExpiry int | WithJTI string | WithAuthTime int | WithConfirmation string | WithTokenType string

fun applyOption :: "TokenOption \<Rightarrow> tokenConfig \<Rightarrow> tokenConfig" where
  "applyOption (WithSubject sub) c = c\<lparr>tcSubject := sub\<rparr>"
| "applyOption (WithEmail email) c = c\<lparr>tcEmail := email\<rparr>"
| "applyOption (WithOrgID org) c = c\<lparr>tcOrgID := org\<rparr>"
| "applyOption (WithRoles roles) c = c\<lparr>tcRoles := roles\<rparr>"
| "applyOption (WithPlan plan) c = c\<lparr>tcPlan := plan\<rparr>"
| "applyOption (WithAuthMethod method) c = c\<lparr>tcAuthMethod := method\<rparr>"
| "applyOption WithMFA c = c\<lparr>tcMFAVerified := True\<rparr>"
| "applyOption (WithEmailVerified verified) c = c\<lparr>tcEmailVerified := verified\<rparr>"
| "applyOption (WithIdentity ident scheme) c = c\<lparr>tcIdentityID := ident, tcIdentityScheme := scheme\<rparr>"
| "applyOption (WithTrustDomain domain) c = c\<lparr>tcTrustDomain := domain\<rparr>"
| "applyOption (WithAudience aud) c = c\<lparr>tcAudience := aud\<rparr>"
| "applyOption (WithExpiry d) c = c\<lparr>tcExpiry := d\<rparr>"
| "applyOption (WithJTI jti) c = c\<lparr>tcJTI := jti\<rparr>"
| "applyOption (WithAuthTime t) c = c\<lparr>tcAuthTime := Some t\<rparr>"
| "applyOption (WithConfirmation jkt) c = c\<lparr>tcJKT := jkt\<rparr>"
| "applyOption (WithTokenType typ) c = c\<lparr>tcTyp := typ\<rparr>"

text \<open>The defaults of \<open>MintToken\<close>, before the options.\<close>

definition defaultTokenConfig :: tokenConfig where
  "defaultTokenConfig =
     \<lparr>tcSubject = ''test-user'', tcEmail = ''test@example.com'', tcOrgID = [], tcRoles = [], tcPlan = [], tcAuthMethod = ''password'',
      tcMFAVerified = False, tcEmailVerified = False, tcIdentityID = [], tcIdentityScheme = [], tcTrustDomain = [], tcAudience = [],
      tcExpiry = 3600 * seconds, tcJTI = [], tcAuthTime = None, tcJKT = [], tcTyp = []\<rparr>"

record atolClaims =
  acOrgID :: string
  acPlan :: string
  acRoles :: "string list"
  acAuthMethod :: string
  acMFAVerified :: bool
  acTrustDomain :: string
  acAuthTime :: int
  acIdentityID :: string
  acIdentityScheme :: string
  acEmail :: string
  acEmailVerified :: bool
  acCnf :: "string option"

text \<open>\<open>t.Unix()\<close> of a time in nanoseconds.\<close>

definition unix :: "int \<Rightarrow> int" where
  "unix t = t div seconds"

definition customClaims :: "tokenConfig \<Rightarrow> atolClaims" where
  "customClaims cfg =
     \<lparr>acOrgID = tcOrgID cfg, acPlan = tcPlan cfg, acRoles = tcRoles cfg, acAuthMethod = tcAuthMethod cfg, acMFAVerified = tcMFAVerified cfg,
      acTrustDomain = tcTrustDomain cfg, acAuthTime = (case tcAuthTime cfg of None \<Rightarrow> 0 | Some t \<Rightarrow> unix t), acIdentityID = tcIdentityID cfg,
      acIdentityScheme = tcIdentityScheme cfg, acEmail = tcEmail cfg, acEmailVerified = tcEmailVerified cfg,
      acCnf = (if tcJKT cfg \<noteq> [] then Some (tcJKT cfg) else None)\<rparr>"

definition standardClaims :: "int \<Rightarrow> string \<Rightarrow> string \<Rightarrow> tokenConfig \<Rightarrow> stdClaims" where
  "standardClaims now issuer jti cfg =
     \<lparr>sdSubject = tcSubject cfg, sdID = jti, sdIssuer = issuer, sdAudience = (if tcAudience cfg \<noteq> [] then [tcAudience cfg] else []),
      sdExpiry = Some (unix (now + tcExpiry cfg)), sdNotBefore = None, sdIssuedAt = Some (unix now)\<rparr>"

record 'priv TokenFactory =
  tfPrivateKey :: 'priv
  tfKid :: string
  tfServer :: string
  tfIssuer :: string

text \<open>\<open>keyHash\<close> is the hex text of the first eight bytes of the hash of the key's JSON, and \<open>url\<close> the address of the started
  server. An error is a failed test.\<close>

definition NewTokenFactory :: "'priv res \<Rightarrow> ('priv \<Rightarrow> string res) \<Rightarrow> string \<Rightarrow> 'priv TokenFactory res" where
  "NewTokenFactory generated keyHash url =
     (case generated of
        Inl err \<Rightarrow> Inl (Wrapf STR ''atoltest: generate RSA key: %v'' [] err)
      | Inr priv \<Rightarrow>
          (case keyHash priv of
             Inl err \<Rightarrow> Inl (Wrapf STR ''atoltest: marshal public key: %v'' [] err)
           | Inr hash \<Rightarrow> Inr \<lparr>tfPrivateKey = priv, tfKid = ''test-'' @ hash, tfServer = url, tfIssuer = url\<rparr>))"

definition JWKSUrl :: "'priv TokenFactory \<Rightarrow> string" where
  "JWKSUrl f = tfServer f @ ''/.well-known/jwks.json''"

text \<open>
  Signing: a token with its key identifier and, if not empty, its type; a proof with the embedded public
  key and the type \<open>dpop+jwt\<close>.
\<close>

record ('priv, 'key, 'pkey) Signing =
  publicKey :: "'priv \<Rightarrow> 'key"
  signToken :: "'priv \<Rightarrow> string \<Rightarrow> string \<Rightarrow> stdClaims \<Rightarrow> atolClaims \<Rightarrow> string res"
  proofKey :: "'priv \<Rightarrow> 'pkey"
  proofSigner :: "'priv \<Rightarrow> goerror option"
  signProof :: "'priv \<Rightarrow> dpopClaims \<Rightarrow> string res"

text \<open>\<open>random\<close> is the hex text of what the random source delivers.\<close>

definition MintToken ::
    "('priv, 'key, 'pkey) Signing \<Rightarrow> int \<Rightarrow> string res \<Rightarrow> TokenOption list \<Rightarrow> 'priv TokenFactory \<Rightarrow> string option" where
  "MintToken sg now random opts f =
     (let cfg = fold applyOption opts defaultTokenConfig in
      case (if tcJTI cfg = [] then random else Inr (tcJTI cfg)) of
        Inl _ \<Rightarrow> None
      | Inr jti \<Rightarrow>
          (case signToken sg (tfPrivateKey f) (tfKid f) (tcTyp cfg) (standardClaims now (tfIssuer f) jti cfg) (customClaims cfg) of
             Inl _ \<Rightarrow> None
           | Inr tok \<Rightarrow> Some tok))"

text \<open>The key set the factory serves.\<close>

definition handleJWKS :: "('priv, 'key, 'pkey) Signing \<Rightarrow> 'priv TokenFactory \<Rightarrow> (string \<times> 'key) list" where
  "handleJWKS sg f = [(tfKid f, publicKey sg (tfPrivateKey f))]"

section \<open>The mock identity provider\<close>

record tokenRequest =
  trSub :: string
  trEmail :: string
  trOrgID :: string
  trRoles :: "string list"
  trPlan :: string

text \<open>The provider takes the factory over: its server serves the keys, and is the issuer.\<close>

definition NewMockOIDCServer :: "string \<Rightarrow> 'priv TokenFactory \<Rightarrow> 'priv TokenFactory" where
  "NewMockOIDCServer url f = f\<lparr>tfIssuer := url, tfServer := url\<rparr>"

definition handleDiscovery :: "'priv TokenFactory \<Rightarrow> jobj" where
  "handleDiscovery f =
     (let base = tfServer f in
      [(''issuer'', JStr base), (''authorization_endpoint'', JStr (base @ ''/authorize'')),
       (''token_endpoint'', JStr (base @ ''/oauth/token'')), (''jwks_uri'', JStr (base @ ''/.well-known/jwks.json'')),
       (''userinfo_endpoint'', JStr (base @ ''/userinfo'')), (''id_token_signing_alg_values_supported'', JArr [JStr ''RS256'']),
       (''response_types_supported'', JArr [JStr ''code'']), (''subject_types_supported'', JArr [JStr ''public'']),
       (''token_endpoint_auth_methods_supported'', JArr [JStr ''client_secret_post''])])"

definition requestOptions :: "tokenRequest \<Rightarrow> TokenOption list" where
  "requestOptions req =
     (if trSub req \<noteq> [] then [WithSubject (trSub req)] else []) @ (if trEmail req \<noteq> [] then [WithEmail (trEmail req)] else []) @
     (if trOrgID req \<noteq> [] then [WithOrgID (trOrgID req)] else []) @ (if trRoles req \<noteq> [] then [WithRoles (trRoles req)] else []) @
     (if trPlan req \<noteq> [] then [WithPlan (trPlan req)] else [])"

text \<open>The status and body of a reply. \<open>decode\<close> is the JSON decoder at the request type; \<open>None\<close> is a panic of \<open>MintToken\<close>.\<close>

definition handleToken ::
    "('priv, 'key, 'pkey) Signing \<Rightarrow> (string \<Rightarrow> tokenRequest res) \<Rightarrow> int \<Rightarrow> string res \<Rightarrow> string res \<Rightarrow> 'priv TokenFactory \<Rightarrow>
     (nat \<times> jobj) option" where
  "handleToken sg decode now random body f =
     (case body of
        Inl _ \<Rightarrow> Some (400, [(''error'', JStr ''invalid_request''), (''error_description'', JStr ''failed to read body'')])
      | Inr b \<Rightarrow>
          (case (if b = [] then Inr \<lparr>trSub = [], trEmail = [], trOrgID = [], trRoles = [], trPlan = []\<rparr> else decode b) of
             Inl _ \<Rightarrow> Some (400, [(''error'', JStr ''invalid_request''), (''error_description'', JStr ''invalid JSON body'')])
           | Inr req \<Rightarrow>
               (case MintToken sg now random (requestOptions req) f of
                  None \<Rightarrow> None
                | Some token \<Rightarrow> Some (200, [(''access_token'', JStr token), (''token_type'', JStr ''Bearer''),
                    (''expires_in'', JInt 3600), (''id_token'', JStr token)]))))"

section \<open>Proofs\<close>

record 'priv DPoPProver =
  pvPriv :: 'priv
  pvJKT :: string

definition NewDPoPProver :: "('priv, 'key, 'pkey) Signing \<Rightarrow> ('pkey \<Rightarrow> string res) \<Rightarrow> 'priv res \<Rightarrow> 'priv DPoPProver res" where
  "NewDPoPProver sg thumb generated =
     (case generated of
        Inl err \<Rightarrow> Inl (Wrapf STR ''atoltest: generate prover key: %w'' [] err)
      | Inr priv \<Rightarrow>
          (case thumb (proofKey sg priv) of
             Inl err \<Rightarrow> Inl (Wrapf STR ''atoltest: prover thumbprint: %w'' [] err)
           | Inr jkt \<Rightarrow>
               (case proofSigner sg priv of
                  Some err \<Rightarrow> Inl (Wrapf STR ''atoltest: prover signer: %w'' [] err)
                | None \<Rightarrow> Inr \<lparr>pvPriv = priv, pvJKT = jkt\<rparr>)))"

definition Proof ::
    "('priv, 'key, 'pkey) Signing \<Rightarrow> (string \<Rightarrow> string) \<Rightarrow> int \<Rightarrow> string res \<Rightarrow> string \<Rightarrow> string \<Rightarrow> string \<Rightarrow> 'priv DPoPProver \<Rightarrow> string res" where
  "Proof sg hash now random method url accessToken p =
     (case random of
        Inl err \<Rightarrow> Inl (Wrapf STR ''atoltest: generate jti: %w'' [] err)
      | Inr jti \<Rightarrow>
          (case signProof sg (pvPriv p) \<lparr>clJTI = jti, clHTM = method, clHTU = url,
                  clATH = (if accessToken \<noteq> [] then hash accessToken else []), clIAT = unix now\<rparr> of
             Inl err \<Rightarrow> Inl (Wrapf STR ''atoltest: sign proof: %w'' [] err)
           | Inr tok \<Rightarrow> Inr tok))"

section \<open>What the kit relies on\<close>

text \<open>
  The JOSE library verifies what it signed: headers, claims and, after the JSON round trip with its omitted
  empty fields, the custom claims; and it accepts registered claims for the right issuer and
  audience between issue and expiry, up to the leeway.
\<close>

definition decoded :: "atolClaims \<Rightarrow> AtolClaims" where
  "decoded c =
     \<lparr>cOrgID = acOrgID c, cPlan = acPlan c, cRoles = (if acRoles c = [] then None else Some (acRoles c)), cAuthMethod = acAuthMethod c,
      cMFAVerified = acMFAVerified c, cEmailVerified = acEmailVerified c, cTrustDomain = acTrustDomain c, cAuthTime = acAuthTime c,
      cIdentityID = acIdentityID c, cIdentityScheme = acIdentityScheme c, cWrappedDEK = [], cCnf = acCnf c\<rparr>"

definition tokens_verify :: "('tok, 'key) TokenLib \<Rightarrow> ('priv, 'key, 'pkey) Signing \<Rightarrow> bool" where
  "tokens_verify lib sg \<longleftrightarrow>
     (\<forall>priv kid typ std custom raw. signToken sg priv kid typ std custom = Inr raw \<longrightarrow> raw \<noteq> [] \<and>
        (\<exists>tok. parseToken lib [''RS256''] raw = Inr tok \<and>
           tokenHeaders lib tok = [\<lparr>thKeyID = kid, thTyp = (if typ = [] then None else Some typ)\<rparr>] \<and>
           tokenClaims lib (publicKey sg priv) tok = Inr (std, decoded custom)))"

definition claims_validate :: "('tok, 'key) TokenLib \<Rightarrow> bool" where
  "claims_validate lib \<longleftrightarrow>
     (\<forall>std aud now leeway expiry iat. (\<forall>a. aud = Some a \<longrightarrow> a \<in> set (sdAudience std)) \<longrightarrow>
        sdNotBefore std = None \<longrightarrow> sdExpiry std = Some expiry \<longrightarrow> now - leeway \<le> expiry * seconds \<longrightarrow>
        sdIssuedAt std = Some iat \<longrightarrow> iat * seconds \<le> now + leeway \<longrightarrow> validateWithLeeway lib std (sdIssuer std) aud now leeway = None)"

definition proofs_verify :: "('tok, 'pkey) Jose \<Rightarrow> ('priv, 'key, 'pkey) Signing \<Rightarrow> bool" where
  "proofs_verify js sg \<longleftrightarrow>
     (\<forall>priv claims raw. signProof sg priv claims = Inr raw \<longrightarrow> raw \<noteq> [] \<and> isPublic js (proofKey sg priv) \<and> isEcOrRsa js (proofKey sg priv) \<and>
        (\<exists>tok. parseProof js DPoPSupportedAlgs raw = Inr tok \<and>
           proofHeaders js tok = [\<lparr>hdTyp = Some ''dpop+jwt'', hdKey = Some (proofKey sg priv)\<rparr>] \<and>
           proofClaims js (proofKey sg priv) tok = Inr claims))"

section \<open>Tokens and proofs are accepted\<close>

lemma unix_bounds: "unix t * seconds \<le> t" "t < unix t * seconds + seconds"
  by (simp_all add: unix_def seconds_def)

lemma time_Unix_id: "0 \<le> sec \<Longrightarrow> sec < 2 ^ 62 \<Longrightarrow> time_Unix sec = sec * seconds"
  by (simp add: time_Unix_def)

lemma MintToken_valid:
  assumes "tokens_verify lib sg" and "claims_validate lib"
    and "MintToken sg mintNow random opts f = Some raw" and "cfg = fold applyOption opts defaultTokenConfig"
    and "tvIssuer tv = tfIssuer f" and "tvAudience tv \<in> {[], tcAudience cfg}" and "tvRequiredType tv \<in> {[], tcTyp cfg}"
    and "findKey (tfKid f) st = Some (Inr [publicKey sg (tfPrivateKey f)], st')"
    and "mintNow \<le> now + tokenValidationLeeway" and "now + seconds \<le> mintNow + tcExpiry cfg + tokenValidationLeeway"
  shows "raw \<noteq> [] \<and> (\<exists>jti. (if tcJTI cfg = [] then random else Inr (tcJTI cfg)) = Inr jti \<and> ValidateToken lib findKey tv now raw st =
     Some (Inr (principalOf (standardClaims mintNow (tfIssuer f) jti cfg) (decoded (customClaims cfg)),
       identityOf (decoded (customClaims cfg)), decoded (customClaims cfg), jti), st'))"
proof -
  from assms(3,4) obtain jti where j: "(if tcJTI cfg = [] then random else Inr (tcJTI cfg)) = Inr jti"
    and sgn: "signToken sg (tfPrivateKey f) (tfKid f) (tcTyp cfg) (standardClaims mintNow (tfIssuer f) jti cfg) (customClaims cfg) = Inr raw"
    by (auto simp: MintToken_def Let_def split: sum.splits if_splits)
  with assms(1) obtain tok where t: "raw \<noteq> []" "parseToken lib [''RS256''] raw = Inr tok"
    "tokenHeaders lib tok = [\<lparr>thKeyID = tfKid f, thTyp = (if tcTyp cfg = [] then None else Some (tcTyp cfg))\<rparr>]"
    "tokenClaims lib (publicKey sg (tfPrivateKey f)) tok = Inr (standardClaims mintNow (tfIssuer f) jti cfg, decoded (customClaims cfg))"
    unfolding tokens_verify_def by blast
  have tm: "now - tokenValidationLeeway \<le> unix (mintNow + tcExpiry cfg) * seconds" "unix mintNow * seconds \<le> now + tokenValidationLeeway"
    using assms(9,10) unix_bounds [of mintNow] unix_bounds [of "mintNow + tcExpiry cfg"] by simp_all
  have "validateWithLeeway lib (standardClaims mintNow (tfIssuer f) jti cfg) (sdIssuer (standardClaims mintNow (tfIssuer f) jti cfg))
      (if tvAudience tv \<noteq> [] then Some (tvAudience tv) else None) now tokenValidationLeeway = None"
    by (rule assms(2) [unfolded claims_validate_def, rule_format, OF _ _ _ tm(1) _ tm(2)])
      (use assms(6) in \<open>auto simp: standardClaims_def split: if_splits\<close>)
  then have "validateWithLeeway lib (standardClaims mintNow (tfIssuer f) jti cfg) (tvIssuer tv)
      (if tvAudience tv \<noteq> [] then Some (tvAudience tv) else None) now tokenValidationLeeway = None"
    using assms(5) by (simp add: standardClaims_def)
  with t assms(7,8) j show ?thesis by (auto simp: ValidateToken_def Let_def standardClaims_def)
qed

lemma Proof_valid:
  assumes "proofs_verify js sg" and "equalFold js method method"
    and "Proof sg (tokenHash js) mintNow (Inr jti) method url token p = Inr raw" and "thumbprint js (proofKey sg (pvPriv p)) = Inr (pvJKT p)"
    and "jti \<noteq> []" and "jkt \<in> {[], pvJKT p}" and "token \<noteq> []" and "tokenHash js token \<noteq> []"
    and "seconds \<le> mintNow" "mintNow < 2 ^ 62" and "mintNow \<le> now + skew v" and "now + seconds \<le> mintNow + maxAge v + skew v"
    and "jti \<notin> fst ` set g"
  shows "raw \<noteq> [] \<and> (\<exists>pf g'. validateString js CheckAndRecord v now gnow raw method url jkt token g = (Inr pf, g'))"
proof -
  let ?c = "\<lparr>clJTI = jti, clHTM = method, clHTU = url, clATH = tokenHash js token, clIAT = unix mintNow\<rparr>"
  from assms(3,7) have "signProof sg (pvPriv p) ?c = Inr raw" by (simp add: Proof_def split: sum.splits)
  with assms(1) obtain tok where t: "raw \<noteq> []" "isPublic js (proofKey sg (pvPriv p))" "isEcOrRsa js (proofKey sg (pvPriv p))"
    "parseProof js DPoPSupportedAlgs raw = Inr tok" "proofHeaders js tok = [\<lparr>hdTyp = Some ''dpop+jwt'', hdKey = Some (proofKey sg (pvPriv p))\<rparr>]"
    "proofClaims js (proofKey sg (pvPriv p)) tok = Inr ?c"
    unfolding proofs_verify_def by blast
  have u: "0 < unix mintNow" "unix mintNow < 2 ^ 62" using assms(9,10) unix_bounds [of mintNow] by (simp_all add: seconds_def)
  then have iat: "time_Unix (unix mintNow) = unix mintNow * seconds" by (intro time_Unix_id) simp_all
  have "checkProof js v now raw method url token = Inr (proofKey sg (pvPriv p), ?c)"
    using t assms(2,5,7,8,11,12) u unix_bounds [of mintNow] by (auto simp: checkProof_def iat)
  moreover have "map_of (filter (\<lambda>(_, t). \<not> t < gnow) g) jti = None" using assms(13) by (force simp: map_of_eq_None_iff)
  ultimately show ?thesis using t(1) assms(4,6) by (auto simp: validateString_def CheckAndRecord_def Let_def)
qed

text \<open>A fetcher that was never asked before finds the factory's key at the factory's endpoint.\<close>

definition keysOf :: "(string \<times> 'key) list \<Rightarrow> string \<Rightarrow> 'key list" where
  "keysOf ks kid = map snd (filter (\<lambda>(k, _). k = kid) ks)"

lemma FindKey_factory:
  assumes "rnOthers g = (\<lambda>f. f)" and "rnAnswer g = Fetched (handleJWKS sg f)"
  shows "\<exists>st. FindKey keysOf url (tfKid f) readNow g rounds NewJWKSFetcher = Some (Inr [publicKey sg (tfPrivateKey f)], st)"
  using assms by (simp add: FindKey_def GetKeys_def refresh_Jwks_def cached_def NewJWKSFetcher_def fetchLocked_def Let_def handleJWKS_def keysOf_def)

lemma NewDPoPProver_jkt: "NewDPoPProver sg thumb generated = Inr p \<Longrightarrow> thumb (proofKey sg (pvPriv p)) = Inr (pvJKT p)"
  by (auto simp: NewDPoPProver_def split: sum.splits option.splits)

text \<open>
  C20. A request made with the test kit passes the SDK's real middleware. Take a token minted by the factory, bound to
  the prover's key, and the prover's proof for this method, this URI and this token, in the
  \<open>Authorization\<close> and \<open>DPoP\<close> headers, and a new key fetcher pointed at the factory's endpoint. If the validator expects the factory's issuer
  and the token's audience and type, the clocks are within the leeways, the session is not revoked
  and the proof's identifier is fresh, then the handler runs, for the principal of the token's options.
\<close>

theorem kit_request_accepted:
  assumes lib: "tokens_verify (eLib e) sg" "claims_validate (eLib e)" "proofs_verify (eJose e) sg" "equalFold (eJose e) (hrMethod r) (hrMethod r)"
      "tokenHash (eJose e) token \<noteq> []" "\<not> foldEq (eStd e) ''DPoP'' ''Bearer''" "foldEq (eStd e) ''DPoP'' ''DPoP''"
    and keys: "eFindKey e = (\<lambda>kid. FindKey keysOf url kid readNow g rounds)" "sFetcher s = NewJWKSFetcher"
      "rnOthers g = (\<lambda>f. f)" "rnAnswer g = Fetched (handleJWKS sg f)"
    and mint: "MintToken sg mintNow random opts f = Some token" "cfg = fold applyOption opts defaultTokenConfig"
      "NewDPoPProver sg (thumbprint (eJose e)) generated = Inr p" "tcJKT cfg = pvJKT p"
      "Proof sg (tokenHash (eJose e)) proofNow (Inr jti) (hrMethod r)
         (reconstructRequestURI (eJose e) (lower (eStd e)) (trim (eStd e)) r) token p = Inr pf"
    and request: "Header_Get ''Authorization'' r = ''DPoP '' @ token" "Header_Get ''DPoP'' r = pf"
    and accepts: "eValidator e = Some v" "tvIssuer v = tfIssuer f" "tvAudience v \<in> {[], tcAudience cfg}" "tvRequiredType v \<in> {[], tcTyp cfg}"
      "eGuard e = CheckAndRecord" "jti \<noteq> []" "jti \<notin> fst ` set (sGuard s)"
      "\<forall>sid sv. (if tcJTI cfg = [] then random else Inr (tcJTI cfg)) = Inr sid \<longrightarrow> sSession s = Some sv \<longrightarrow> \<not> IsRevoked sid sv"
    and clocks: "mintNow \<le> wTokenNow w + tokenValidationLeeway" "wTokenNow w + seconds \<le> mintNow + tcExpiry cfg + tokenValidationLeeway"
      "seconds \<le> proofNow" "proofNow < 2 ^ 62" "proofNow \<le> wProofNow w + skew (eDPoP e)"
      "wProofNow w + seconds \<le> proofNow + maxAge (eDPoP e) + skew (eDPoP e)"
  shows "\<exists>ctx' s' who. HTTPMiddleware e w r ctx s = Some (Next ctx', s') \<and> xUser ctx' = Some who \<and> pUserID who = tcSubject cfg \<and>
    pOrgID who = tcOrgID cfg \<and> pRoles who = (if tcRoles cfg = [] then None else Some (tcRoles cfg)) \<and> pMFAVerified who = tcMFAVerified cfg"
proof -
  let ?c = "decoded (customClaims cfg)"
  obtain st where fk: "eFindKey e (tfKid f) (sFetcher s) = Some (Inr [publicKey sg (tfPrivateKey f)], st)"
    unfolding keys(1,2) using FindKey_factory [OF keys(3,4)] by blast
  from MintToken_valid [where findKey = "eFindKey e" and st = "sFetcher s", OF lib(1,2) mint(1,2) accepts(2-4) fk clocks(1,2)] obtain sid where
    ne: "token \<noteq> []" and sid: "(if tcJTI cfg = [] then random else Inr (tcJTI cfg)) = Inr sid" and
    vt: "ValidateToken (eLib e) (eFindKey e) v (wTokenNow w) token (sFetcher s) =
      Some (Inr (principalOf (standardClaims mintNow (tfIssuer f) sid cfg) ?c, identityOf ?c, ?c, sid), st)" by blast
  have jkt: "boundJKT ?c \<in> {[], pvJKT p}" using mint(4) by (simp add: boundJKT_def decoded_def customClaims_def)
  from Proof_valid [OF lib(3,4) mint(5) NewDPoPProver_jkt [OF mint(3)] accepts(6) jkt ne lib(5) clocks(3-6) accepts(7)]
  have pf: "\<exists>q g. Validate (eJose e) (lower (eStd e)) (trim (eStd e)) (eGuard e) (eDPoP e) (wProofNow w) (wGuardNow w) r
      (boundJKT ?c) token (sGuard s) = (Inr q, g)"
    by (simp add: Validate_def Let_def request(2) accepts(5))
  have "extractAuthToken (eStd e) (Header_Get ''Authorization'' r) = (''DPoP'', token)"
    using lib(6,7) by (simp add: request(1) extractAuthToken_def)
  from HTTPMiddleware_accepts [OF this ne _ accepts(1) vt, where ctx = ctx] lib(7) accepts(8) sid pf show ?thesis
    by (fastforce simp: principalOf_def decoded_def customClaims_def standardClaims_def)
qed

text \<open>
  The tokens of the mock provider validate for an SDK that trusts it, up to the hour its reply announces, for the
  requested subject and organisation.
\<close>

lemma handleToken_valid:
  assumes "tokens_verify lib sg" and "claims_validate lib"
    and "handleToken sg decode mintNow random body f = Some (200, reply)" and "map_of reply ''access_token'' = Some (JStr token)"
    and "tvIssuer tv = tfIssuer f" "tvAudience tv = []" "tvRequiredType tv = []"
    and "findKey (tfKid f) st = Some (Inr [publicKey sg (tfPrivateKey f)], st')"
    and "mintNow \<le> now" and "now + seconds \<le> mintNow + 3600 * seconds"
  shows "\<exists>req who rest. (body = Inr [] \<and> trSub req = [] \<and> trOrgID req = [] \<or> (\<exists>b. body = Inr b \<and> decode b = Inr req)) \<and>
    ValidateToken lib findKey tv now token st = Some (Inr (who, rest), st') \<and>
    pUserID who = (if trSub req = [] then ''test-user'' else trSub req) \<and> pOrgID who = trOrgID req"
proof -
  from assms(3,4) obtain b req where b: "body = Inr b" and req: "(if b = [] then Inr \<lparr>trSub = [], trEmail = [], trOrgID = [], trRoles = [], trPlan = []\<rparr>
      else decode b) = Inr req" and mint: "MintToken sg mintNow random (requestOptions req) f = Some token"
    by (auto simp: handleToken_def split: sum.splits option.splits if_splits)
  let ?cfg = "fold applyOption (requestOptions req) defaultTokenConfig"
  have cfg: "tcSubject ?cfg = (if trSub req = [] then ''test-user'' else trSub req)" "tcOrgID ?cfg = trOrgID req"
    "tcExpiry ?cfg = 3600 * seconds"
    by (simp_all add: requestOptions_def defaultTokenConfig_def)
  have le: "mintNow \<le> now + tokenValidationLeeway" "now + seconds \<le> mintNow + tcExpiry ?cfg + tokenValidationLeeway"
    using assms(9,10) by (simp_all add: cfg tokenValidationLeeway_def seconds_def)
  from assms(6,7) have "tvAudience tv \<in> {[], tcAudience ?cfg}" "tvRequiredType tv \<in> {[], tcTyp ?cfg}" by simp_all
  from MintToken_valid [where findKey = findKey and st = st, OF assms(1,2) mint refl assms(5) this assms(8) le] obtain who rest where
    "ValidateToken lib findKey tv now token st = Some (Inr (who, rest), st')" "pUserID who = tcSubject ?cfg" "pOrgID who = tcOrgID ?cfg"
    by (auto simp: principalOf_def standardClaims_def decoded_def customClaims_def)
  moreover have "body = Inr [] \<and> trSub req = [] \<and> trOrgID req = [] \<or> (\<exists>b. body = Inr b \<and> decode b = Inr req)"
    using b req by (auto split: if_splits)
  ultimately show ?thesis unfolding cfg by blast
qed

section \<open>Sample kit\<close>

text \<open>A library that signs one token and one proof, and verifies these.\<close>

definition kitOptions :: "TokenOption list" where
  "kitOptions = [WithSubject ''ann'', WithOrgID ''acme'', WithJTI ''s1'', WithConfirmation ''pk'', WithTokenType ''at+jwt'']"

definition kitConfig :: tokenConfig where
  "kitConfig = fold applyOption kitOptions defaultTokenConfig"

definition kitFactory :: "string TokenFactory" where
  "kitFactory = \<lparr>tfPrivateKey = ''sk'', tfKid = ''k1'', tfServer = ''iss'', tfIssuer = ''iss''\<rparr>"

definition kitStd :: stdClaims where
  "kitStd = standardClaims (1000 * seconds) ''iss'' ''s1'' kitConfig"

definition kitProofClaims :: dpopClaims where
  "kitProofClaims = \<lparr>clJTI = ''n1'', clHTM = ''GET'', clHTU = ''https://rs/a'', clATH = ''tok'', clIAT = 1005\<rparr>"

definition kitSigning :: "(string, string, string) Signing" where
  "kitSigning =
     \<lparr>publicKey = (\<lambda>k. k),
      signToken = (\<lambda>priv kid typ std custom.
        if kid = ''k1'' \<and> typ = ''at+jwt'' \<and> std = kitStd \<and> custom = customClaims kitConfig then Inr ''tok'' else Inl (ExternalError STR ''sign'')),
      proofKey = (\<lambda>_. ''pk''), proofSigner = (\<lambda>_. None),
      signProof = (\<lambda>_ claims. if claims = kitProofClaims then Inr ''prf'' else Inl (ExternalError STR ''sign''))\<rparr>"

definition kitLib :: "(string, string) TokenLib" where
  "kitLib =
     \<lparr>parseToken = (\<lambda>_. Inr), tokenHeaders = (\<lambda>_. [\<lparr>thKeyID = ''k1'', thTyp = Some ''at+jwt''\<rparr>]),
      tokenClaims = (\<lambda>_ _. Inr (kitStd, decoded (customClaims kitConfig))),
      validateWithLeeway = (\<lambda>std issuer _ _ _. if sdIssuer std = issuer then None else Some (ExternalError STR ''issuer''))\<rparr>"

definition kitJose :: "(string, string) Jose" where
  "kitJose = sampleJose\<lparr>proofHeaders := (\<lambda>_. [\<lparr>hdTyp = Some ''dpop+jwt'', hdKey = Some ''pk''\<rparr>]), parseProof := (\<lambda>_. Inr),
     proofClaims := (\<lambda>_ _. Inr kitProofClaims)\<rparr>"

definition kitRound :: "(string \<times> string) list roundIn" where
  "kitRound = \<lparr>rnOthers = (\<lambda>f. f), rnSince = 0, rnForced = 0, rnFetched = 0, rnAnswer = Fetched (handleJWKS kitSigning kitFactory),
     rnCancelled = None\<rparr>"

definition kitAuth :: "(string, string, string, string, (string \<times> string) list Fetcher, memoryReplayGuard) AuthEngine" where
  "kitAuth =
     \<lparr>eRequireDPoP = True, eLib = kitLib, eFindKey = (\<lambda>kid. FindKey keysOf ''u'' kid 0 kitRound []),
      eValidator = Some \<lparr>tvIssuer = ''iss'', tvAudience = [], tvRequiredType = ''at+jwt''\<rparr>, eJose = kitJose, eStd = asciiStd,
      eGuard = CheckAndRecord, eDPoP = NewDPoPValidator True\<rparr>"

definition kitState :: "((string \<times> string) list Fetcher, memoryReplayGuard) AuthState" where
  "kitState = \<lparr>sFetcher = NewJWKSFetcher, sSession = None, sDrift = None, sGuard = newMemoryReplayGuard\<rparr>"

definition kitRequest :: HttpRequest where
  "kitRequest = \<lparr>hrMethod = ''GET'', hrHost = ''rs'', hrPath = ''/a'', hrTLS = True,
     hrHeaders = [(''Authorization'', ''DPoP tok''), (''DPoP'', ''prf'')], hrRemoteAddr = ''10.0.0.1''\<rparr>"

lemma kitConfig_fields:
  "tcJTI kitConfig = ''s1''" "tcJKT kitConfig = ''pk''" "tcTyp kitConfig = ''at+jwt''" "tcAudience kitConfig = []" "tcExpiry kitConfig = 3600 * seconds"
  by (simp_all add: kitConfig_def kitOptions_def defaultTokenConfig_def)

lemma kit_library: "tokens_verify kitLib kitSigning" "claims_validate kitLib" "proofs_verify kitJose kitSigning"
  by (simp_all add: tokens_verify_def claims_validate_def proofs_verify_def kitLib_def kitSigning_def kitJose_def sampleJose_def)

lemma kit_signs:
  "MintToken kitSigning (1000 * seconds) (Inl ErrStale) kitOptions kitFactory = Some ''tok''"
  "NewDPoPProver kitSigning (thumbprint kitJose) (Inr ''psk'') = Inr \<lparr>pvPriv = ''psk'', pvJKT = ''pk''\<rparr>"
  "Proof kitSigning (tokenHash kitJose) (1005 * seconds) (Inr ''n1'') ''GET''
     (reconstructRequestURI kitJose (lower asciiStd) (trim asciiStd) kitRequest) ''tok'' \<lparr>pvPriv = ''psk'', pvJKT = ''pk''\<rparr> = Inr ''prf''"
  by (simp add: MintToken_def kitConfig_def [symmetric] kitConfig_fields Let_def kitSigning_def kitFactory_def kitStd_def)
    (simp_all add: NewDPoPProver_def Proof_def kitSigning_def kitJose_def sampleJose_def reconstructRequestURI_def Let_def kitRequest_def
      Header_Get_def kitProofClaims_def unix_def seconds_def)

theorem kit_request_accepted_witness:
  "\<exists>ctx' s' who. HTTPMiddleware kitAuth sampleWorld kitRequest noCtx kitState = Some (Next ctx', s') \<and> xUser ctx' = Some who \<and>
     pUserID who = ''ann'' \<and> pOrgID who = ''acme''"
proof -
  have "\<exists>ctx' s' who. HTTPMiddleware kitAuth sampleWorld kitRequest noCtx kitState = Some (Next ctx', s') \<and> xUser ctx' = Some who \<and>
      pUserID who = tcSubject kitConfig \<and> pOrgID who = tcOrgID kitConfig \<and>
      pRoles who = (if tcRoles kitConfig = [] then None else Some (tcRoles kitConfig)) \<and> pMFAVerified who = tcMFAVerified kitConfig"
    by (rule kit_request_accepted [where sg = kitSigning and token = "''tok''" and url = "''u''" and readNow = 0 and g = kitRound and rounds = "[]" and
          f = kitFactory and mintNow = "1000 * seconds" and random = "Inl ErrStale" and opts = kitOptions and generated = "Inr ''psk''" and
          p = "\<lparr>pvPriv = ''psk'', pvJKT = ''pk''\<rparr>" and proofNow = "1005 * seconds" and jti = "''n1''" and pf = "''prf''" and
          v = "\<lparr>tvIssuer = ''iss'', tvAudience = [], tvRequiredType = ''at+jwt''\<rparr>"])
      (use kit_library kit_signs in \<open>simp_all add: kitAuth_def kitState_def kitRound_def kitConfig_fields kitRequest_def kitFactory_def
        sampleWorld_def newMemoryReplayGuard_def NewDPoPValidator_def DefaultDPoPSkew_def DefaultDPoPMaxAge_def tokenValidationLeeway_def
        seconds_def kitConfig_def [symmetric] asciiStd_def Header_Get_def\<close>,
       simp_all add: kitJose_def sampleJose_def asciiFold_def asciiLower_def kitConfig_def)
  moreover have "tcSubject kitConfig = ''ann''" "tcOrgID kitConfig = ''acme''" by (simp_all add: kitConfig_def kitOptions_def)
  ultimately show ?thesis by auto
qed

end
