(* ===== verification/Test_Engine.thy ===== *)
theory Test_Engine
  imports Sdk_Serving Test_Kit
begin

text \<open>
  The fixtures of the test kit: request contexts (\<open>atoltest/context.go\<close>), the middleware that injects a principal
  (\<open>atoltest/middleware.go\<close>) and the engine, an SDK in local mode over a model and tuples given as options
  (\<open>atoltest/atoltest.go\<close>). \<open>t.Fatalf\<close> is the error of a sum.
\<close>

section \<open>Contexts\<close>

definition emptyPrincipal :: Principal where
  "emptyPrincipal = \<lparr>pUserID = [], pIdentityID = [], pOrgID = [], pEmail = [], pEmailVerified = False, pAuthMethod = ''test'', pRoles = None,
     pPlan = [], pMFAVerified = False, pTrustDomain = [], pAuthTime = zeroTime, pClientIP = []\<rparr>"

record ContextBuilder =
  cbParent :: ReqCtx
  cbPrincipal :: Principal
  cbIdentity :: "Identity option"
  cbDevice :: "DeviceContext option"

definition FromContext :: "ReqCtx \<Rightarrow> ContextBuilder" where
  "FromContext ctx = \<lparr>cbParent = ctx, cbPrincipal = emptyPrincipal, cbIdentity = None, cbDevice = None\<rparr>"

definition backgroundReq :: ReqCtx where
  "backgroundReq = \<lparr>rcCtx = rootCtx, rcUser = None, rcIdentity = None, rcDevice = None\<rparr>"

definition Context_Kit :: ContextBuilder where
  "Context_Kit = FromContext backgroundReq"

datatype builderCall =
    BUser string | BEmail string | BOrg string | BRoles "string list option" | BPlan string | BAuthMethod string | BMFA
  | BIdentity string string | BTrustDomain string | BClientIP string | BAuthTime int | BDevice "DeviceContext option"

fun builderStep :: "builderCall \<Rightarrow> ContextBuilder \<Rightarrow> ContextBuilder" where
  "builderStep (BUser userID) b = b\<lparr>cbPrincipal := (cbPrincipal b)\<lparr>pUserID := userID\<rparr>\<rparr>"
| "builderStep (BEmail email) b = b\<lparr>cbPrincipal := (cbPrincipal b)\<lparr>pEmail := email\<rparr>\<rparr>"
| "builderStep (BOrg org) b = b\<lparr>cbPrincipal := (cbPrincipal b)\<lparr>pOrgID := org\<rparr>\<rparr>"
| "builderStep (BRoles roles) b = b\<lparr>cbPrincipal := (cbPrincipal b)\<lparr>pRoles := roles\<rparr>\<rparr>"
| "builderStep (BPlan plan) b = b\<lparr>cbPrincipal := (cbPrincipal b)\<lparr>pPlan := plan\<rparr>\<rparr>"
| "builderStep (BAuthMethod method) b = b\<lparr>cbPrincipal := (cbPrincipal b)\<lparr>pAuthMethod := method\<rparr>\<rparr>"
| "builderStep BMFA b = b\<lparr>cbPrincipal := (cbPrincipal b)\<lparr>pMFAVerified := True\<rparr>\<rparr>"
| "builderStep (BIdentity ident scheme) b = b\<lparr>cbIdentity := Some \<lparr>idID = ident, idScheme = scheme, idAuthMethod = []\<rparr>\<rparr>"
| "builderStep (BTrustDomain domain) b = b\<lparr>cbPrincipal := (cbPrincipal b)\<lparr>pTrustDomain := domain\<rparr>\<rparr>"
| "builderStep (BClientIP ip) b = b\<lparr>cbPrincipal := (cbPrincipal b)\<lparr>pClientIP := ip\<rparr>\<rparr>"
| "builderStep (BAuthTime t) b = b\<lparr>cbPrincipal := (cbPrincipal b)\<lparr>pAuthTime := t\<rparr>\<rparr>"
| "builderStep (BDevice dc) b = b\<lparr>cbDevice := dc\<rparr>"

definition Build :: "ContextBuilder \<Rightarrow> ReqCtx" where
  "Build b =
     (let ctx = (cbParent b)\<lparr>rcUser := Some (cbPrincipal b)\<rparr>;
          ctx1 = (if cbIdentity b \<noteq> None then ctx\<lparr>rcIdentity := cbIdentity b\<rparr> else ctx)
      in if cbDevice b \<noteq> None then ctx1\<lparr>rcDevice := cbDevice b\<rparr> else ctx1)"

text \<open>The middleware, on the context of each request.\<close>

datatype ContextOption = WithMiddlewareOrg string | WithMiddlewareRoles "string list option" | WithMiddlewarePlan string

fun contextOption :: "ContextOption \<Rightarrow> Principal \<Rightarrow> Principal" where
  "contextOption (WithMiddlewareOrg org) p = p\<lparr>pOrgID := org\<rparr>"
| "contextOption (WithMiddlewareRoles roles) p = p\<lparr>pRoles := roles\<rparr>"
| "contextOption (WithMiddlewarePlan plan) p = p\<lparr>pPlan := plan\<rparr>"

definition AuthMiddleware :: "string \<Rightarrow> string \<Rightarrow> ContextOption list \<Rightarrow> ReqCtx \<Rightarrow> ReqCtx" where
  "AuthMiddleware userID email opts ctx =
     ctx\<lparr>rcUser := Some (fold contextOption opts (emptyPrincipal\<lparr>pUserID := userID, pEmail := email\<rparr>))\<rparr>"

section \<open>The engine\<close>

record FixtureTuple =
  fxUser :: string
  fxRelation :: string
  fxObject :: string

record 'priv engineConfig =
  ecModelYAML :: "string option"
  ecModelPath :: string
  ecTuples :: "FixtureTuple list"
  ecPolicyBundle :: "string option"
  ecPolicyData :: jobj
  ecAudience :: string
  ecTokenFactory :: "'priv TokenFactory option"

datatype 'priv EngineOption =
    WithModel "string option" | WithModelFile string | WithTuples "FixtureTuple list" | WithPolicy "string option" jobj
  | WithTestAudience string | WithTokenFactory "'priv TokenFactory option"

fun engineOption :: "'priv EngineOption \<Rightarrow> 'priv engineConfig \<Rightarrow> 'priv engineConfig" where
  "engineOption (WithModel yaml) c = c\<lparr>ecModelYAML := yaml\<rparr>"
| "engineOption (WithModelFile path) c = c\<lparr>ecModelPath := path\<rparr>"
| "engineOption (WithTuples ts) c = c\<lparr>ecTuples := ecTuples c @ ts\<rparr>"
| "engineOption (WithPolicy bundle d) c = c\<lparr>ecPolicyBundle := bundle, ecPolicyData := d\<rparr>"
| "engineOption (WithTestAudience aud) c = c\<lparr>ecAudience := aud\<rparr>"
| "engineOption (WithTokenFactory f) c = c\<lparr>ecTokenFactory := f\<rparr>"

definition engineConfigOf :: "'priv EngineOption list \<Rightarrow> 'priv engineConfig" where
  "engineConfigOf opts = fold engineOption opts
     \<lparr>ecModelYAML = None, ecModelPath = [], ecTuples = [], ecPolicyBundle = None, ecPolicyData = [], ecAudience = [], ecTokenFactory = None\<rparr>"

text \<open>\<open>Grant\<close> and \<open>Revoke\<close> go to the engine's raw writes, with the background context.\<close>

definition Grant_Kit :: "FixtureTuple \<Rightarrow> ('n, 'c, 'st, 'q) Atol \<Rightarrow> goerror option \<times> ('n, 'c, 'st, 'q) Atol" where
  "Grant_Kit t a =
     (case WriteRawTuple rootCtx (fxUser t) (fxRelation t) (fxObject t) (sdkZanzibar a) of
        (Some err, z) \<Rightarrow> (Some (Wrapf STR ''atoltest.Grant(%s, %s, %s): %v'' [fxUser t, fxRelation t, fxObject t] err), setZanzibar z a)
      | (None, z) \<Rightarrow> (None, setZanzibar z a))"

definition Revoke_Kit :: "FixtureTuple \<Rightarrow> ('n, 'c, 'st, 'q) Atol \<Rightarrow> goerror option \<times> ('n, 'c, 'st, 'q) Atol" where
  "Revoke_Kit t a =
     (case DeleteRawTuple rootCtx (fxUser t) (fxRelation t) (fxObject t) (sdkZanzibar a) of
        (Some err, z) \<Rightarrow> (Some (Wrapf STR ''atoltest.Revoke(%s, %s, %s): %v'' [fxUser t, fxRelation t, fxObject t] err), setZanzibar z a)
      | (None, z) \<Rightarrow> (None, setZanzibar z a))"

definition GrantAll :: "FixtureTuple list \<Rightarrow> ('n, 'c, 'st, 'q) Atol \<Rightarrow> goerror option \<times> ('n, 'c, 'st, 'q) Atol" where
  "GrantAll = first_err_st Grant_Kit"

definition LoadModel_Sdk ::
    "(string \<Rightarrow> yamlModel res) \<Rightarrow> string \<Rightarrow> ('n, 'c, 'st, 'q) Atol \<Rightarrow> goerror option \<times> ('n, 'c, 'st, 'q) Atol" where
  "LoadModel_Sdk unm modelData a = (case LoadModel unm modelData (sdkZanzibar a) of (err, z) \<Rightarrow> (err, setZanzibar z a))"

definition LoadBundle_Sdk ::
    "('mod, 'c, 'st, 'txn, 'q) OPA \<Rightarrow> string \<Rightarrow> jobj \<Rightarrow> ('n, 'c, 'st, 'q) Atol \<Rightarrow> goerror option \<times> ('n, 'c, 'st, 'q) Atol" where
  "LoadBundle_Sdk opa bundleData policyData a =
     (case LoadBundle opa bundleData policyData (engines a) of (err, pe) \<Rightarrow> (err, setEngines pe a))"

definition kitSdkConfig :: "'priv TokenFactory \<Rightarrow> string \<Rightarrow> Config" where
  "kitSdkConfig tf audience =
     \<lparr>cfgControlPlaneURL = [], cfgKeyID = [], cfgSecretKey = [], cfgStoreID = [], cfgZanzibarModelPath = [],
      cfgIssuer = tfIssuer tf, cfgAudience = audience, cfgJWKSUrl = JWKSUrl tf, cfgBootstrapTimeout = 0,
      cfgDisableSync = False, cfgDecisionLogFlushInterval = 0, cfgDecisionLogBufferSize = 0, cfgDeviceEnabled = False,
      cfgDeviceControlPlaneURL = [], cfgDeviceAPIKey = [], cfgRequireDPoP = False, cfgMaxStaleness = 0,
      cfgStalenessMode = StalenessOff, cfgBootstrapInterval = 0\<rparr>"

text \<open>The steps of the constructor after \<open>sdk.New\<close>.\<close>

definition loadModelYAML :: "(string \<Rightarrow> yamlModel res) \<Rightarrow> 'priv engineConfig \<Rightarrow> ('n, 'c, 'st, 'q) Atol \<Rightarrow> goerror option \<times> ('n, 'c, 'st, 'q) Atol" where
  "loadModelYAML unm cfg a =
     (case ecModelYAML cfg of
        None \<Rightarrow> (None, a)
      | Some yaml \<Rightarrow>
          (case LoadModel_Sdk unm yaml a of
             (Some err, a1) \<Rightarrow> (Some (Wrapf STR ''atoltest.NewEngine: load model: %v'' [] err), a1)
           | (None, a1) \<Rightarrow> (None, a1)))"

definition loadModelFile ::
    "(string \<Rightarrow> yamlModel res) \<Rightarrow> (string \<Rightarrow> string res) \<Rightarrow> 'priv engineConfig \<Rightarrow> ('n, 'c, 'st, 'q) Atol \<Rightarrow>
     goerror option \<times> ('n, 'c, 'st, 'q) Atol" where
  "loadModelFile unm readFile cfg a =
     (if ecModelPath cfg = [] then (None, a)
      else case readFile (ecModelPath cfg) of
        Inl err \<Rightarrow> (Some (Wrapf STR ''atoltest.NewEngine: read model file %s: %v'' [ecModelPath cfg] err), a)
      | Inr modelData \<Rightarrow>
          (case LoadModel_Sdk unm modelData a of
             (Some err, a1) \<Rightarrow> (Some (Wrapf STR ''atoltest.NewEngine: load model from %s: %v'' [ecModelPath cfg] err), a1)
           | (None, a1) \<Rightarrow> (None, a1)))"

definition loadPolicy ::
    "('mod, 'c, 'st, 'txn, 'q) OPA \<Rightarrow> 'priv engineConfig \<Rightarrow> ('n, 'c, 'st, 'q) Atol \<Rightarrow> goerror option \<times> ('n, 'c, 'st, 'q) Atol" where
  "loadPolicy opa cfg a =
     (case ecPolicyBundle cfg of
        None \<Rightarrow> (None, a)
      | Some bundle \<Rightarrow>
          (case LoadBundle_Sdk opa bundle (ecPolicyData cfg) a of
             (Some err, a1) \<Rightarrow> (Some (Wrapf STR ''atoltest.NewEngine: load policy: %v'' [] err), a1)
           | (None, a1) \<Rightarrow> (None, a1)))"

text \<open>\<open>newFactory\<close> is what \<open>NewTokenFactory\<close> gives; \<open>None\<close> is the panic of \<open>sdk.New\<close>.\<close>

definition NewEngine_Kit ::
    "('mod, 'c, 'st, 'txn, 'q) OPA \<Rightarrow> CursorCodec \<Rightarrow> (string \<Rightarrow> yamlModel res) \<Rightarrow> (string \<Rightarrow> string res) \<Rightarrow> 'priv TokenFactory res \<Rightarrow>
     int \<Rightarrow> 'n \<Rightarrow> 'priv EngineOption list \<Rightarrow> (('n, 'c, 'st, 'q) Atol \<times> 'priv TokenFactory) res option" where
  "NewEngine_Kit opa codec unm readFile newFactory now host opts =
     (let cfg = engineConfigOf opts in
      case (case ecTokenFactory cfg of Some tf \<Rightarrow> Inr tf | None \<Rightarrow> newFactory) of
        Inl err \<Rightarrow> Some (Inl err)
      | Inr tf \<Rightarrow>
          (case NewAtol codec unm readFile None now host
                  \<lparr>noLocalOnly = True, noMaxStaleness = None, noStalenessMode = None, noBootstrapInterval = None\<rparr>
                  (kitSdkConfig tf (ecAudience cfg)) of
             None \<Rightarrow> None
           | Some (Inl err) \<Rightarrow> Some (Inl (Wrapf STR ''atoltest.NewEngine: %v'' [] err))
           | Some (Inr a) \<Rightarrow>
               (case first_err_st (\<lambda>step. step)
                       [loadModelYAML unm cfg, loadModelFile unm readFile cfg, loadPolicy opa cfg, GrantAll (ecTuples cfg)] a of
                  (Some err, _) \<Rightarrow> Some (Inl err)
                | (None, a') \<Rightarrow> Some (Inr (a', tf)))))"

section \<open>The engine decides by its model and its tuples\<close>

text \<open>What the steps of the constructor keep: a local SDK over the memory store, without gate, logger, bundle or tenant models.\<close>

definition fixtureTuple :: "FixtureTuple \<Rightarrow> Tuple" where
  "fixtureTuple t = parseTuple (fxUser t) (fxRelation t) (fxObject t)"

definition kit_sdk :: "('n, 'c, 'st, 'q) Atol \<Rightarrow> bool" where
  "kit_sdk a \<longleftrightarrow> aSync a = None \<and> \<not> aServingGateRequired a \<and> cfgStalenessMode (aConfig a) = StalenessOff \<and> aLogger a = None \<and>
     pServingGate (aPolicy a) = None \<and> pBundle (aPolicy a) = None \<and>
     (let z = pZanzibar (aPolicy a) in over_memory z \<and> matTuples (tuplesState z) = [] \<and> servingGate z = None \<and> eModelStore z = None \<and> cache z = [])"

definition kitTuples :: "('n, 'c, 'st, 'q) Atol \<Rightarrow> Tuple set" where
  "kitTuples a = stored (tuplesState (pZanzibar (aPolicy a)))"

definition kitModel :: "('n, 'c, 'st, 'q) Atol \<Rightarrow> Model option" where
  "kitModel a = map_option tmModel (defaultModel (pZanzibar (aPolicy a)))"

lemmas kit_simps = kit_sdk_def kitTuples_def kitModel_def sdkZanzibar_def setZanzibar_def engines_def setEngines_def Let_def

lemma matTuples_New: "matTuples NewMemoryStore = []"
  by (simp add: NewMemoryStore_def matTuples_def)

lemma NewAtol_kit:
  assumes "NewAtol codec unm readFile None now host
      \<lparr>noLocalOnly = True, noMaxStaleness = None, noStalenessMode = None, noBootstrapInterval = None\<rparr> (kitSdkConfig tf aud) = Some (Inr a)"
  shows "kit_sdk a \<and> kitTuples a = {}"
proof -
  define d where "d = newConfig \<lparr>noLocalOnly = True, noMaxStaleness = None, noStalenessMode = None, noBootstrapInterval = None\<rparr> (kitSdkConfig tf aud)"
  have c: "cfgControlPlaneURL d = []" "cfgStoreID d = []" "cfgZanzibarModelPath d = []" "cfgStalenessMode d = StalenessOff"
    by (simp_all add: d_def newConfig_def defaults_def kitSdkConfig_def Let_def)
  have "aConfig a = d" "aSync a = None" "\<not> aServingGateRequired a" "aLogger a = None"
    "\<exists>x. aPolicy a = NewPolicyEngine (NewEngine (memoryEngineStore codec) None None NewMemoryStore () x)"
    using assms unfolding NewAtol_def d_def [symmetric] by (auto simp: c Let_def)
  with c show ?thesis by (auto simp: kit_simps NewPolicyEngine_def NewEngine_def memoryEngineStore_def over_memory_def matTuples_New)
qed

lemma matTuples_writeLocked: "matTuples (writeLocked t s) = matTuples s"
  by (simp add: matTuples_def writeLocked_def)

lemma LoadModel_Sdk_kit:
  assumes "kit_sdk a" and "LoadModel_Sdk unm yaml a = (None, a')"
  shows "kit_sdk a' \<and> kitTuples a' = kitTuples a \<and> (\<exists>m. Compile unm yaml = Inr m \<and> kitModel a' = Some m)"
  using assms by (auto simp: LoadModel_Sdk_def LoadModel_def notifyModel_def kit_simps over_memory_def split: sum.splits)

lemma Grant_Kit_kit:
  assumes "kit_sdk a" and "wf_tuple (fixtureTuple t)" and "Grant_Kit t a = (None, a')"
  shows "kit_sdk a' \<and> kitTuples a' = insert (fixtureTuple t) (kitTuples a) \<and> kitModel a' = kitModel a"
proof -
  let ?z = "pZanzibar (aPolicy a)" and ?t = "fixtureTuple t"
  obtain z where z: "WriteRawTuple rootCtx (fxUser t) (fxRelation t) (fxObject t) ?z = (None, z)" and a': "a' = a\<lparr>aPolicy := (aPolicy a)\<lparr>pZanzibar := z\<rparr>\<rparr>"
    using assms(1,3) by (auto simp: Grant_Kit_def kit_simps split: prod.splits option.splits)
  have om: "over_memory ?z" using assms(1) by (simp add: kit_simps)
  with z obtain wrap where m: "mutate (recordTupleWrite (eNotifier ?z) (ctxTenant rootCtx)) (tsWrite memoryTupleStore ?t) wrap
      (notifyWrite rootCtx) ?t ?z = (None, z)"
    by (auto simp: WriteRawTuple_def Let_def over_memory_def fixtureTuple_def)
  from mutate_memory_write [OF m refl refl] assms(1,2) om show ?thesis
    by (auto simp: a' kit_simps over_memory_def stored_writeLocked mem_inv_writeLocked matTuples_writeLocked)
qed

lemma GrantAll_kit:
  assumes "kit_sdk a" and "\<forall>t \<in> set ts. wf_tuple (fixtureTuple t)" and "GrantAll ts a = (None, a')"
  shows "kit_sdk a' \<and> kitTuples a' = fixtureTuple ` set ts \<union> kitTuples a \<and> kitModel a' = kitModel a"
  using assms unfolding GrantAll_def
proof (induction ts arbitrary: a)
  case (Cons t ts)
  then obtain a1 where g: "Grant_Kit t a = (None, a1)" "first_err_st Grant_Kit ts a1 = (None, a')"
    by (auto split: prod.splits option.splits)
  with Grant_Kit_kit [OF Cons.prems(1) _ g(1)] Cons.IH [OF _ _ g(2)] Cons.prems(2) show ?case by auto
qed simp

text \<open>The model in force: the file's if a path was given, else the YAML document's.\<close>

definition fixtureModel :: "(string \<Rightarrow> yamlModel res) \<Rightarrow> (string \<Rightarrow> string res) \<Rightarrow> 'priv engineConfig \<Rightarrow> Model option" where
  "fixtureModel unm readFile cfg =
     (case (if ecModelPath cfg \<noteq> [] then (case readFile (ecModelPath cfg) of Inr d \<Rightarrow> Some d | Inl _ \<Rightarrow> None) else ecModelYAML cfg) of
        None \<Rightarrow> None
      | Some d \<Rightarrow> (case Compile unm d of Inr m \<Rightarrow> Some m | Inl _ \<Rightarrow> None))"

lemma NewEngine_Kit_state:
  assumes "NewEngine_Kit opa codec unm readFile newFactory now host opts = Some (Inr (a, tf))"
    and "ecPolicyBundle (engineConfigOf opts) = None" and "\<forall>t \<in> set (ecTuples (engineConfigOf opts)). wf_tuple (fixtureTuple t)"
    and "fixtureModel unm readFile (engineConfigOf opts) = Some m"
  shows "kit_sdk a \<and> kitTuples a = fixtureTuple ` set (ecTuples (engineConfigOf opts)) \<and> kitModel a = Some m"
proof -
  let ?cfg = "engineConfigOf opts"
  from assms(1,2) obtain a0 a1 a2 where
    n: "NewAtol codec unm readFile None now host \<lparr>noLocalOnly = True, noMaxStaleness = None, noStalenessMode = None, noBootstrapInterval = None\<rparr>
        (kitSdkConfig tf (ecAudience ?cfg)) = Some (Inr a0)"
    and y: "loadModelYAML unm ?cfg a0 = (None, a1)" and f: "loadModelFile unm readFile ?cfg a1 = (None, a2)"
    and g: "GrantAll (ecTuples ?cfg) a2 = (None, a)"
    by (auto simp: NewEngine_Kit_def Let_def loadPolicy_def split: sum.splits option.splits prod.splits)
  note k0 = NewAtol_kit [OF n]
  have k1: "kit_sdk a1 \<and> kitTuples a1 = {} \<and> (\<forall>yaml. ecModelYAML ?cfg = Some yaml \<longrightarrow> (\<exists>m. Compile unm yaml = Inr m \<and> kitModel a1 = Some m))"
    using y k0 LoadModel_Sdk_kit [of a0 unm _ a1] by (fastforce simp: loadModelYAML_def split: option.splits prod.splits)
  have k2: "kit_sdk a2 \<and> kitTuples a2 = {} \<and> kitModel a2 = Some m"
  proof (cases "ecModelPath ?cfg = []")
    case True
    with f k1 assms(4) show ?thesis by (auto simp: loadModelFile_def fixtureModel_def split: option.splits sum.splits)
  next
    case False
    with f assms(4) obtain d where d: "readFile (ecModelPath ?cfg) = Inr d" "LoadModel_Sdk unm d a1 = (None, a2)"
      by (auto simp: loadModelFile_def split: sum.splits prod.splits option.splits)
    with LoadModel_Sdk_kit [OF _ d(2)] k1 False assms(4) show ?thesis by (auto simp: fixtureModel_def)
  qed
  with GrantAll_kit [OF _ assms(3) g] show ?thesis by auto
qed

lemma Can_kit:
  assumes "kit_sdk a" and "kitModel a = Some m" and "ParseUserKey user = (ut, uid, ur)" and "ParseObjectKey object = (ot, oid)" and "clean ot oid"
    and "\<forall>k. ctxErr (rcCtx rc) k = None" and "0 \<le> el" "el < 2 ^ 31"
  shows "Can opa unm rc el outer user relation object [] a = (Some (grants m (kitTuples a) ut uid (ot, oid, relation), None), a)"
proof -
  let ?z = "pZanzibar (aPolicy a)"
  from assms(2) obtain tm where tm: "defaultModel ?z = Some tm" "tmModel tm = m" by (auto simp: kitModel_def)
  have z: "requireTenantServing (rcCtx rc) ?z = None" "modelForOperation unm (rcCtx rc) ?z = (Inr (Some tm), ?z)"
    "esTuples (eStore ?z) = memoryTupleStore" "mem_admissible (tuplesState ?z)" "all_tuples (tuplesState ?z) = kitTuples a"
    using assms(1) tm
    by (simp_all add: kit_simps over_memory_def requireTenantServing_def modelForOperation_def resolveModel_def mem_admissible_def all_tuples_def)
  from Check_Engine_grants [OF z(1-4) assms(3-6), of relation]
  have c: "Check_Engine unm (rcCtx rc) user relation object ?z = (Some (Inr (grants m (kitTuples a) ut uid (ot, oid, relation))), ?z)"
    by (simp add: tm z(5))
  have s: "SafeInt32From64 el = Inr (int32 el)" using assms(7,8) by (simp add: SafeInt32From64_def)
  have "a\<lparr>aPolicy := aPolicy a\<rparr> = a" by simp
  with c s assms(1) show ?thesis
    by (simp add: Can_def CanWithDetails_def evaluateGated_def requireServingActive_def checkStale_def Evaluate_def policyServing_def
        fallbackCheck_def relationCheck_def newResult_def logEntry_def kit_simps split: prod.split)
qed

text \<open>
  C21. An engine of the test kit decides exactly by its fixtures. When the constructor succeeds on a model that compiles,
  separator-free tuples and no policy bundle, then \<open>Can\<close> returns without error, in every tenant's context that is
  not cancelled, the answer that the relationship semantics gives for that model and exactly those tuples, and changes nothing.
\<close>

theorem test_engine_decides:
  assumes "NewEngine_Kit opa codec unm readFile newFactory now host opts = Some (Inr (a, tf))" and "cfg = engineConfigOf opts"
    and "ecPolicyBundle cfg = None" and "\<forall>t \<in> set (ecTuples cfg). wf_tuple (fixtureTuple t)" and "fixtureModel unm readFile cfg = Some m"
    and "ParseUserKey user = (ut, uid, ur)" and "ParseObjectKey object = (ot, oid)" and "clean ot oid"
    and "\<forall>k. ctxErr (rcCtx rc) k = None" and "0 \<le> el" and "el < 2 ^ 31"
  shows "Can opa unm rc el outer user relation object [] a =
     (Some (grants m (fixtureTuple ` set (ecTuples cfg)) ut uid (ot, oid, relation), None), a)"
  using NewEngine_Kit_state [OF assms(1) assms(3-5) [unfolded assms(2)]]
  by (simp add: Can_kit [OF _ _ assms(6-11)] assms(2))

section \<open>Sample engine\<close>

definition annViews :: FixtureTuple where
  "annViews = \<lparr>fxUser = ''user:ann'', fxRelation = ''viewer'', fxObject = ''doc:1''\<rparr>"

definition kitOpts :: "string EngineOption list" where
  "kitOpts = [WithModel (Some ''model''), WithTuples [annViews], WithTokenFactory (Some kitFactory)]"

definition kitAtol :: "sample_atol res option" where
  "kitAtol = map_option (map_sum (\<lambda>e. e) fst)
     (NewEngine_Kit sampleOPA barCodec sampleDecoder (\<lambda>_. Inl ErrStale) (Inl ErrStale) 5 0 kitOpts)"

theorem test_engine_decides_witness:
  "\<exists>a. kitAtol = Some (Inr a) \<and>
     Can sampleOPA sampleDecoder (Build (builderStep (BUser ''ann'') Context_Kit)) 1 2 ''user:ann'' ''viewer'' ''doc:1'' [] a = (Some (True, None), a) \<and>
     Can sampleOPA sampleDecoder (Build (builderStep (BUser ''bob'') Context_Kit)) 1 2 ''user:bob'' ''viewer'' ''doc:1'' [] a = (Some (False, None), a)"
proof -
  let ?e = "NewEngine_Kit sampleOPA barCodec sampleDecoder (\<lambda>_. Inl ErrStale) (Inl ErrStale) 5 0 kitOpts :: (sample_atol \<times> string TokenFactory) res option"
  have "map_option (map_sum (\<lambda>_. ()) (\<lambda>_. ())) ?e = Some (Inr ())" by code_simp
  then obtain a tf where e: "?e = Some (Inr (a, tf))" by (cases ?e; cases "the ?e") auto
  have k: "kitAtol = Some (Inr a)" by (simp add: kitAtol_def e)
  have n: "fst (Can sampleOPA sampleDecoder (Build (builderStep (BUser ''ann'') Context_Kit)) 1 2 ''user:ann'' ''viewer'' ''doc:1'' []
     (case kitAtol of Some (Inr a) \<Rightarrow> a | _ \<Rightarrow> sampleAtol True)) = Some (True, None)"
    "fst (Can sampleOPA sampleDecoder (Build (builderStep (BUser ''bob'') Context_Kit)) 1 2 ''user:bob'' ''viewer'' ''doc:1'' []
     (case kitAtol of Some (Inr a) \<Rightarrow> a | _ \<Rightarrow> sampleAtol True)) = Some (False, None)" by code_simp+
  note v = n [unfolded k option.case sum.case]
  have c: "ecPolicyBundle (engineConfigOf kitOpts) = None" "ecTuples (engineConfigOf kitOpts) = [annViews]" "ecModelYAML (engineConfigOf kitOpts) = Some ''model''"
    "ecModelPath (engineConfigOf kitOpts) = []" by (simp_all add: engineConfigOf_def kitOpts_def)
  have w: "wf_tuple (fixtureTuple annViews)" by code_simp
  have m: "fixtureModel sampleDecoder (\<lambda>_. Inl ErrStale) (engineConfigOf kitOpts) = Some sample_model"
    by (simp add: fixtureModel_def c Compile_sampleDecoder)
  have p: "ParseUserKey ''user:ann'' = (''user'', ''ann'', [])" "ParseUserKey ''user:bob'' = (''user'', ''bob'', [])"
    "ParseObjectKey ''doc:1'' = (''doc'', ''1'')" "clean ''doc'' ''1''" by code_simp+
  have x: "\<forall>k. ctxErr (rcCtx (Build (builderStep (BUser u) Context_Kit))) k = None" for u
    by (simp add: Build_def Context_Kit_def FromContext_def backgroundReq_def rootCtx_def background_def Let_def)
  have d: "snd (Can sampleOPA sampleDecoder (Build (builderStep (BUser u) Context_Kit)) 1 2 user ''viewer'' ''doc:1'' [] a) = a"
    if "ParseUserKey user = (ut, uid, ur)" for u user ut uid ur
    using test_engine_decides [OF e refl c(1) _ m that p(3,4) x [of u], of 1 2 "''viewer''"] w c(2) by simp
  show ?thesis using k v d [OF p(1), of "''ann''"] d [OF p(2), of "''bob''"] by (metis prod.collapse)
qed

end
