(* ===== verification/Test_Server.thy ===== *)
theory Test_Server
  imports Test_Kit
begin

text \<open>
  The stand-alone mock identity provider (\<open>cmd/atoltest-server/main.go\<close>): its four handlers, the cross-origin wrapper and the
  routes, and that the tokens it hands out pass the SDK's validator when that is pointed at the server's own discovery document and keys.

  Parameters are the JOSE library's signing side, the JSON decoder of the token request and the router's own answer to a request
  that matches no route. A response is its status, the headers set before it, and what its body encodes.
\<close>

section \<open>The server\<close>

record 'priv server =
  srvKey :: 'priv
  srvKid :: string

record ('priv, 'key) ServerSigning =
  sgPublic :: "'priv \<Rightarrow> 'key"
  sgNewSigner :: "'priv \<Rightarrow> goerror option"
  sgSerialize :: "'priv \<Rightarrow> string \<Rightarrow> stdClaims \<Rightarrow> jobj \<Rightarrow> string res"

datatype 'key responseBody = NoContent | KeySet "(string \<times> 'key) list" | Document jobj | RouterText string

record 'key response =
  rsStatus :: nat
  rsHeaders :: "(string \<times> string) list"
  rsBody :: "'key responseBody"

record serverRequest =
  rqMethod :: string
  rqHost :: string
  rqPath :: string
  rqBody :: "string res"

definition writeJSON :: "nat \<Rightarrow> 'key responseBody \<Rightarrow> 'key response" where
  "writeJSON status v = \<lparr>rsStatus = status, rsHeaders = [(''Content-Type'', ''application/json'')], rsBody = v\<rparr>"

text \<open>The key set has one key, for \<open>RS256\<close> signatures.\<close>

definition handleJWKS_Server :: "('priv, 'key) ServerSigning \<Rightarrow> 'priv server \<Rightarrow> 'key response" where
  "handleJWKS_Server sg s = writeJSON 200 (KeySet [(srvKid s, sgPublic sg (srvKey s))])"

definition handleDiscovery_Server :: "serverRequest \<Rightarrow> 'key response" where
  "handleDiscovery_Server r =
     (let base = ''http://'' @ rqHost r in
      writeJSON 200 (Document
        [(''issuer'', JStr base), (''authorization_endpoint'', JStr (base @ ''/authorize'')),
         (''token_endpoint'', JStr (base @ ''/oauth/token'')), (''jwks_uri'', JStr (base @ ''/.well-known/jwks.json'')),
         (''userinfo_endpoint'', JStr (base @ ''/userinfo'')), (''id_token_signing_alg_values_supported'', JArr [JStr ''RS256'']),
         (''response_types_supported'', JArr [JStr ''code'']), (''subject_types_supported'', JArr [JStr ''public'']),
         (''token_endpoint_auth_methods_supported'', JArr [JStr ''client_secret_post''])]))"

text \<open>The custom claims of a token: empty ones are left out.\<close>

definition serverClaims :: "string \<Rightarrow> string \<Rightarrow> string list \<Rightarrow> string \<Rightarrow> jobj" where
  "serverClaims email org roles plan =
     (''email'', JStr email) # (if org \<noteq> [] then [(''atol:org_id'', JStr org)] else []) @
     (if roles \<noteq> [] then [(''atol:roles'', JArr (map JStr roles))] else []) @ (if plan \<noteq> [] then [(''atol:plan'', JStr plan)] else [])"

text \<open>\<open>random\<close> is the hex text of the buffer the random source filled.\<close>

definition mintToken ::
    "('priv, 'key) ServerSigning \<Rightarrow> int \<Rightarrow> string \<Rightarrow> string \<Rightarrow> string \<Rightarrow> string \<Rightarrow> string \<Rightarrow> string list \<Rightarrow> string \<Rightarrow> 'priv server \<Rightarrow> string res" where
  "mintToken sg now random issuer sub email org roles plan s =
     (case sgNewSigner sg (srvKey s) of
        Some err \<Rightarrow> Inl (Wrapf STR ''create signer: %w'' [] err)
      | None \<Rightarrow> sgSerialize sg (srvKey s) (srvKid s)
          \<lparr>sdSubject = sub, sdID = random, sdIssuer = issuer, sdAudience = [], sdExpiry = Some (unix (now + 24 * 3600 * seconds)),
           sdNotBefore = None, sdIssuedAt = Some (unix now)\<rparr> (serverClaims email org roles plan))"

text \<open>The decoded body of a token request; an empty one leaves every field empty.\<close>

definition parseRequest :: "(string \<Rightarrow> tokenRequest res) \<Rightarrow> string \<Rightarrow> tokenRequest res" where
  "parseRequest decode body = (if length body > 0 then decode body else Inr \<lparr>trSub = [], trEmail = [], trOrgID = [], trRoles = [], trPlan = []\<rparr>)"

definition handleToken_Server ::
    "('priv, 'key) ServerSigning \<Rightarrow> (string \<Rightarrow> tokenRequest res) \<Rightarrow> int \<Rightarrow> string \<Rightarrow> serverRequest \<Rightarrow> 'priv server \<Rightarrow> 'key response" where
  "handleToken_Server sg decode now random r s =
     (let invalid = writeJSON 400 (Document [(''error'', JStr ''invalid_request'')]) in
      case rqBody r of
        Inl _ \<Rightarrow> invalid
      | Inr body \<Rightarrow>
          (case parseRequest decode body of
             Inl _ \<Rightarrow> invalid
           | Inr req \<Rightarrow>
               (let sub = (if trSub req = [] then ''test-user'' else trSub req);
                    email = (if trEmail req = [] then ''test@example.com'' else trEmail req);
                    issuer = ''http://'' @ rqHost r
                in case mintToken sg now random issuer sub email (trOrgID req) (trRoles req) (trPlan req) s of
                     Inl _ \<Rightarrow> writeJSON 500 (Document [(''error'', JStr ''server_error'')])
                   | Inr token \<Rightarrow> writeJSON 200 (Document
                       [(''access_token'', JStr token), (''token_type'', JStr ''Bearer''), (''expires_in'', JInt 86400), (''id_token'', JStr token)]))))"

definition handleHealth :: "'key response" where
  "handleHealth = writeJSON 200 (Document [(''status'', JStr ''ok'')])"

definition corsMiddleware :: "(serverRequest \<Rightarrow> 'key response) \<Rightarrow> serverRequest \<Rightarrow> 'key response" where
  "corsMiddleware h r =
     (let cors = [(''Access-Control-Allow-Origin'', ''*''), (''Access-Control-Allow-Methods'', ''GET, POST, OPTIONS''),
          (''Access-Control-Allow-Headers'', ''Content-Type, Authorization'')]
      in if rqMethod r = ''OPTIONS'' then \<lparr>rsStatus = 204, rsHeaders = cors, rsBody = NoContent\<rparr>
         else (h r)\<lparr>rsHeaders := cors @ rsHeaders (h r)\<rparr>)"

text \<open>The key and its identifier; \<open>keyHash\<close> is the hex text of the first eight bytes of the hash. An error ends the program.\<close>

definition newServer :: "'priv res \<Rightarrow> ('priv \<Rightarrow> string) \<Rightarrow> 'priv server res" where
  "newServer generated keyHash =
     (case generated of
        Inl err \<Rightarrow> Inl (Wrapf STR ''generate RSA key: %v'' [] err)
      | Inr priv \<Rightarrow> Inr \<lparr>srvKey = priv, srvKid = ''atoltest-'' @ keyHash priv\<rparr>)"

text \<open>The routes. A pattern with \<open>GET\<close> also matches \<open>HEAD\<close>.\<close>

definition routes ::
    "('priv, 'key) ServerSigning \<Rightarrow> (string \<Rightarrow> tokenRequest res) \<Rightarrow> (serverRequest \<Rightarrow> 'key response) \<Rightarrow> int \<Rightarrow> string \<Rightarrow> 'priv server \<Rightarrow>
     serverRequest \<Rightarrow> 'key response" where
  "routes sg decode unrouted now random s r =
     (let gets = rqMethod r = ''GET'' \<or> rqMethod r = ''HEAD'' in
      if gets \<and> rqPath r = ''/.well-known/jwks.json'' then handleJWKS_Server sg s
      else if gets \<and> rqPath r = ''/.well-known/openid-configuration'' then handleDiscovery_Server r
      else if rqMethod r = ''POST'' \<and> rqPath r = ''/oauth/token'' then handleToken_Server sg decode now random r s
      else if gets \<and> rqPath r = ''/health'' then handleHealth
      else unrouted r)"

definition serve ::
    "('priv, 'key) ServerSigning \<Rightarrow> (string \<Rightarrow> tokenRequest res) \<Rightarrow> (serverRequest \<Rightarrow> 'key response) \<Rightarrow> int \<Rightarrow> string \<Rightarrow> 'priv server \<Rightarrow>
     serverRequest \<Rightarrow> 'key response" where
  "serve sg decode unrouted now random s = corsMiddleware (routes sg decode unrouted now random s)"

section \<open>Its tokens validate\<close>

text \<open>What the validator's decoder makes of the claims map, and the library's agreement of signing and verifying.\<close>

definition claimsOfMap :: "jobj \<Rightarrow> AtolClaims" where
  "claimsOfMap m =
     (let text = (\<lambda>k. case as_string (map_of m k) of None \<Rightarrow> [] | Some v \<Rightarrow> v) in
      \<lparr>cOrgID = text ''atol:org_id'', cPlan = text ''atol:plan'',
       cRoles = (case map_of m ''atol:roles'' of Some (JArr vs) \<Rightarrow> Some (map (\<lambda>v. case v of JStr x \<Rightarrow> x | _ \<Rightarrow> []) vs) | _ \<Rightarrow> None),
       cAuthMethod = [], cMFAVerified = False, cEmailVerified = False, cTrustDomain = [], cAuthTime = 0, cIdentityID = [], cIdentityScheme = [],
       cWrappedDEK = [], cCnf = None\<rparr>)"

definition maps_verify :: "('tok, 'key) TokenLib \<Rightarrow> ('priv, 'key) ServerSigning \<Rightarrow> bool" where
  "maps_verify lib sg \<longleftrightarrow>
     (\<forall>priv kid std email org roles plan raw. sgSerialize sg priv kid std (serverClaims email org roles plan) = Inr raw \<longrightarrow>
        (\<exists>tok. parseToken lib [''RS256''] raw = Inr tok \<and> tokenHeaders lib tok = [\<lparr>thKeyID = kid, thTyp = None\<rparr>] \<and>
           tokenClaims lib (sgPublic sg priv) tok = Inr (std, claimsOfMap (serverClaims email org roles plan))))"

lemma claimsOfMap_server:
  "cOrgID (claimsOfMap (serverClaims email org roles plan)) = org" "cPlan (claimsOfMap (serverClaims email org roles plan)) = plan"
  "cRoles (claimsOfMap (serverClaims email org roles plan)) = (if roles = [] then None else Some roles)"
  by (auto simp: claimsOfMap_def serverClaims_def Let_def as_string_def comp_def map_of_eq_None_iff split: option.split)

text \<open>What the endpoints say of the issuer and of the keys.\<close>

definition issuerOf :: "'key response \<Rightarrow> string option" where
  "issuerOf rs = (case rsBody rs of Document d \<Rightarrow> as_string (map_of d ''issuer'') | _ \<Rightarrow> None)"

definition keySetOf :: "'key response \<Rightarrow> (string \<times> 'key) list" where
  "keySetOf rs = (case rsBody rs of KeySet ks \<Rightarrow> ks | _ \<Rightarrow> [])"

definition get :: "string \<Rightarrow> string \<Rightarrow> serverRequest" where
  "get host path = \<lparr>rqMethod = ''GET'', rqHost = host, rqPath = path, rqBody = Inr []\<rparr>"

lemma serve_endpoints:
  "rsBody (serve sg decode unrouted now random s (get host ''/.well-known/jwks.json'')) = KeySet [(srvKid s, sgPublic sg (srvKey s))]"
  "issuerOf (serve sg decode unrouted now random s (get host ''/.well-known/openid-configuration'')) = Some (''http://'' @ host)"
  by (simp_all add: serve_def corsMiddleware_def routes_def get_def handleJWKS_Server_def handleDiscovery_Server_def writeJSON_def issuerOf_def
      as_string_def Let_def)

text \<open>
  A token of a \<open>200\<close> answer of the token endpoint validates for a day, the lifetime the answer announces, in an SDK whose issuer is the one of the
  server's discovery document and whose new key fetcher asks the server's key endpoint, for the requested subject, organisation and roles.
\<close>

lemma server_tokens_valid:
  assumes "maps_verify lib sg" and "claims_validate lib"
    and "serve sg decode unrouted mintNow random s r = rs" and "rqMethod r = ''POST''" "rqPath r = ''/oauth/token''"
    and "rsStatus rs = 200" and "rsBody rs = Document reply" and "map_of reply ''access_token'' = Some (JStr token)"
    and "issuerOf (serve sg decode unrouted t1 random1 s (get (rqHost r) ''/.well-known/openid-configuration'')) = Some (tvIssuer tv)"
    and "tvAudience tv = []" "tvRequiredType tv = []" and "rnOthers g = (\<lambda>f. f)"
    and "rnAnswer g = Fetched (keySetOf (serve sg decode unrouted t2 random2 s (get (rqHost r) ''/.well-known/jwks.json'')))"
    and "mintNow \<le> now" and "now + seconds \<le> mintNow + 86400 * seconds"
  shows "\<exists>b req who rest st. rqBody r = Inr b \<and> parseRequest decode b = Inr req \<and>
    ValidateToken lib (\<lambda>kid. FindKey keysOf url kid readNow g rounds) tv now token NewJWKSFetcher = Some (Inr (who, rest), st) \<and>
    map_of reply ''expires_in'' = Some (JInt 86400) \<and> pUserID who = (if trSub req = [] then ''test-user'' else trSub req) \<and>
    pOrgID who = trOrgID req \<and> pRoles who = (if trRoles req = [] then None else Some (trRoles req))"
proof -
  let ?std = "\<lambda>req. \<lparr>sdSubject = if trSub req = [] then ''test-user'' else trSub req, sdID = random, sdIssuer = ''http://'' @ rqHost r, sdAudience = [],
    sdExpiry = Some (unix (mintNow + 24 * 3600 * seconds)), sdNotBefore = None, sdIssuedAt = Some (unix mintNow)\<rparr>"
  let ?custom = "\<lambda>req. serverClaims (if trEmail req = [] then ''test@example.com'' else trEmail req) (trOrgID req) (trRoles req) (trPlan req)"
  have rs: "rsStatus (handleToken_Server sg decode mintNow random r s) = 200" "rsBody (handleToken_Server sg decode mintNow random r s) = Document reply"
    using assms(3-7) by (auto simp: serve_def corsMiddleware_def routes_def Let_def)
  then obtain b req where b: "rqBody r = Inr b" and req: "parseRequest decode b = Inr req"
    and sgn: "sgSerialize sg (srvKey s) (srvKid s) (?std req) (?custom req) = Inr token" and ex: "map_of reply ''expires_in'' = Some (JInt 86400)"
    using assms(8)
    by (auto simp: handleToken_Server_def mintToken_def writeJSON_def Let_def split: sum.splits option.splits if_splits)
  from assms(1) sgn obtain tok where tok: "parseToken lib [''RS256''] token = Inr tok" "tokenHeaders lib tok = [\<lparr>thKeyID = srvKid s, thTyp = None\<rparr>]"
    "tokenClaims lib (sgPublic sg (srvKey s)) tok = Inr (?std req, claimsOfMap (?custom req))" unfolding maps_verify_def by blast
  have iss: "tvIssuer tv = ''http://'' @ rqHost r" using assms(9) unfolding serve_endpoints(2) by simp
  have key: "\<exists>st. FindKey keysOf url (srvKid s) readNow g rounds NewJWKSFetcher = Some (Inr [sgPublic sg (srvKey s)], st)"
    using assms(12,13) unfolding keySetOf_def serve_endpoints(1)
    by (simp add: FindKey_def GetKeys_def refresh_Jwks_def cached_def NewJWKSFetcher_def fetchLocked_def Let_def keysOf_def)
  have tm: "now - tokenValidationLeeway \<le> unix (mintNow + 24 * 3600 * seconds) * seconds" "unix mintNow * seconds \<le> now + tokenValidationLeeway"
    using assms(14,15) unix_bounds [of mintNow] unix_bounds [of "mintNow + 24 * 3600 * seconds"] by (simp_all add: tokenValidationLeeway_def seconds_def)
  have "validateWithLeeway lib (?std req) (sdIssuer (?std req)) None now tokenValidationLeeway = None"
    by (rule assms(2) [unfolded claims_validate_def, rule_format, OF _ _ _ tm(1) _ tm(2)]) simp_all
  with tok key iss assms(10,11) have "\<exists>st. ValidateToken lib (\<lambda>kid. FindKey keysOf url kid readNow g rounds) tv now token NewJWKSFetcher =
      Some (Inr (principalOf (?std req) (claimsOfMap (?custom req)), identityOf (claimsOfMap (?custom req)), claimsOfMap (?custom req), random), st)"
    by (auto simp: ValidateToken_def Let_def)
  with b req ex show ?thesis by (fastforce simp: principalOf_def claimsOfMap_server)
qed

end
