(* ===== verification/Default_Policy.thy ===== *)
theory Default_Policy
  imports Policy_Engine
begin

text \<open>
  The generated default policy (\<open>policy/generate.go\<close>) and the adapter that turns it into a decision
  (\<open>policyDecisionModule\<close> in \<open>policy/engine/decision_contract.go\<close>), composed with the policy engine.

  Both are Rego modules held in Go constants. A Rego rule is a predicate on the input, the data and
  the time that OPA fixes for one evaluation; an undefined reference makes its expression fail. The
  rules that call the built-in \<open>zanzibar.check\<close> are evaluations in the sense of \<open>opaRun\<close>. OPA's order
  of values and its calendar are parameters, in \<open>Rego\<close>.
\<close>

section \<open>References into documents\<close>

record Rego =
  rgLess :: "json \<Rightarrow> json \<Rightarrow> bool"
  rgWeekday :: "int \<Rightarrow> string"
  rgHour :: "int \<Rightarrow> int"

fun rego_get :: "json \<Rightarrow> json \<Rightarrow> json option" where
  "rego_get (JObj m) (JStr k) = map_of m k"
| "rego_get (JArr xs) (JInt i) = (if 0 \<le> i \<and> i < int (length xs) then Some (xs ! nat i) else None)"
| "rego_get _ _ = None"

text \<open>A dotted reference, and the values an iteration \<open>[_]\<close> ranges over.\<close>

fun rego_ref :: "string list \<Rightarrow> json \<Rightarrow> json option" where
  "rego_ref [] v = Some v"
| "rego_ref (k # ks) v = (case rego_get v (JStr k) of None \<Rightarrow> None | Some w \<Rightarrow> rego_ref ks w)"

fun rego_elems :: "json \<Rightarrow> json list" where
  "rego_elems (JArr xs) = xs"
| "rego_elems (JObj m) = map snd m"
| "rego_elems _ = []"

section \<open>The rules of the default policy\<close>

text \<open>\<open>time.now_ns() >= w.start_ns\<close> and \<open>time.now_ns() <= w.end_ns\<close>.\<close>

definition covers :: "Rego \<Rightarrow> int \<Rightarrow> json \<Rightarrow> bool" where
  "covers rg now w =
     (case (rego_ref [''start_ns''] w, rego_ref [''end_ns''] w) of
        (Some s, Some e) \<Rightarrow> \<not> rgLess rg (JInt now) s \<and> \<not> rgLess rg e (JInt now)
      | _ \<Rightarrow> False)"

definition in_maintenance :: "Rego \<Rightarrow> int \<Rightarrow> jobj \<Rightarrow> bool" where
  "in_maintenance rg now data =
     (case rego_ref [''atol'', ''maintenance_windows''] (JObj data) of
        None \<Rightarrow> False
      | Some windows \<Rightarrow>
          list_ex (\<lambda>window. rego_ref [''active''] window = Some (JBool True) \<and> covers rg now window) (rego_elems windows))"

definition device_blocked :: "Rego \<Rightarrow> jobj \<Rightarrow> jobj \<Rightarrow> bool" where
  "device_blocked rg data input \<longleftrightarrow>
     rego_ref [''device'', ''signals'', ''bot''] (JObj input) = Some (JBool True) \<or>
     (case (rego_ref [''device'', ''signals'', ''anomaly_score''] (JObj input), rego_ref [''atol'', ''device_max_anomaly_score''] (JObj data)) of
        (Some score, Some ceiling) \<Rightarrow> rgLess rg ceiling score
      | _ \<Rightarrow> False)"

definition in_business_window :: "Rego \<Rightarrow> int \<Rightarrow> json \<Rightarrow> bool" where
  "in_business_window rg now config =
     (case (rego_ref [''days''] config, rego_ref [''start_hour''] config, rego_ref [''end_hour''] config) of
        (Some days, Some s, Some e) \<Rightarrow>
          JStr (rgWeekday rg now) \<in> set (rego_elems days) \<and> \<not> rgLess rg (JInt (rgHour rg now)) s \<and> rgLess rg (JInt (rgHour rg now)) e
      | _ \<Rightarrow> False)"

text \<open>The values the three definitions of \<open>within_business_hours\<close> give, and what a complete rule with a
  default makes of them: different values are a conflict, which ends the evaluation.\<close>

definition businessRules :: "Rego \<Rightarrow> int \<Rightarrow> jobj \<Rightarrow> bool list" where
  "businessRules rg now data =
     (case rego_ref [''atol'', ''business_hours''] (JObj data) of
        None \<Rightarrow> []
      | Some config \<Rightarrow>
          (let enabled = rego_ref [''enabled''] config in
           (if enabled = Some (JBool True) \<and> in_business_window rg now config then [True] else []) @
           (if enabled = Some (JBool False) then [True] else []) @
           (if enabled = Some (JBool True) \<and> \<not> in_business_window rg now config then [False] else [])))"

definition complete_rule :: "'a \<Rightarrow> 'a list \<Rightarrow> 'a option" where
  "complete_rule dflt vals = (case remdups vals of [] \<Rightarrow> Some dflt | [v] \<Rightarrow> Some v | _ \<Rightarrow> None)"

definition resource_embargoed :: "Rego \<Rightarrow> int \<Rightarrow> jobj \<Rightarrow> jobj \<Rightarrow> bool" where
  "resource_embargoed rg now data input =
     (case (rego_ref [''atol'', ''embargoes''] (JObj data), rego_ref [''resource_id''] (JObj input)) of
        (Some embargoes, Some resource) \<Rightarrow>
          (case rego_get embargoes resource of None \<Rightarrow> False | Some embargo \<Rightarrow> covers rg now embargo)
      | _ \<Rightarrow> False)"

text \<open>
  The two definitions of \<open>allow\<close>, each with what follows when it holds and when it does not. The engine prepares its queries with
  \<open>StrictBuiltinErrors\<close>, so an error of a built-in ends the evaluation: of \<open>zanzibar.check\<close> on arguments that are no strings, and of
  \<open>concat\<close> on an organisation that is none. The expression \<open>input.org\<close> fails if the organisation is undefined or false.
\<close>

definition callCheck :: "json option \<Rightarrow> json option \<Rightarrow> json option \<Rightarrow> opaRun \<Rightarrow> opaRun \<Rightarrow> opaRun" where
  "callCheck user relation object yes no =
     (case (user, relation, object) of
        (Some u, Some r, Some ob) \<Rightarrow> CallCheck u r ob (\<lambda>answer. case answer of
          Inl err \<Rightarrow> Return (Inl err) | Inr allowed \<Rightarrow> if allowed then yes else no)
      | _ \<Rightarrow> no)"

definition allowRelationship :: "Rego \<Rightarrow> int \<Rightarrow> jobj \<Rightarrow> jobj \<Rightarrow> opaRun \<Rightarrow> opaRun \<Rightarrow> opaRun" where
  "allowRelationship rg now data input yes no =
     (if in_maintenance rg now data \<or> resource_embargoed rg now data input then no
      else case complete_rule True (businessRules rg now data) of
        None \<Rightarrow> Return (Inl (ExternalError STR ''eval_conflict_error''))
      | Some within_business_hours \<Rightarrow>
          if \<not> within_business_hours \<or> device_blocked rg data input then no
          else callCheck (map_of input ''user'') (map_of input ''relation'') (map_of input ''object'') yes no)"

definition allowAdmin :: "Rego \<Rightarrow> int \<Rightarrow> jobj \<Rightarrow> jobj \<Rightarrow> opaRun \<Rightarrow> opaRun \<Rightarrow> opaRun" where
  "allowAdmin rg now data input yes no =
     (if \<not> in_maintenance rg now data \<or> map_of input ''org'' \<in> {None, Some (JBool False)} \<or> device_blocked rg data input then no
      else case as_string (map_of input ''org'') of
        None \<Rightarrow> Return (Inl (ExternalError STR ''eval_type_error: concat''))
      | Some org \<Rightarrow> callCheck (map_of input ''user'') (Some (JStr ''admin'')) (Some (JStr (''org:'' @ org))) yes no)"

section \<open>The decision adapter\<close>

definition adapterResult :: "string \<Rightarrow> json \<Rightarrow> opaRun" where
  "adapterResult matched value = Return (Inr [[JObj [(''matched_rule'', JStr matched), (''result'', value)]]])"

text \<open>The chain of the adapter: what the data holds under \<open>atol/access\<close> or \<open>atol/decision\<close> comes before the
  policy's \<open>allow\<close>. The resource type is a string in every input of the engine.\<close>

definition accessEntry :: "jobj \<Rightarrow> jobj \<Rightarrow> json option" where
  "accessEntry data input =
     (case (rego_ref [''atol'', ''access''] (JObj data), map_of input ''resource_type'') of
        (Some access, Some resourceType) \<Rightarrow> rego_get access resourceType
      | _ \<Rightarrow> None)"

definition resourceTypeOf :: "jobj \<Rightarrow> string" where
  "resourceTypeOf input = (case map_of input ''resource_type'' of Some (JStr t) \<Rightarrow> t | _ \<Rightarrow> [])"

definition policyDecision :: "Rego \<Rightarrow> int \<Rightarrow> jobj \<Rightarrow> jobj \<Rightarrow> opaRun" where
  "policyDecision rg now data input =
     (let access = accessEntry data input; t = resourceTypeOf input in
      case (case access of None \<Rightarrow> None | Some a \<Rightarrow> rego_ref [''decision''] a) of
        Some v \<Rightarrow> adapterResult (''data.atol.access.'' @ t @ ''.decision'') v
      | None \<Rightarrow>
          (case rego_ref [''atol'', ''decision''] (JObj data) of
             Some v \<Rightarrow> adapterResult ''data.atol.decision'' v
           | None \<Rightarrow>
               (case (case access of None \<Rightarrow> None | Some a \<Rightarrow> rego_ref [''allow''] a) of
                  Some v \<Rightarrow> adapterResult (''data.atol.access.'' @ t @ ''.allow'') (JObj [(''allow'', v)])
                | None \<Rightarrow>
                    (let allow = (\<lambda>b. adapterResult ''data.atol.allow'' (JObj [(''allow'', JBool b)]))
                     in allowRelationship rg now data input (allow True) (allowAdmin rg now data input (allow True) (allow False))))))"

section \<open>Generating the policy\<close>

text \<open>\<open>generateRego\<close>: the template, and for a model with types a listing of them, sorted.\<close>

definition coverageLine :: "string \<times> TypeDef \<Rightarrow> string" where
  "coverageLine p =
     (if Relations (snd p) = [] then ''#   '' @ fst p @ '' (no relations)'' @ [CHR 0x0A]
      else ''#   '' @ fst p @ '': '' @ joinWith '', '' (sort (map fst (Relations (snd p)))) @ [CHR 0x0A])"

definition generateRego :: "string \<Rightarrow> Model option \<Rightarrow> string" where
  "generateRego defaultRegoTemplate m =
     (case m of
        None \<Rightarrow> defaultRegoTemplate
      | Some m \<Rightarrow>
          if Types m = [] then defaultRegoTemplate
          else defaultRegoTemplate @ [CHR 0x0A] @ ''# ---- Model coverage ----'' @ [CHR 0x0A] @
            ''# Object types and relations derived from the Zanzibar model:'' @ [CHR 0x0A] @
            concat (map (\<lambda>typeName. coverageLine (typeName, the (map_of (Types m) typeName))) (sort (map fst (Types m)))))"

text \<open>\<open>write\<close> is OPA's bundle writer, on the path and source of the one module and no data.\<close>

definition GenerateDefaultPolicy :: "(string \<Rightarrow> string \<Rightarrow> string res) \<Rightarrow> string \<Rightarrow> Model option \<Rightarrow> string res" where
  "GenerateDefaultPolicy write defaultRegoTemplate m =
     (case write ''/atol/authz/policy.rego'' (generateRego defaultRegoTemplate m) of
        Inl err \<Rightarrow> Inl (Wrapf STR ''write OPA bundle: %w'' [] err)
      | Inr buf \<Rightarrow> Inr buf)"
section \<open>What the default policy decides\<close>

definition open_hours :: "Rego \<Rightarrow> int \<Rightarrow> jobj \<Rightarrow> bool" where
  "open_hours rg now data =
     (case rego_ref [''atol'', ''business_hours''] (JObj data) of
        None \<Rightarrow> True
      | Some config \<Rightarrow> rego_ref [''enabled''] config \<noteq> Some (JBool True) \<or> in_business_window rg now config)"

text \<open>The definitions of \<open>within_business_hours\<close> never conflict.\<close>

lemma within_business_hours: "complete_rule True (businessRules rg now data) = Some (open_hours rg now data)"
  by (auto simp: complete_rule_def businessRules_def open_hours_def Let_def split: option.splits)

text \<open>Neither \<open>atol/decision\<close> nor an entry for the resource type under \<open>atol/access\<close> is in the data.\<close>

definition plain_data :: "jobj \<Rightarrow> jobj \<Rightarrow> bool" where
  "plain_data data input \<longleftrightarrow> rego_ref [''atol'', ''decision''] (JObj data) = None \<and> accessEntry data input = None"

lemma policyDecision_plain:
  assumes "plain_data data input"
  shows "policyDecision rg now data input =
     (let allow = (\<lambda>b. adapterResult ''data.atol.allow'' (JObj [(''allow'', JBool b)]))
      in allowRelationship rg now data input (allow True) (allowAdmin rg now data input (allow True) (allow False)))"
  using assms unfolding policyDecision_def plain_data_def Let_def by simp

lemma callCheck_run:
  assumes "runOPA (callCheck (Some (JStr u)) (Some (JStr r)) (Some (JStr ob)) (Return y) (Return n)) unm ctx s = Some (rs, s')"
    and "evalCtx s = Some ctx"
  shows "rs = (if fst (relationCheck unm ctx (evContextTuples s) u r ob (evZanzibar s)) = Some (Inr True) then y else n)"
proof -
  obtain a e where rc: "relationCheck unm ctx (evContextTuples s) u r ob (evZanzibar s) = (a, e)" by fastforce
  with assms obtain answer where a: "a = Some answer"
    by (cases a) (auto simp: callCheck_def checkAccessFn_def Let_def)
  with assms rc show ?thesis
    by (cases answer) (auto simp: callCheck_def checkAccessFn_def Let_def split: bool.splits)
qed

text \<open>The decision as a formula, over the answers of the relationship engine.\<close>

definition default_allows :: "Rego \<Rightarrow> int \<Rightarrow> jobj \<Rightarrow> jobj \<Rightarrow> (string \<Rightarrow> string \<Rightarrow> bool) \<Rightarrow> string \<Rightarrow> string \<Rightarrow> bool" where
  "default_allows rg now data input granted relation object \<longleftrightarrow>
     \<not> device_blocked rg data input \<and>
     (if in_maintenance rg now data
      then (\<exists>org. map_of input ''org'' = Some (JStr org) \<and> granted ''admin'' (''org:'' @ org))
      else \<not> resource_embargoed rg now data input \<and> open_hours rg now data \<and> granted relation object)"

lemma runOPA_adapter [simp]:
  "runOPA (adapterResult m v) unm ctx s = Some (Inr [[JObj [(''matched_rule'', JStr m), (''result'', v)]]], s)"
  by (simp add: adapterResult_def)

lemma policyDecision_run:
  assumes "runOPA (policyDecision rg now data input) unm ctx s = Some (Inr rs, s')" and "plain_data data input" and "evalCtx s = Some ctx"
    and "map_of input ''user'' = Some (JStr u)" "map_of input ''relation'' = Some (JStr r)" "map_of input ''object'' = Some (JStr ob)"
  shows "rs = [[JObj [(''matched_rule'', JStr ''data.atol.allow''), (''result'', JObj [(''allow'',
      JBool (default_allows rg now data input
        (\<lambda>rel obj. fst (relationCheck unm ctx (evContextTuples s) u rel obj (evZanzibar s)) = Some (Inr True)) r ob))])]]]"
proof -
  let ?allow = "\<lambda>b. Inr [[JObj [(''matched_rule'', JStr ''data.atol.allow''), (''result'', JObj [(''allow'', JBool b)])]]] :: ResultSet res"
  note run = assms(1) [unfolded policyDecision_plain [OF assms(2)] Let_def adapterResult_def]
  show ?thesis
  proof (cases "in_maintenance rg now data")
    case True
    show ?thesis
    proof (cases "\<exists>org. map_of input ''org'' = Some (JStr org) \<and> \<not> device_blocked rg data input")
      case False
      with True run show ?thesis
        by (auto simp: allowRelationship_def allowAdmin_def default_allows_def as_string_def split: option.splits json.splits if_splits)
    next
      case org: True
      then obtain org where o: "map_of input ''org'' = Some (JStr org)" and nb: "\<not> device_blocked rg data input" by blast
      from run True nb o assms(4) have "runOPA (callCheck (Some (JStr u)) (Some (JStr ''admin'')) (Some (JStr (''org:'' @ org)))
          (Return (?allow True)) (Return (?allow False))) unm ctx s = Some (Inr rs, s')"
        by (simp add: allowRelationship_def allowAdmin_def as_string_def)
      from callCheck_run [OF this assms(3)] show ?thesis using True nb o by (auto simp: default_allows_def split: if_splits)
    qed
  next
    case False
    show ?thesis
    proof (cases "resource_embargoed rg now data input \<or> \<not> open_hours rg now data \<or> device_blocked rg data input")
      case True
      with False run show ?thesis
        by (auto simp: allowRelationship_def allowAdmin_def default_allows_def within_business_hours split: if_splits)
    next
      case ok: False
      with False run assms(4-6) have "runOPA (callCheck (Some (JStr u)) (Some (JStr r)) (Some (JStr ob))
          (Return (?allow True)) (Return (?allow False))) unm ctx s = Some (Inr rs, s')"
        by (simp add: allowRelationship_def allowAdmin_def within_business_hours)
      from callCheck_run [OF this assms(3)] show ?thesis using False ok by (auto simp: default_allows_def split: if_splits)
    qed
  qed
qed

lemma inputMap_standard:
  "map_of (inputMap input) ''user'' = Some (JStr (inUser input))" "map_of (inputMap input) ''relation'' = Some (JStr (inRelation input))"
  "map_of (inputMap input) ''object'' = Some (JStr (inObject input))" "map_of (inputMap input) ''org'' = map_of (inExtra input) ''org''"
  "map_of (inputMap input) ''device'' = map_of (inExtra input) ''device''"
  by (simp_all add: inputMap_lookup standardFields_def)

text \<open>OPA runs the default policy and the adapter: on every input the engine makes, the prepared decision query of the bundle evaluates as their rules say.\<close>

definition runs_default_policy :: "('mod, 'c, 'st, 'txn, 'q) OPA \<Rightarrow> Rego \<Rightarrow> int \<Rightarrow> jobj \<Rightarrow> ('c, 'st, 'q) bundleState \<Rightarrow> bool" where
  "runs_default_policy opa rg now data bs \<longleftrightarrow>
     (\<forall>pq input. fst (preparedQuery opa policyDecisionQuery bs) = Inr pq \<longrightarrow>
        evalPrepared opa pq (bsStore bs) (inputMap input) = policyDecision rg now data (inputMap input))"

lemma default_decision:
  assumes "pBundle pe = Some bs" and "runs_default_policy opa rg now data bs" and "plain_data data (inputMap input)"
    and "Evaluate opa unm ctx el input pe = (Some (Inr r), pe')"
  shows "MatchedRule r = ''data.atol.allow'' \<and>
    (Allowed r \<longleftrightarrow> default_allows rg now data (inputMap input)
       (\<lambda>rel obj. fst (relationCheck unm ctx (inContextTuples input) (inUser input) rel obj (pZanzibar pe)) = Some (Inr True))
       (inRelation input) (inObject input))"
proof -
  let ?granted = "\<lambda>rel obj. fst (relationCheck unm ctx (inContextTuples input) (inUser input) rel obj (pZanzibar pe)) = Some (Inr True)"
  have rs: "rs = [[JObj [(''matched_rule'', JStr ''data.atol.allow''), (''result'', JObj [(''allow'',
      JBool (default_allows rg now data (inputMap input) ?granted (inRelation input) (inObject input)))])]]]"
    if q: "evalQuery opa unm ctx policyDecisionQuery (inputMap input) bs (startState ctx input pe) = Some (Inr rs, b, s')" for rs b s'
  proof -
    from evalQuery_run [OF q] assms(2)
    have "runOPA (policyDecision rg now data (inputMap input)) unm ctx (startState ctx input pe) = Some (Inr rs, s')"
      by (auto simp: runs_default_policy_def)
    from policyDecision_run [OF this assms(3) _ inputMap_standard(1-3)] show ?thesis by (simp add: startState_def)
  qed
  from assms(4) show ?thesis
  proof (cases rule: Evaluate_result_cases)
    case (decided bs1 rs1 b s' d evalUs)
    with assms(1) rs have e: "encodes_decision (JObj [(''matched_rule'', JStr ''data.atol.allow''), (''result'', JObj [(''allow'',
        JBool (default_allows rg now data (inputMap input) ?granted (inRelation input) (inObject input)))])]) d" by auto
    then have "MatchedRule d = ''data.atol.allow''" "Allowed d = default_allows rg now data (inputMap input) ?granted (inRelation input) (inObject input)"
      by (auto simp: encodes_decision_def)
    with decided show ?thesis by simp
  qed (use assms(1) rs in \<open>auto simp: resultDefined_def\<close>)
qed

text \<open>Without policy data and without a device in the request, it is the bare relationship check.\<close>

lemma default_policy_pure:
  assumes "pBundle pe = Some bs" and "runs_default_policy opa rg now [] bs" and "Evaluate opa unm ctx el input pe = (Some (Inr r), pe')"
    and "map_of (inExtra input) ''device'' = None"
  shows "Allowed r \<longleftrightarrow>
    fst (relationCheck unm ctx (inContextTuples input) (inUser input) (inRelation input) (inObject input) (pZanzibar pe)) = Some (Inr True)"
  using default_decision [OF assms(1,2) _ assms(3)] assms(4)
  by (simp add: plain_data_def accessEntry_def default_allows_def device_blocked_def in_maintenance_def resource_embargoed_def open_hours_def inputMap_standard)

text \<open>
  What OPA documents of its bundles, for the bundle of the generated policy: it reads back with no data of its own, and the decision query prepared from its
  module and the adapter evaluates as their rules say.
\<close>

definition rego_semantics :: "('mod, 'c, 'st, 'txn, 'q) OPA \<Rightarrow> (string \<Rightarrow> string \<Rightarrow> string res) \<Rightarrow> string \<Rightarrow> Rego \<Rightarrow> int \<Rightarrow> bool" where
  "rego_semantics opa write tmpl rg now \<longleftrightarrow>
     (\<forall>m buf b modules adapter c pq data input.
        GenerateDefaultPolicy write tmpl m = Inr buf \<longrightarrow> readBundle opa buf = Inr b \<longrightarrow> collectModules (bModules b) [] = Inr modules \<longrightarrow>
        parseModule opa policyDecisionModulePath = Inr adapter \<longrightarrow>
        compileModules opa (AList.update policyDecisionModulePath adapter modules) = Inr c \<longrightarrow>
        (bData b = None \<or> bData b = Some []) \<and>
        (prepareForEval opa policyDecisionQuery c (newFromObject opa data) = Inr pq \<longrightarrow>
           evalPrepared opa pq (newFromObject opa data) (inputMap input) = policyDecision rg now data (inputMap input)))"

lemma LoadBundle_default:
  assumes "rego_semantics opa write tmpl rg now" and "GenerateDefaultPolicy write tmpl m = Inr buf" and "LoadBundle opa buf policyData pe0 = (None, pe)"
  obtains bs where "pBundle pe = Some bs" "runs_default_policy opa rg now (overlayData policyData []) bs"
proof -
  from assms(3) obtain b modules adapter c where b: "readBundle opa buf = Inr b" "collectModules (bModules b) [] = Inr modules"
    "parseModule opa policyDecisionModulePath = Inr adapter" "compileModules opa (AList.update policyDecisionModulePath adapter modules) = Inr c"
    by (auto simp: LoadBundle_def Let_def split: sum.splits)
  note sem = assms(1) [unfolded rego_semantics_def, rule_format, OF assms(2) b]
  let ?bs = "\<lparr>bsCompiler = c, bsStore = newFromObject opa (overlayData policyData []), bsPrepared = []\<rparr>"
  have "bData b = None \<or> bData b = Some []" using sem by blast
  then have "pBundle pe = Some ?bs" using assms(3) b by (auto simp: LoadBundle_def Let_def)
  moreover have "runs_default_policy opa rg now (overlayData policyData []) ?bs"
    using sem by (auto simp: runs_default_policy_def preparedQuery_def split: sum.splits)
  ultimately show thesis by (rule that)
qed

text \<open>
  C35. The default policy decides what it promises. Generate the policy for a model that has types, and load it with policy data that holds no
  decision of its own. Every decision an evaluation then returns comes from the policy's \<open>allow\<close> and allows exactly
  when no device rule blocks the request and: in a maintenance window, the user is an admin of the
  caller's organisation; outside one, the resource is not under embargo, business hours are not
  enforced or cover the time, and the relationship engine grants the relation asked for. An error of a built-in is no decision.
\<close>

theorem default_policy_decides:
  assumes "rego_semantics opa write tmpl rg now" and "GenerateDefaultPolicy write tmpl (Some m) = Inr buf" and "Types m \<noteq> []"
    and "LoadBundle opa buf policyData pe0 = (None, pe)" and "data = overlayData policyData []" and "plain_data data (inputMap input)"
    and "Evaluate opa unm ctx el input pe = (Some (Inr r), pe')"
  shows "MatchedRule r = ''data.atol.allow'' \<and>
    (Allowed r \<longleftrightarrow> \<not> device_blocked rg data (inputMap input) \<and>
       (if in_maintenance rg now data
        then \<exists>org. map_of (inExtra input) ''org'' = Some (JStr org) \<and>
          fst (relationCheck unm ctx (inContextTuples input) (inUser input) ''admin'' (''org:'' @ org) (pZanzibar pe)) = Some (Inr True)
        else \<not> resource_embargoed rg now data (inputMap input) \<and> open_hours rg now data \<and>
          fst (relationCheck unm ctx (inContextTuples input) (inUser input) (inRelation input) (inObject input) (pZanzibar pe)) = Some (Inr True)))"
proof -
  obtain bs where "pBundle pe = Some bs" "runs_default_policy opa rg now data bs"
    using LoadBundle_default [OF assms(1,2,4)] assms(5) by blast
  from default_decision [OF this assms(6,7)] show ?thesis by (simp add: default_allows_def inputMap_standard)
qed

text \<open>No model and a model without types give the same source, which delegates to the relationship engine like any other.\<close>

lemma empty_model_template: "generateRego tmpl None = tmpl" "Types m = [] \<Longrightarrow> generateRego tmpl (Some m) = tmpl"
  by (simp_all add: generateRego_def)

section \<open>A sample policy\<close>

text \<open>Integers in their order, and the calendar of UTC.\<close>

definition utcRego :: Rego where
  "utcRego =
     \<lparr>rgLess = (\<lambda>a b. case (a, b) of (JInt x, JInt y) \<Rightarrow> x < y | _ \<Rightarrow> False),
      rgWeekday = (\<lambda>now. [''Thursday'', ''Friday'', ''Saturday'', ''Sunday'', ''Monday'', ''Tuesday'', ''Wednesday''] !
        nat (now div (86400 * 1000000000) mod 7)),
      rgHour = (\<lambda>now. now div (3600 * 1000000000) mod 24)\<rparr>"

definition defaultOPA :: "(string, string, jobj, jobj, string) OPA" where
  "defaultOPA = sampleOPA\<lparr>evalPrepared := (\<lambda>_ data. policyDecision utcRego 0 data)\<rparr>"

lemma defaultOPA_semantics: "rego_semantics defaultOPA (\<lambda>_ _. Inr ''rego'') tmpl utcRego 0"
  by (simp add: rego_semantics_def GenerateDefaultPolicy_def defaultOPA_def sampleOPA_def)

lemma defaultOPA_load: "LoadBundle defaultOPA ''rego'' [] (NewPolicyEngine readyEngine) = (None, loadedPolicy)"
  by (simp add: LoadBundle_def defaultOPA_def sampleOPA_def loadedPolicy_def overlayData_def policyDecisionPackage_def
      policyDecisionModulePath_def Let_def)

theorem default_policy_decides_witness:
  "\<exists>r pe'. Evaluate defaultOPA sampleDecoder acme 7 catInput loadedPolicy = (Some (Inr r), pe') \<and> Allowed r \<and>
     \<not> device_blocked utcRego [] (inputMap catInput)"
proof -
  let ?s = "startState acme catInput loadedPolicy"
  have z: "pZanzibar loadedPolicy = readyEngine" "pBundle loadedPolicy = Some \<lparr>bsCompiler = ''rego'', bsStore = [], bsPrepared = []\<rparr>"
    "policyServing acme loadedPolicy = None"
    by (simp_all add: loadedPolicy_def NewPolicyEngine_def policyServing_def)
  have pd: "plain_data [] (inputMap catInput)" by (simp add: plain_data_def accessEntry_def)
  have im: "map_of (inputMap catInput) ''user'' = Some (JStr ''user:cat'')" "map_of (inputMap catInput) ''relation'' = Some (JStr ''owner'')"
    "map_of (inputMap catInput) ''object'' = Some (JStr ''doc:1'')" "map_of (inputMap catInput) ''device'' = None" by code_simp+
  then have nb: "\<not> device_blocked utcRego [] (inputMap catInput)" by (simp add: device_blocked_def)
  have ca: "checkAccessFn sampleDecoder acme (JStr ''user:cat'') (JStr ''owner'') (JStr ''doc:1'') ?s =
      Some (Inr True, ?s\<lparr>calls := 1, trace := [CheckLine ''user:cat'' ''owner'' ''doc:1'' (Inr True)]\<rparr>)"
    unfolding checkAccessFn_def as_string_JStr option.case Let_def
    by (simp add: startState_def z catInput_def relationCheck_def readyEngine_cat int32_def)
  have "runOPA (policyDecision utcRego 0 [] (inputMap catInput)) sampleDecoder acme ?s =
      Some (Inr [[JObj [(''matched_rule'', JStr ''data.atol.allow''), (''result'', JObj [(''allow'', JBool True)])]]],
        ?s\<lparr>calls := 1, trace := [CheckLine ''user:cat'' ''owner'' ''doc:1'' (Inr True)]\<rparr>)"
    by (simp add: policyDecision_plain [OF pd] allowRelationship_def within_business_hours in_maintenance_def resource_embargoed_def
        open_hours_def nb im callCheck_def ca Let_def)
  moreover have "decodePolicyDecision [[JObj [(''matched_rule'', JStr ''data.atol.allow''), (''result'', JObj [(''allow'', JBool True)])]]] =
      Inr (Some (newResult True ''data.atol.allow''))" by code_simp
  ultimately obtain r pe' where ev: "Evaluate defaultOPA sampleDecoder acme 7 catInput loadedPolicy = (Some (Inr r), pe')"
    by (simp add: Evaluate_def z evalQuery_def preparedQuery_def defaultOPA_def sampleOPA_def
        startState_def resultDefined_def SafeInt32From64_def newResult_def Let_def)
  have "fst (relationCheck sampleDecoder acme (inContextTuples catInput) (inUser catInput) (inRelation catInput) (inObject catInput) readyEngine) =
      Some (Inr True)"
    by (simp add: catInput_def relationCheck_def readyEngine_cat)
  moreover have "GenerateDefaultPolicy (\<lambda>_ _. Inr ''rego'') ''package atol'' (Some sample_model) = Inr ''rego''" "Types sample_model \<noteq> []" "overlayData [] [] = []"
    by (simp add: GenerateDefaultPolicy_def) code_simp+
  ultimately have "Allowed r"
    using default_policy_decides [OF defaultOPA_semantics _ _ defaultOPA_load _ pd ev, of "''package atol''" sample_model] nb
    by (simp add: z in_maintenance_def resource_embargoed_def open_hours_def)
  with ev nb show ?thesis by blast
qed

section \<open>The generated source\<close>

text \<open>
  Generation is deterministic: models with the same types and, in each, the same relations give the
  same source, whatever order Go's maps are iterated in.
\<close>

lemma generateRego_deterministic:
  assumes "go_map (Types m)" "go_map (Types m')"
    and "\<And>t. rel_option (\<lambda>d d'. mset (map fst (Relations d)) = mset (map fst (Relations d'))) (map_of (Types m) t) (map_of (Types m') t)"
  shows "generateRego tmpl (Some m) = generateRego tmpl (Some m')"
proof -
  have "set (map fst (Types m)) = set (map fst (Types m'))"
  proof -
    have "map_of (Types m) t = None \<longleftrightarrow> map_of (Types m') t = None" for t
      using assms(3) [of t] by (cases "map_of (Types m) t"; cases "map_of (Types m') t") auto
    then show ?thesis by (auto simp: map_of_eq_None_iff)
  qed
  with assms(1,2) have names: "sort (map fst (Types m)) = sort (map fst (Types m'))"
    by (metis set_eq_iff_mset_eq_distinct properties_for_sort sorted_sort mset_sort)
  have "coverageLine (t, the (map_of (Types m) t)) = coverageLine (t, the (map_of (Types m') t))" if "t \<in> set (map fst (Types m))" for t
  proof -
    from that obtain d where d: "map_of (Types m) t = Some d" by (metis list.set_map map_of_eq_None_iff not_None_eq)
    with assms(3) [of t] obtain d' where d': "map_of (Types m') t = Some d'" "mset (map fst (Relations d)) = mset (map fst (Relations d'))"
      by (cases "map_of (Types m') t") auto
    then have "sort (map fst (Relations d)) = sort (map fst (Relations d'))" by (metis properties_for_sort sorted_sort mset_sort)
    moreover have "Relations d = [] \<longleftrightarrow> Relations d' = []" using d'(2) by (metis map_is_Nil_conv mset_zero_iff)
    ultimately show ?thesis using d d' by (simp add: coverageLine_def)
  qed
  moreover have "Types m = [] \<longleftrightarrow> Types m' = []" using arg_cong [OF names, of length] by auto
  ultimately have "map (\<lambda>t. coverageLine (t, the (map_of (Types m) t))) (sort (map fst (Types m))) =
      map (\<lambda>t. coverageLine (t, the (map_of (Types m') t))) (sort (map fst (Types m')))" and "Types m = [] \<longleftrightarrow> Types m' = []"
    unfolding names [symmetric] by (auto intro: map_cong)
  then show ?thesis by (simp add: generateRego_def)
qed

end
