(* ===== verification/Request_Path.thy ===== *)
theory Request_Path
  imports Auth_Middleware Default_Policy
begin

text \<open>
  The path of one request through the components: \<open>HTTPMiddleware\<close> and \<open>DeviceMiddleware\<close> (\<open>middleware/http.go\<close>,
  \<open>device/middleware.go\<close>), then the handler's call of \<open>Authorize\<close> (\<open>atol.go\<close>) under the generated default
  policy (\<open>policy/generate.go\<close>).
\<close>

section \<open>Decisions of a handler\<close>

lemma Authorize_allow:
  assumes "Authorize opa unm rc el outer action resource a = (Some (Inr d), a')" and "dAllow d"
  obtains p r pe' where "rcUser rc = Some p" "requireServingActive (rcCtx rc) a = None" "\<not> tripped a" "Allowed r"
    "Evaluate opa unm (rcCtx rc) el \<lparr>inUser = ''user:'' @ pUserID p, inRelation = action, inObject = resource,
       inResourceType = fst (parseObject resource), inResourceID = snd (parseObject resource), inContextTuples = [],
       inExtra = authorizeExtra p rc action\<rparr> (engines a) = (Some (Inr r), pe')"
proof -
  obtain p where p: "rcUser rc = Some p" using assms(1) by (cases "rcUser rc") (auto simp: Authorize_def)
  obtain rt ri where po: "parseObject resource = (rt, ri)" by fastforce
  let ?in = "\<lparr>inUser = ''user:'' @ pUserID p, inRelation = action, inObject = resource, inResourceType = rt, inResourceID = ri,
      inContextTuples = [], inExtra = authorizeExtra p rc action\<rparr>"
  obtain g a1 where ev: "evaluateGated opa unm (rcCtx rc) el ?in a = (g, a1)" by fastforce
  from assms p po ev obtain r where g: "g = Some (GResult r)" "Allowed r"
    by (cases g) (auto simp: Authorize_def split: gated.splits)
  from evaluateGated_allowed [OF ev [unfolded g]] g p po show thesis
    by (intro that [of p r]) (auto intro: prod_eqI)
qed

text \<open>The input of \<open>Authorize\<close> names the caller's organisation; its device comes from the request context.\<close>

lemma authorizeExtra_lookup:
  "map_of (authorizeExtra p rc action) ''org'' = Some (JStr (pOrgID p))"
  "rcDevice rc = None \<Longrightarrow> map_of (authorizeExtra p rc action) ''device'' = None"
  by (simp_all add: authorizeExtra_def InjectOPAInput_def Let_def map_of_update split: option.split)

text \<open>
  The device rules of the default policy never see a request that only passed the SDK's own device
  middleware: it sets no signals.
\<close>

lemma device_rules_inert:
  assumes "rcDevice rc = DeviceMiddleware enabled req None" and "inExtra input = authorizeExtra p rc action"
  shows "\<not> device_blocked rg data (inputMap input)"
proof -
  have dv: "map_of (inputMap input) ''device'' = map_of (authorizeExtra p rc action) ''device''"
    using assms(2) by (simp add: inputMap_standard)
  consider "rcDevice rc = None"
    | deviceID where "rcDevice rc = Some \<lparr>dvDeviceID = deviceID, dvKnown = False, dvConfidence = ''0'', dvSignals = None\<rparr>"
    using assms(1) by (auto simp: DeviceMiddleware_def Let_def split: if_splits)
  then show ?thesis
  proof cases
    case 1
    with dv authorizeExtra_lookup(2) show ?thesis by (simp add: device_blocked_def)
  next
    case 2
    then have "map_of (authorizeExtra p rc action) ''device'' =
        Some (JObj [(''id'', JStr deviceID), (''known'', JBool False), (''confidence'', JNum ''0'')])"
      by (simp add: authorizeExtra_def InjectOPAInput_def Let_def map_of_update)
    with dv show ?thesis by (simp add: device_blocked_def)
  qed
qed

section \<open>From the token to the grant\<close>

text \<open>
  C4. No request is authorized without a valid token and a grant. Take a request that the HTTP middleware
  passes on, and a handler that calls \<open>Authorize\<close> with the request's context while OPA runs the default policy
  and the data holds no decision of its own. If the decision allows, then the request carried a
  token the validator accepts, of a session that is not revoked; if the token is bound to a key, or came under the DPoP scheme, the DPoP validator
  accepted a proof of this request for this token, made with the bound key; the
  tenant's serving gate was open and the staleness gate not tripped; and, for the user of that token,
  the relationship engine grants the action on the resource outside maintenance, embargo and closed
  hours, or, in a maintenance window, grants admin on the token's organisation. The decision is logged once, for that user.
\<close>

theorem request_authorized:
  assumes "HTTPMiddleware e w req ctx s = Some (Next ctx', s')"
    and "rcUser rc = xUser ctx'"
    and "pBundle (engines a) = Some bs" and "runs_default_policy opa rg now data bs"
    and "rego_ref [''atol'', ''decision''] (JObj data) = None" and "rego_ref [''atol'', ''access''] (JObj data) = None"
    and "Authorize opa unm rc el outer action resource a = (Some (Inr d), a')" and "dAllow d"
  shows "\<exists>scheme token v who claims sessionID.
     extractAuthToken (eStd e) (Header_Get ''Authorization'' req) = (scheme, token) \<and> eValidator e = Some v \<and>
     authentic (eLib e) (eFindKey e) v (wTokenNow w) token (sFetcher s) who claims sessionID \<and>
     (\<forall>sv. sSession s = Some sv \<longrightarrow> \<not> IsRevoked sessionID sv) \<and>
     (boundJKT claims \<noteq> [] \<or> foldEq (eStd e) scheme ''DPoP'' \<longrightarrow>
        (\<exists>proof g'. Validate (eJose e) (lower (eStd e)) (trim (eStd e)) (eGuard e) (eDPoP e) (wProofNow w) (wGuardNow w) req
            (boundJKT claims) token (sGuard s) = (Inr proof, g') \<and> (boundJKT claims \<noteq> [] \<longrightarrow> prJKT proof = boundJKT claims))) \<and>
     requireServingActive (rcCtx rc) a = None \<and> \<not> tripped a \<and> audited (pUserID who) action resource True a a' \<and>
     (let granted = \<lambda>relation object.
            fst (relationCheck unm (rcCtx rc) [] (''user:'' @ pUserID who) relation object (pZanzibar (engines a))) = Some (Inr True)
      in if in_maintenance rg now data then granted ''admin'' (''org:'' @ pOrgID who)
         else \<not> resource_embargoed rg now data [(''resource_id'', JStr (snd (parseObject resource)))] \<and> open_hours rg now data \<and>
           granted action resource)"
proof -
  from HTTPMiddleware_next [OF assms(1)] obtain scheme token v who claims sessionID where
    m: "extractAuthToken (eStd e) (Header_Get ''Authorization'' req) = (scheme, token)" "eValidator e = Some v"
    "authentic (eLib e) (eFindKey e) v (wTokenNow w) token (sFetcher s) who claims sessionID"
    "\<forall>sv. sSession s = Some sv \<longrightarrow> \<not> IsRevoked sessionID sv"
    "boundJKT claims \<noteq> [] \<or> foldEq (eStd e) scheme ''DPoP'' \<longrightarrow>
        (\<exists>proof g'. Validate (eJose e) (lower (eStd e)) (trim (eStd e)) (eGuard e) (eDPoP e) (wProofNow w) (wGuardNow w) req
            (boundJKT claims) token (sGuard s) = (Inr proof, g') \<and> (boundJKT claims \<noteq> [] \<longrightarrow> prJKT proof = boundJKT claims))"
    and user: "xUser ctx' = Some (who\<lparr>pClientIP := extractClientIP (eStd e) req\<rparr>)" by blast
  from assms(7,8) obtain p r pe' where p: "rcUser rc = Some p" and gate: "requireServingActive (rcCtx rc) a = None" "\<not> tripped a"
    and ev: "Evaluate opa unm (rcCtx rc) el \<lparr>inUser = ''user:'' @ pUserID p, inRelation = action, inObject = resource,
       inResourceType = fst (parseObject resource), inResourceID = snd (parseObject resource), inContextTuples = [],
       inExtra = authorizeExtra p rc action\<rparr> (engines a) = (Some (Inr r), pe')" and al: "Allowed r"
    by (rule Authorize_allow)
  let ?in = "\<lparr>inUser = ''user:'' @ pUserID p, inRelation = action, inObject = resource, inResourceType = fst (parseObject resource),
      inResourceID = snd (parseObject resource), inContextTuples = [], inExtra = authorizeExtra p rc action\<rparr>"
  have pu: "pUserID p = pUserID who" "pOrgID p = pOrgID who" using p user assms(2) by auto
  have "plain_data data (inputMap ?in)" using assms(5,6) by (simp add: plain_data_def accessEntry_def split: option.split)
  from default_decision [OF assms(3,4) this ev] al have dec: "default_allows rg now data (inputMap ?in)
      (\<lambda>rel obj. fst (relationCheck unm (rcCtx rc) [] (''user:'' @ pUserID who) rel obj (pZanzibar (engines a))) = Some (Inr True))
      action resource"
    by (simp add: pu)
  have "map_of (inputMap inp) ''resource_id'' = Some (JStr (inResourceID inp))" for inp
    by (simp add: inputMap_lookup standardFields_def)
  then have "resource_embargoed rg now data (inputMap ?in) = resource_embargoed rg now data [(''resource_id'', JStr (snd (parseObject resource)))]"
    by (simp add: resource_embargoed_def)
  with dec have "let granted = \<lambda>relation object.
        fst (relationCheck unm (rcCtx rc) [] (''user:'' @ pUserID who) relation object (pZanzibar (engines a))) = Some (Inr True)
      in if in_maintenance rg now data then granted ''admin'' (''org:'' @ pOrgID who)
         else \<not> resource_embargoed rg now data [(''resource_id'', JStr (snd (parseObject resource)))] \<and> open_hours rg now data \<and>
           granted action resource"
    by (simp add: default_allows_def inputMap_standard authorizeExtra_lookup pu Let_def split: if_splits)
  moreover have "audited (pUserID who) action resource True a a'"
    using Authorize_audited [OF assms(7)] assms(8) p pu by simp
  ultimately show ?thesis using m gate by blast
qed

section \<open>A sample request\<close>

text \<open>The bound token of the sample session reaches a handler that asks whether its user may view a document.\<close>

fun nextCtx :: "(httpOutcome \<times> 's) option \<Rightarrow> AuthCtx option" where
  "nextCtx (Some (Next ctx, _)) = Some ctx"
| "nextCtx _ = None"

definition handlerCtx :: "AuthCtx option \<Rightarrow> ReqCtx" where
  "handlerCtx ctx = \<lparr>rcCtx = rootCtx, rcUser = (case ctx of None \<Rightarrow> None | Some c \<Rightarrow> xUser c), rcIdentity = None, rcDevice = None\<rparr>"

definition policyAtol :: sample_atol where
  "policyAtol = grantedAtol\<lparr>aPolicy := (aPolicy grantedAtol)\<lparr>pBundle := Some \<lparr>bsCompiler = ''rego'', bsStore = [], bsPrepared = []\<rparr>\<rparr>\<rparr>"

abbreviation sampleNext :: "(httpOutcome \<times> (string list Fetcher, memoryReplayGuard) AuthState) option" where
  "sampleNext \<equiv> HTTPMiddleware (sampleAuth True) sampleWorld (sampleRequest ''DPoP bound'') noCtx sampleState"

theorem request_authorized_witness:
  "\<exists>d a'. Authorize defaultOPA sampleDecoder (handlerCtx (nextCtx sampleNext)) 1 2 ''viewer'' ''doc:1'' policyAtol = (Some (Inr d), a') \<and>
     dAllow d \<and> (\<exists>who :: Principal. audited (pUserID who) ''viewer'' ''doc:1'' True policyAtol a')"
proof -
  let ?auth = "Authorize defaultOPA sampleDecoder (handlerCtx (nextCtx sampleNext)) 1 2 ''viewer'' ''doc:1'' policyAtol"
  have "map_option (\<lambda>x. case x of Inl _ \<Rightarrow> None | Inr r \<Rightarrow> Some (dAllow r)) (fst ?auth) = Some (Some True)" by code_simp
  then obtain d a' where auth: "?auth = (Some (Inr d), a')" "dAllow d"
    by (elim returned_value) (metis prod.collapse)
  have "nextUser sampleNext = Some (''ann'', True)" by code_simp
  then obtain ctx' s' where h: "sampleNext = Some (Next ctx', s')" by (cases sampleNext rule: nextUser.cases) auto
  have "aSync policyAtol = None" by code_simp
  then have b: "pBundle (engines policyAtol) = Some \<lparr>bsCompiler = ''rego'', bsStore = [], bsPrepared = []\<rparr>"
    by (simp add: engines_def policyAtol_def)
  have q: "runs_default_policy defaultOPA utcRego 0 [] \<lparr>bsCompiler = ''rego'', bsStore = [], bsPrepared = []\<rparr>"
    by (simp add: runs_default_policy_def defaultOPA_def)
  have "rcUser (handlerCtx (nextCtx sampleNext)) = xUser ctx'" by (simp add: h handlerCtx_def)
  from request_authorized [OF h this b q _ _ auth]
  have "\<exists>who :: Principal. audited (pUserID who) ''viewer'' ''doc:1'' True policyAtol a'" by auto
  with auth show ?thesis by blast
qed

end
