(* ===== verification/Hmac_Stream.thy ===== *)
theory Hmac_Stream
  imports Go_Prelude "HOL-Library.Word" "HOL-Library.Sublist"
begin

text \<open>
  Request signing of the control-plane transport (\<open>hmac/stream.go\<close>, \<open>hmac/transport.go\<close>): the
  frames of the streaming protocol, the encoder on the client's side, the verifying reader on the
  server's side, the canonical strings that are signed and the choice between the two protocols.

  Bytes are 8-bit words. The keyed hash, SHA-256, hex and base64 are parameters. A source is the bytes
  it will deliver before its end; \<open>io.ReadFull\<close> on it either delivers, or reports the end when nothing
  was left, or a short read. Writes go to a parameter that may fail.
\<close>

type_synonym byte = "8 word"

section \<open>Byte order\<close>

text \<open>\<open>binary.BigEndian.PutUint\<close> of \<open>n\<close> bytes, which drops the higher ones, and its inverse.\<close>

fun be :: "nat \<Rightarrow> nat \<Rightarrow> byte list" where
  "be 0 v = []"
| "be (Suc n) v = be n (v div 256) @ [word_of_nat v]"

definition unbe :: "byte list \<Rightarrow> nat" where
  "unbe bs = foldl (\<lambda>acc b. acc * 256 + unat b) 0 bs"

lemma length_be [simp]: "length (be n v) = n"
  by (induction n v rule: be.induct) auto

lemma unat_byte [simp]: "unat (word_of_nat v :: byte) = v mod 256"
  by (simp add: unat_of_nat)

lemma unbe_be: "unbe (be n v) = v mod 256 ^ n"
proof (induction n v rule: be.induct)
  case (2 n v)
  have "unbe (be (Suc n) v) = unbe (be n (v div 256)) * 256 + v mod 256" by (simp add: unbe_def)
  also have "\<dots> = (v div 256 mod 256 ^ n) * 256 + v mod 256" using 2 by simp
  also have "\<dots> = v mod 256 ^ Suc n" by (simp add: mod_mult2_eq mult.commute)
  finally show ?case .
qed (simp add: unbe_def)

section \<open>Constants\<close>

definition MaxStreamPayloadSize :: nat where
  "MaxStreamPayloadSize = 5 * 2 ^ 20"

definition streamMACSize :: nat where "streamMACSize = 32"

definition streamFixedSize :: nat where
  "streamFixedSize = 4 + 1 + 1 + 8 + streamMACSize + 4 + streamMACSize"

definition streamFrameData :: byte where "streamFrameData = 0"
definition streamFrameClose :: byte where "streamFrameClose = 1"

definition streamMagic :: "byte list" where
  "streamMagic = [65, 84, 72, 49]"

section \<open>Frames\<close>

text \<open>\<open>mac key m\<close> is \<open>frameMAC\<close>, with the domain prefix of frames.\<close>

definition frameMAC :: "('k \<Rightarrow> byte list \<Rightarrow> byte list) \<Rightarrow> 'k \<Rightarrow> byte list \<Rightarrow> byte list" where
  "frameMAC hmac key authenticatedFrame =
     hmac key ([97, 116, 111, 108, 45, 115, 116, 114, 101, 97, 109, 45, 102, 114, 97, 109, 101, 47, 118, 49, 0] @ authenticatedFrame)"

text \<open>What the tag of a frame covers: \<open>frame[:macOffset]\<close>.\<close>

definition frameBody :: "byte \<Rightarrow> byte \<Rightarrow> nat \<Rightarrow> byte list \<Rightarrow> byte list \<Rightarrow> byte list" where
  "frameBody kind originalFlags sequence previous payload =
     streamMagic @ [kind, originalFlags] @ be 8 sequence @ previous @ be 4 (length payload) @ payload"

definition marshalStreamFrame ::
    "('k \<Rightarrow> byte list \<Rightarrow> byte list) \<Rightarrow> 'k \<Rightarrow> byte \<Rightarrow> byte \<Rightarrow> nat \<Rightarrow> byte list \<Rightarrow> byte list \<Rightarrow> byte list \<times> byte list" where
  "marshalStreamFrame hmac key kind originalFlags sequence previous payload =
     (let body = frameBody kind originalFlags sequence previous payload;
          tag = frameMAC hmac key body
      in (body @ tag, tag))"

definition writeOuterFrame ::
    "(byte list \<Rightarrow> 'w \<Rightarrow> goerror option \<times> 'w) \<Rightarrow> byte list \<Rightarrow> 'w \<Rightarrow> goerror option \<times> 'w" where
  "writeOuterFrame wr frame w =
     (case wr (0 # be 4 (length frame)) w of
        (Some err, w') \<Rightarrow> (Some err, w')
      | (None, w') \<Rightarrow> wr frame w')"

section \<open>Encoding\<close>

text \<open>\<open>io.ReadFull\<close> of \<open>n\<close> bytes: the end only when nothing was left to read.\<close>

datatype readFull = Full "byte list" "byte list" | EOF | Short

definition ReadFull :: "nat \<Rightarrow> byte list \<Rightarrow> readFull" where
  "ReadFull n src =
     (if n \<le> length src then Full (take n src) (drop n src)
      else if src = [] then EOF else Short)"

lemma ReadFull_Full: "ReadFull n src = Full a b \<Longrightarrow> src = a @ b \<and> length a = n"
  by (auto simp: ReadFull_def split: if_splits)

lemma ReadFull_append [simp]: "length a = n \<Longrightarrow> ReadFull n (a @ b) = Full a b"
  by (simp add: ReadFull_def)

text \<open>\<open>ctxErr i\<close> is \<open>ctx.Err()\<close> at the start of iteration \<open>i\<close>.\<close>

function encodeStream ::
    "('k \<Rightarrow> byte list \<Rightarrow> byte list) \<Rightarrow> (nat \<Rightarrow> goerror option) \<Rightarrow> (byte list \<Rightarrow> 'w \<Rightarrow> goerror option \<times> 'w) \<Rightarrow> 'k \<Rightarrow>
     nat \<Rightarrow> nat \<Rightarrow> byte list \<Rightarrow> byte list \<Rightarrow> 'w \<Rightarrow> goerror option \<times> 'w" where
  "encodeStream hmac ctxErr wr key i sequence previous source w =
     (case ctxErr i of
        Some err \<Rightarrow> (Some err, w)
      | None \<Rightarrow>
          (case ReadFull 5 source of
             EOF \<Rightarrow> writeOuterFrame wr (fst (marshalStreamFrame hmac key streamFrameClose 0 sequence previous [])) w
           | Short \<Rightarrow> (Some (Wrapf STR ''%w: request envelope header'' [] ErrStreamMalformed), w)
           | Full header rest \<Rightarrow>
               (let payloadLength = unbe (drop 1 header) in
                if payloadLength > MaxStreamPayloadSize
                then (Some (Wrapf STR ''%w: payload exceeds %d bytes'' [] ErrStreamMalformed), w)
                else if payloadLength > length rest
                then (Some (Wrapf STR ''%w: request envelope payload'' [] ErrStreamMalformed), w)
                else (let payload = take payloadLength rest;
                          (frame, tag) = marshalStreamFrame hmac key streamFrameData (header ! 0) sequence previous payload
                      in case writeOuterFrame wr frame w of
                           (Some err, w') \<Rightarrow> (Some err, w')
                         | (None, w') \<Rightarrow>
                             encodeStream hmac ctxErr wr key (i + 1) ((sequence + 1) mod 2 ^ 64) tag (drop payloadLength rest) w'))))"
  by pat_completeness auto
termination
  by (relation "measure (\<lambda>(_, _, _, _, _, _, _, source, _). length source)")
    (auto simp: ReadFull_def split: if_splits)

section \<open>Verifying\<close>

record Reader =
  rSource :: "byte list"
  rSequence :: nat
  rPrevious :: "byte list"
  rPending :: "byte list"
  rClosed :: bool

definition NewVerifiedStreamBody :: "byte list \<Rightarrow> Reader" where
  "NewVerifiedStreamBody body =
     \<lparr>rSource = body, rSequence = 0, rPrevious = replicate streamMACSize 0, rPending = [], rClosed = False\<rparr>"

text \<open>\<open>readFrame\<close> in its two halves: reading the outer envelope, and opening the frame in it.\<close>

definition readOuter :: "Reader \<Rightarrow> byte list res \<times> Reader" where
  "readOuter r =
     (case ReadFull 5 (rSource r) of
        EOF \<Rightarrow> (Inl ErrStreamTruncated, r)
      | Short \<Rightarrow> (Inl ErrStreamMalformed, r\<lparr>rSource := []\<rparr>)
      | Full outer rest \<Rightarrow>
          if outer ! 0 \<noteq> 0 then (Inl ErrStreamMalformed, r\<lparr>rSource := rest\<rparr>)
          else if unbe (drop 1 outer) < streamFixedSize \<or> unbe (drop 1 outer) > streamFixedSize + MaxStreamPayloadSize
          then (Inl ErrStreamMalformed, r\<lparr>rSource := rest\<rparr>)
          else case ReadFull (unbe (drop 1 outer)) rest of
            EOF \<Rightarrow> (Inl ErrStreamMalformed, r\<lparr>rSource := rest\<rparr>)
          | Short \<Rightarrow> (Inl ErrStreamMalformed, r\<lparr>rSource := []\<rparr>)
          | Full frame rest' \<Rightarrow> (Inr frame, r\<lparr>rSource := rest'\<rparr>))"

definition openKind :: "byte \<Rightarrow> byte \<Rightarrow> byte list \<Rightarrow> Reader \<Rightarrow> goerror option \<times> Reader" where
  "openKind kind originalFlags payload r =
     (if kind = streamFrameData
      then (None, r\<lparr>rPending := originalFlags # be 4 (length payload) @ payload\<rparr>)
      else if kind = streamFrameClose
      then (if originalFlags \<noteq> 0 \<or> length payload \<noteq> 0 then (Some ErrStreamMalformed, r)
            else if rSource r \<noteq> [] then (Some ErrStreamMalformed, r\<lparr>rSource := tl (rSource r)\<rparr>)
            else (None, r\<lparr>rClosed := True\<rparr>))
      else (Some ErrStreamMalformed, r))"

definition openFrame ::
    "('k \<Rightarrow> byte list \<Rightarrow> byte list) \<Rightarrow> 'k \<Rightarrow> byte list \<Rightarrow> Reader \<Rightarrow> goerror option \<times> Reader" where
  "openFrame hmac key frame r =
     (let macOffset = length frame - streamMACSize;
          wantMAC = frameMAC hmac key (take macOffset frame)
      in
      if take 4 frame \<noteq> streamMagic then (Some ErrStreamMalformed, r)
      else if unbe (take 8 (drop 6 frame)) \<noteq> rSequence r \<or> take streamMACSize (drop 14 frame) \<noteq> rPrevious r
      then (Some ErrStreamSequence, r)
      else if unbe (take 4 (drop (14 + streamMACSize) frame)) \<noteq> length frame - streamFixedSize
      then (Some ErrStreamMalformed, r)
      else if drop macOffset frame \<noteq> wantMAC then (Some ErrStreamIntegrity, r)
      else openKind (frame ! 4) (frame ! 5) (drop (18 + streamMACSize) (take macOffset frame))
             (r\<lparr>rPrevious := wantMAC, rSequence := (rSequence r + 1) mod 2 ^ 64\<rparr>))"

definition readFrame ::
    "('k \<Rightarrow> byte list \<Rightarrow> byte list) \<Rightarrow> 'k \<Rightarrow> Reader \<Rightarrow> goerror option \<times> Reader" where
  "readFrame hmac key r =
     (case readOuter r of
        (Inl err, r') \<Rightarrow> (Some err, r')
      | (Inr frame, r') \<Rightarrow> openFrame hmac key frame r')"

text \<open>The result of a \<open>Read\<close>: bytes, the end, or an error.\<close>

datatype readResult = Bytes "byte list" | End | Fail goerror

lemma readOuter_ok:
  assumes "readOuter r = (Inr frame, r')"
  obtains header where "rSource r = header @ frame @ rSource r'" "length header = 5" "r' = r\<lparr>rSource := rSource r'\<rparr>"
    "streamFixedSize \<le> length frame" "length frame \<le> streamFixedSize + MaxStreamPayloadSize"
proof -
  obtain outer rest where o: "ReadFull 5 (rSource r) = Full outer rest"
    using assms by (auto simp: readOuter_def split: readFull.splits)
  obtain f rest' where f: "ReadFull (unbe (drop 1 outer)) rest = Full f rest'"
    using assms o by (auto simp: readOuter_def split: readFull.splits if_splits)
  have "frame = f" "r' = r\<lparr>rSource := rest'\<rparr>" "\<not> unbe (drop 1 outer) < streamFixedSize"
    "\<not> unbe (drop 1 outer) > streamFixedSize + MaxStreamPayloadSize"
    using assms o f by (auto simp: readOuter_def split: if_splits)
  moreover have "rSource r = outer @ f @ rest'" "length outer = 5" "length f = unbe (drop 1 outer)"
    using ReadFull_Full [OF o] ReadFull_Full [OF f] by auto
  ultimately show thesis by (intro that [of outer]) auto
qed

lemma openKind_ok:
  assumes "openKind kind flags payload r = (None, r')"
  obtains (data) "kind = streamFrameData" "r' = r\<lparr>rPending := flags # be 4 (length payload) @ payload\<rparr>"
  | (closing) "kind = streamFrameClose" "flags = 0" "payload = []" "rSource r = []" "r' = r\<lparr>rClosed := True\<rparr>"
  using assms by (auto simp: openKind_def split: if_splits)

lemma openKind_source: "openKind kind flags payload r = (None, r') \<Longrightarrow> rSource r' = rSource r"
  by (auto elim!: openKind_ok)

lemma readFrame_source: "readFrame hmac key r = (None, r') \<Longrightarrow> length (rSource r') < length (rSource r)"
proof -
  assume ok: "readFrame hmac key r = (None, r')"
  then obtain frame r1 where o: "readOuter r = (Inr frame, r1)" and f: "openFrame hmac key frame r1 = (None, r')"
    by (auto simp: readFrame_def split: prod.splits sum.splits)
  have "rSource r' = rSource r1" using f by (auto simp: openFrame_def Let_def dest!: openKind_source split: if_splits)
  with o show ?thesis by (elim readOuter_ok) auto
qed

text \<open>The loop of \<open>Read\<close> until there is something to deliver.\<close>

function Read_Stream ::
    "('k \<Rightarrow> byte list \<Rightarrow> byte list) \<Rightarrow> 'k \<Rightarrow> nat \<Rightarrow> Reader \<Rightarrow> readResult \<times> Reader" where
  "Read_Stream hmac key n r =
     (if rPending r \<noteq> [] then (Bytes (take n (rPending r)), r\<lparr>rPending := drop n (rPending r)\<rparr>)
      else if rClosed r then (End, r)
      else case readFrame hmac key r of
        (Some err, r') \<Rightarrow> (Fail err, r')
      | (None, r') \<Rightarrow> Read_Stream hmac key n r')"
  by pat_completeness auto
termination
  by (relation "measure (\<lambda>(_, _, _, r). length (rSource r))") (auto dest: readFrame_source [OF sym])

section \<open>Whole streams\<close>

text \<open>A consumer that reads with a buffer of \<open>n + 1\<close> bytes until the end or an error.\<close>

lemma openFrame_ok:
  assumes "openFrame hmac key frame r = (None, r')"
  shows "openKind (frame ! 4) (frame ! 5) (drop (18 + streamMACSize) (take (length frame - streamMACSize) frame))
      (r\<lparr>rPrevious := frameMAC hmac key (take (length frame - streamMACSize) frame), rSequence := (rSequence r + 1) mod 2 ^ 64\<rparr>) = (None, r')"
    "unbe (take 8 (drop 6 frame)) = rSequence r" "take 4 frame = streamMagic" "take streamMACSize (drop 14 frame) = rPrevious r"
    "drop (length frame - streamMACSize) frame = frameMAC hmac key (take (length frame - streamMACSize) frame)"
  using assms by (auto simp: openFrame_def Let_def split: if_splits)

lemma readFrame_total:
  assumes "readFrame hmac key r = (None, r')" and "rPending r = []"
  shows "length (rSource r') + length (rPending r') < length (rSource r)"
proof -
  from assms(1) obtain frame r1 where o: "readOuter r = (Inr frame, r1)" and f: "openFrame hmac key frame r1 = (None, r')"
    by (auto simp: readFrame_def split: prod.splits sum.splits)
  from o obtain header where h: "rSource r = header @ frame @ rSource r1" "length header = 5" "rPending r1 = rPending r"
    "streamFixedSize \<le> length frame"
    by (elim readOuter_ok) (metis Reader.select_convs(4) Reader.surjective Reader.update_convs(1))
  from openFrame_ok(1) [OF f] show ?thesis
    by (cases rule: openKind_ok) (use h assms(2) in \<open>auto simp: streamFixedSize_def streamMACSize_def\<close>)
qed

declare Read_Stream.simps [simp del]

lemma Read_Stream_shrinks:
  "Read_Stream hmac key (Suc n) r = (Bytes b, r') \<Longrightarrow>
   length (rSource r') + length (rPending r') < length (rSource r) + length (rPending r)"
proof (induction hmac key "Suc n" r rule: Read_Stream.induct)
  case (1 hmac key r)
  show ?case
  proof (cases "rPending r = []")
    case False
    with "1.prems" show ?thesis by (auto simp: Read_Stream.simps [of hmac key "Suc n" r])
  next
    case True
    with "1.prems" obtain r1 where rf: "readFrame hmac key r = (None, r1)" and cl: "\<not> rClosed r"
      and rd: "Read_Stream hmac key (Suc n) r1 = (Bytes b, r')"
      by (auto simp: Read_Stream.simps [of hmac key "Suc n" r] split: if_splits prod.splits option.splits)
    from "1.hyps" [OF _ cl rf [symmetric] refl rd] True readFrame_total [OF rf True] show ?thesis by simp
  qed
qed

function readAll :: "('k \<Rightarrow> byte list \<Rightarrow> byte list) \<Rightarrow> 'k \<Rightarrow> nat \<Rightarrow> Reader \<Rightarrow> byte list \<times> goerror option" where
  "readAll hmac key n r =
     (case Read_Stream hmac key (Suc n) r of
        (Bytes b, r') \<Rightarrow> (case readAll hmac key n r' of (bs, e) \<Rightarrow> (b @ bs, e))
      | (End, _) \<Rightarrow> ([], None)
      | (Fail err, _) \<Rightarrow> ([], Some err))"
  by pat_completeness auto
termination
  by (relation "measure (\<lambda>(_, _, _, r). length (rSource r) + length (rPending r))")
    (auto dest: Read_Stream_shrinks [OF sym])

declare readAll.simps [simp del]

lemma frames_source:
  assumes "readOuter r = (Inr frame, r1)" and "openFrame hmac key frame (r1\<lparr>rPending := p\<rparr>) = (None, r2)"
  shows "length (rSource r2) < length (rSource r)"
proof -
  have "rSource r2 = rSource r1" using openFrame_ok(1) [OF assms(2)] by (auto dest!: openKind_source)
  with assms(1) show ?thesis by (elim readOuter_ok) simp
qed

text \<open>The frames one after the other: what they deliver, and how it ends.\<close>

function frames ::
    "('k \<Rightarrow> byte list \<Rightarrow> byte list) \<Rightarrow> 'k \<Rightarrow> Reader \<Rightarrow> byte list \<times> goerror option" where
  "frames hmac key r =
     (if rClosed r then ([], None)
      else case readOuter r of
        (Inl err, _) \<Rightarrow> ([], Some err)
      | (Inr frame, r1) \<Rightarrow>
          (case openFrame hmac key frame (r1\<lparr>rPending := []\<rparr>) of
             (Some err, _) \<Rightarrow> ([], Some err)
           | (None, r2) \<Rightarrow> (case frames hmac key r2 of (out, e) \<Rightarrow> (rPending r2 @ out, e))))"
  by pat_completeness auto
termination
  by (relation "measure (\<lambda>(_, _, r). length (rSource r))") (auto dest: frames_source [OF sym sym])

declare frames.simps [simp del]

lemma readOuter_pending: "readOuter (r\<lparr>rPending := p\<rparr>) = (case readOuter r of (x, r1) \<Rightarrow> (x, r1\<lparr>rPending := p\<rparr>))"
  by (simp add: readOuter_def split: readFull.split)

lemma frames_pending: "frames hmac key (r\<lparr>rPending := p\<rparr>) = frames hmac key r"
  by (simp add: frames.simps [of hmac key "r\<lparr>rPending := p\<rparr>"] frames.simps [of hmac key r] readOuter_pending
      split: prod.split sum.split)

text \<open>Reading with any buffer delivers what the frames deliver.\<close>

lemma frames_readFrame:
  assumes "readFrame hmac key r = (y, r2)" and "rPending r = []" and "\<not> rClosed r"
  shows "(\<exists>err. y = Some err \<and> frames hmac key r = ([], Some err)) \<or>
    y = None \<and> (\<exists>out e. frames hmac key r2 = (out, e) \<and> frames hmac key r = (rPending r2 @ out, e))"
proof -
  obtain x r1 where o: "readOuter r = (x, r1)" by fastforce
  show ?thesis
  proof (cases x)
    case (Inl err)
    with o assms show ?thesis by (auto simp: readFrame_def frames.simps [of hmac key r])
  next
    case (Inr frame)
    have "r1\<lparr>rPending := []\<rparr> = r1"
      using readOuter_ok [OF o [unfolded Inr]] assms(2) by (metis Reader.surjective Reader.update_convs(1,4) Reader.select_convs(4))
    with Inr o assms show ?thesis
      by (cases "frames hmac key r2") (auto simp: readFrame_def frames.simps [of hmac key r] split: option.split)
  qed
qed

lemma Read_Stream_frames:
  assumes "Read_Stream hmac key (Suc n) r = (res, r')"
  shows "\<exists>out e. frames hmac key r = (out, e) \<and>
      (case res of
         Bytes b \<Rightarrow> \<exists>out'. frames hmac key r' = (out', e) \<and> rPending r @ out = b @ rPending r' @ out'
       | End \<Rightarrow> rPending r @ out = [] \<and> e = None
       | Fail err \<Rightarrow> rPending r @ out = [] \<and> e = Some err)"
  using assms
proof (induction hmac key "Suc n" r rule: Read_Stream.induct)
  case (1 hmac key r)
  note rd = Read_Stream.simps [of hmac key "Suc n" r]
  consider "rPending r \<noteq> []" | "rPending r = []" "rClosed r" | "rPending r = []" "\<not> rClosed r" by blast
  then show ?case
  proof cases
    case 1
    with "1.prems" show ?thesis by (cases "frames hmac key r") (auto simp: rd frames_pending)
  next
    case 2
    then have "frames hmac key r = ([], None)" by (simp add: frames.simps [of hmac key r])
    with 2 "1.prems" show ?thesis by (auto simp: rd)
  next
    case 3
    obtain y r2 where rf: "readFrame hmac key r = (y, r2)" by fastforce
    from frames_readFrame [OF rf 3] show ?thesis
    proof (elim disjE exE conjE)
      fix err assume "y = Some err" "frames hmac key r = ([], Some err)"
      with 3 rf "1.prems" show ?thesis by (auto simp: rd)
    next
      fix out e assume y: "y = None" and f: "frames hmac key r2 = (out, e)" "frames hmac key r = (rPending r2 @ out, e)"
      with 3 rf "1.prems" have "Read_Stream hmac key (Suc n) r2 = (res, r')" by (simp add: rd)
      from "1.hyps" [OF _ 3(2) rf [symmetric, unfolded y] refl this] 3 f show ?thesis by (cases res) simp_all
    qed
  qed
qed

lemma readAll_frames: "\<exists>out e. frames hmac key r = (out, e) \<and> readAll hmac key n r = (rPending r @ out, e)"
proof (induction hmac key n r rule: readAll.induct)
  case (1 hmac key n r)
  obtain res r' where rd: "Read_Stream hmac key (Suc n) r = (res, r')" by fastforce
  note fr = Read_Stream_frames [OF rd]
  show ?case
  proof (cases res)
    case (Bytes b)
    from "1.IH" [OF rd [symmetric] Bytes] fr Bytes show ?thesis
      by (auto simp: readAll.simps [of hmac key n r] rd)
  qed (use fr rd in \<open>auto simp: readAll.simps [of hmac key n r]\<close>)
qed

section \<open>Envelopes on the wire\<close>

text \<open>The Connect envelopes of a request, and the bytes they are.\<close>

type_synonym envelope = "byte \<times> byte list"

fun envelopeBytes :: "envelope list \<Rightarrow> byte list" where
  "envelopeBytes [] = []"
| "envelopeBytes ((flags, payload) # es) = flags # be 4 (length payload) @ payload @ envelopeBytes es"

text \<open>The bodies the client signs for them, in order.\<close>

fun signed :: "('k \<Rightarrow> byte list \<Rightarrow> byte list) \<Rightarrow> 'k \<Rightarrow> nat \<Rightarrow> byte list \<Rightarrow> envelope list \<Rightarrow> byte list list" where
  "signed hmac key sequence previous [] = [frameBody streamFrameClose 0 sequence previous []]"
| "signed hmac key sequence previous ((flags, payload) # es) =
     (let body = frameBody streamFrameData flags sequence previous payload in
      body # signed hmac key ((sequence + 1) mod 2 ^ 64) (frameMAC hmac key body) es)"

definition wire :: "('k \<Rightarrow> byte list \<Rightarrow> byte list) \<Rightarrow> 'k \<Rightarrow> byte list list \<Rightarrow> byte list" where
  "wire hmac key bodies =
     concat (map (\<lambda>body. let frame = body @ frameMAC hmac key body in 0 # be 4 (length frame) @ frame) bodies)"

definition small :: "envelope list \<Rightarrow> bool" where
  "small es \<longleftrightarrow> (\<forall>(flags, payload) \<in> set es. length payload \<le> MaxStreamPayloadSize)"

text \<open>The documented size of HMAC-SHA256.\<close>

definition mac_size_ok :: "('k \<Rightarrow> byte list \<Rightarrow> byte list) \<Rightarrow> bool" where
  "mac_size_ok hmac \<longleftrightarrow> (\<forall>key m. length (hmac key m) = streamMACSize)"

abbreviation appendTo :: "byte list \<Rightarrow> byte list \<Rightarrow> goerror option \<times> byte list" where
  "appendTo bs w \<equiv> (None, w @ bs)"

lemma unbe_length: "n \<le> MaxStreamPayloadSize + streamFixedSize \<Longrightarrow> unbe (be 4 n) = n"
  by (simp add: unbe_be MaxStreamPayloadSize_def streamFixedSize_def streamMACSize_def)

declare encodeStream.simps [simp del]

lemma encodeStream_wire:
  assumes "small es"
  shows "encodeStream hmac (\<lambda>_. None) appendTo key i sequence previous (envelopeBytes es) w =
    (None, w @ wire hmac key (signed hmac key sequence previous es))"
  using assms
proof (induction es arbitrary: i sequence previous w)
  case Nil
  show ?case
    by (simp add: encodeStream.simps [of hmac _ appendTo] ReadFull_def writeOuterFrame_def marshalStreamFrame_def wire_def Let_def)
next
  case (Cons p es)
  obtain flags payload where p: "p = (flags, payload)" by (cases p)
  have len: "length payload \<le> MaxStreamPayloadSize" and sm: "small es" using Cons.prems p by (auto simp: small_def)
  have rf: "ReadFull 5 (envelopeBytes (p # es)) = Full (flags # be 4 (length payload)) (payload @ envelopeBytes es)"
    using ReadFull_append [of "flags # be 4 (length payload)" 5] by (simp add: p)
  have "unbe (be 4 (length payload)) = length payload" using len by (simp add: unbe_length)
  then show ?case
    using len rf Cons.IH [OF sm]
    by (simp add: encodeStream.simps [of hmac _ appendTo] writeOuterFrame_def marshalStreamFrame_def wire_def p Let_def)
qed

lemma frameBody_fields:
  assumes "length previous = streamMACSize"
  shows "take 4 (frameBody kind flags sq previous payload) = streamMagic"
    "frameBody kind flags sq previous payload ! 4 = kind" "frameBody kind flags sq previous payload ! 5 = flags"
    "take 8 (drop 6 (frameBody kind flags sq previous payload)) = be 8 sq"
    "take streamMACSize (drop 14 (frameBody kind flags sq previous payload)) = previous"
    "take 4 (drop (14 + streamMACSize) (frameBody kind flags sq previous payload)) = be 4 (length payload)"
    "drop (18 + streamMACSize) (frameBody kind flags sq previous payload) = payload"
    "length (frameBody kind flags sq previous payload) = 18 + streamMACSize + length payload"
  using assms by (simp_all add: frameBody_def streamMagic_def streamMACSize_def nth_append nth_Cons')

lemma readOuter_wire:
  assumes "rSource r = 0 # be 4 (length frame) @ frame @ rest" and "streamFixedSize \<le> length frame"
    and "length frame \<le> streamFixedSize + MaxStreamPayloadSize"
  shows "readOuter r = (Inr frame, r\<lparr>rSource := rest\<rparr>)"
proof -
  have "ReadFull 5 (rSource r) = Full (0 # be 4 (length frame)) (frame @ rest)"
    using ReadFull_append [of "0 # be 4 (length frame)" 5] assms(1) by simp
  moreover have "unbe (be 4 (length frame)) = length frame" using assms(3) by (simp add: unbe_length add.commute)
  ultimately show ?thesis using assms(2,3) by (simp add: readOuter_def)
qed

lemma openFrame_wire:
  assumes "mac_size_ok hmac" and "length (rPrevious r) = streamMACSize" and "rSequence r < 2 ^ 64"
    and "body = frameBody kind flags (rSequence r) (rPrevious r) payload" and "length payload \<le> MaxStreamPayloadSize"
  shows "openFrame hmac key (body @ frameMAC hmac key body) r =
    openKind kind flags payload (r\<lparr>rPrevious := frameMAC hmac key body, rSequence := (rSequence r + 1) mod 2 ^ 64\<rparr>)"
proof -
  let ?tag = "frameMAC hmac key body"
  note fields = frameBody_fields [OF assms(2), of kind flags "rSequence r" payload, folded assms(4)]
  have tag: "length ?tag = streamMACSize" using assms(1) by (simp add: mac_size_ok_def frameMAC_def)
  have mo: "length (body @ ?tag) - streamMACSize = length body" using tag by simp
  have len: "length body = 18 + streamMACSize + length payload" using fields(8) .
  have "take 4 (body @ ?tag) = streamMagic" "(body @ ?tag) ! 4 = kind" "(body @ ?tag) ! 5 = flags"
    using fields(1-3) len by (simp_all add: streamMACSize_def nth_append)
  moreover have "take 8 (drop 6 (body @ ?tag)) = be 8 (rSequence r)" "take streamMACSize (drop 14 (body @ ?tag)) = rPrevious r"
    "take 4 (drop (14 + streamMACSize) (body @ ?tag)) = be 4 (length payload)"
    using fields(4-6) len by (simp_all add: streamMACSize_def)
  moreover have "unbe (be 8 (rSequence r)) = rSequence r" using assms(3) by (simp add: unbe_be)
  moreover have "unbe (be 4 (length payload)) = length payload" using assms(5) by (simp add: unbe_length)
  moreover have "length (body @ ?tag) - streamFixedSize = length payload"
    using len tag by (simp add: streamFixedSize_def streamMACSize_def)
  ultimately show ?thesis
    using fields(7) mo by (simp add: openFrame_def Let_def)
qed

lemma wire_Cons: "wire hmac key (b # bs) = 0 # be 4 (length (b @ frameMAC hmac key b)) @ (b @ frameMAC hmac key b) @ wire hmac key bs"
  by (simp add: wire_def Let_def)

lemma frames_wire:
  assumes "mac_size_ok hmac" and "small es"
    and "\<not> rClosed r" and "length (rPrevious r) = streamMACSize" and "rSequence r < 2 ^ 64"
    and "rSource r = wire hmac key (signed hmac key (rSequence r) (rPrevious r) es)"
  shows "frames hmac key r = (envelopeBytes es, None)"
  using assms(2-)
proof (induction es arbitrary: r)
  case Nil
  let ?b = "frameBody streamFrameClose 0 (rSequence r) (rPrevious r) []"
  let ?f = "?b @ frameMAC hmac key ?b"
  have tag: "length (frameMAC hmac key m) = streamMACSize" for m using assms(1) by (simp add: mac_size_ok_def frameMAC_def)
  have len: "length ?b = 18 + streamMACSize" using frameBody_fields(8) [OF Nil.prems(3)] by simp
  have o: "readOuter r = (Inr ?f, r\<lparr>rSource := []\<rparr>)"
    using Nil.prems(5) len tag by (intro readOuter_wire) (simp_all add: wire_Cons wire_def streamFixedSize_def)
  have op: "openFrame hmac key ?f (r\<lparr>rSource := [], rPending := []\<rparr>) =
      (None, r\<lparr>rSource := [], rPending := [], rPrevious := frameMAC hmac key ?b, rSequence := (rSequence r + 1) mod 2 ^ 64, rClosed := True\<rparr>)"
    using openFrame_wire [OF assms(1), of "r\<lparr>rSource := [], rPending := []\<rparr>" ?b streamFrameClose 0 "[]" key] Nil.prems
    by (simp add: openKind_def streamFrameClose_def streamFrameData_def)
  have fin: "frames hmac key (r\<lparr>rSource := [], rPending := [], rPrevious := p, rSequence := q, rClosed := True\<rparr>) = ([], None)" for p q
    by (simp add: frames.simps)
  show ?case
    unfolding frames.simps [of hmac key r] o using Nil.prems(2) op len tag by (simp add: fin)
next
  case (Cons p es)
  obtain flags payload where p: "p = (flags, payload)" by (cases p)
  have pl: "length payload \<le> MaxStreamPayloadSize" and sm: "small es" using Cons.prems(1) p by (auto simp: small_def)
  let ?b = "frameBody streamFrameData flags (rSequence r) (rPrevious r) payload"
  let ?f = "?b @ frameMAC hmac key ?b"
  let ?rest = "wire hmac key (signed hmac key ((rSequence r + 1) mod 2 ^ 64) (frameMAC hmac key ?b) es)"
  have tag: "length (frameMAC hmac key m) = streamMACSize" for m using assms(1) by (simp add: mac_size_ok_def frameMAC_def)
  have len: "length ?b = 18 + streamMACSize + length payload" using frameBody_fields(8) [OF Cons.prems(3)] by simp
  have o: "readOuter r = (Inr ?f, r\<lparr>rSource := ?rest\<rparr>)"
    using Cons.prems(5) len tag pl by (intro readOuter_wire) (simp_all add: p Let_def wire_Cons streamFixedSize_def)
  let ?r2 = "r\<lparr>rSource := ?rest, rPending := flags # be 4 (length payload) @ payload, rPrevious := frameMAC hmac key ?b,
    rSequence := (rSequence r + 1) mod 2 ^ 64\<rparr>"
  have op: "openFrame hmac key ?f (r\<lparr>rSource := ?rest, rPending := []\<rparr>) = (None, ?r2)"
    using openFrame_wire [OF assms(1), of "r\<lparr>rSource := ?rest, rPending := []\<rparr>" ?b streamFrameData flags payload key] Cons.prems pl
    by (simp add: openKind_def)
  have ih: "frames hmac key ?r2 = (envelopeBytes es, None)"
    by (rule Cons.IH [OF sm]) (use Cons.prems tag in simp_all)
  show ?case
    unfolding frames.simps [of hmac key r] o using Cons.prems(2) op len tag ih by (simp add: p Let_def)
qed

text \<open>
  C17. Signed streams round-trip. With a keyed hash of the documented size, whatever envelopes of at
  most 5 MiB the client sends, the server's verifying reader, read with a buffer of any size, delivers
  exactly their bytes and then a clean end.
\<close>

theorem stream_roundtrip:
  assumes "mac_size_ok hmac" and "small es"
  shows "readAll hmac key n (NewVerifiedStreamBody
      (snd (encodeStream hmac (\<lambda>_. None) appendTo key 0 0 (replicate streamMACSize 0) (envelopeBytes es) []))) =
    (envelopeBytes es, None)"
proof -
  let ?r = "NewVerifiedStreamBody (wire hmac key (signed hmac key 0 (replicate streamMACSize 0) es))"
  have "frames hmac key ?r = (envelopeBytes es, None)"
    by (rule frames_wire [OF assms]) (simp_all add: NewVerifiedStreamBody_def)
  with readAll_frames [of hmac key ?r n] show ?thesis
    by (auto simp: encodeStream_wire [OF assms(2)] NewVerifiedStreamBody_def)
qed

section \<open>Authenticity\<close>

definition bodyAt :: "envelope list \<Rightarrow> nat \<Rightarrow> nat \<Rightarrow> byte list \<Rightarrow> byte list" where
  "bodyAt es i sq previous =
     (if i < length es then frameBody streamFrameData (fst (es ! i)) sq previous (snd (es ! i))
      else frameBody streamFrameClose 0 sq previous [])"

lemma signed_nth:
  assumes "mac_size_ok hmac" and "length previous = streamMACSize" and "b \<in> set (signed hmac key sq previous es)"
  shows "\<exists>i previous'. i \<le> length es \<and> length previous' = streamMACSize \<and> b = bodyAt es i (if i = 0 then sq else (sq + i) mod 2 ^ 64) previous'"
  using assms(2,3)
proof (induction es arbitrary: sq previous)
  case Nil
  then show ?case by (auto simp: bodyAt_def)
next
  case (Cons p es)
  obtain flags payload where p: "p = (flags, payload)" by (cases p)
  let ?b = "frameBody streamFrameData flags sq previous payload"
  show ?case
  proof (cases "b = ?b")
    case True
    with Cons.prems p show ?thesis by (intro exI [of _ 0] exI [of _ previous]) (simp add: bodyAt_def)
  next
    case False
    have "length (frameMAC hmac key ?b) = streamMACSize" using assms(1) by (simp add: mac_size_ok_def frameMAC_def)
    from Cons.IH [OF this, of "(sq + 1) mod 2 ^ 64"] False Cons.prems(2) p obtain i previous' where
      "i \<le> length es" "length previous' = streamMACSize"
      "b = bodyAt es i (if i = 0 then (sq + 1) mod 2 ^ 64 else ((sq + 1) mod 2 ^ 64 + i) mod 2 ^ 64) previous'"
      by (auto simp: Let_def)
    moreover have "((sq + 1) mod 2 ^ 64 + i) mod 2 ^ 64 = (sq + Suc i) mod 2 ^ 64" by (simp add: mod_simps)
    ultimately show ?thesis by (intro exI [of _ "Suc i"] exI [of _ previous']) (auto simp: bodyAt_def)
  qed
qed

text \<open>A verified body that carries the reader's number is the envelope of that number.\<close>

lemma signed_opens:
  assumes "mac_size_ok hmac" and "length es < 2 ^ 64"
    and "take (length frame - streamMACSize) frame \<in> set (signed hmac key 0 (replicate streamMACSize 0) es)"
    and "unbe (take 8 (drop 6 frame)) = k"
  shows "k \<le> length es \<and> frame ! 4 = (if k < length es then streamFrameData else streamFrameClose) \<and>
    (k < length es \<longrightarrow> frame ! 5 = fst (es ! k) \<and>
       drop (18 + streamMACSize) (take (length frame - streamMACSize) frame) = snd (es ! k))"
proof -
  let ?b = "take (length frame - streamMACSize) frame"
  obtain i previous where i: "i \<le> length es" "length previous = streamMACSize"
    and b: "?b = bodyAt es i (if i = 0 then 0 else (0 + i) mod 2 ^ 64) previous"
    using signed_nth [OF assms(1) _ assms(3)] by auto
  have b: "?b = bodyAt es i i previous" using b i(1) assms(2) by (simp split: if_splits)
  have len: "50 \<le> length ?b" using frameBody_fields(8) [OF i(2)] unfolding b bodyAt_def by (simp add: streamMACSize_def)
  then have fl: "50 \<le> length frame - streamMACSize" by simp
  have sub: "take 8 (drop 6 frame) = take 8 (drop 6 ?b)" "frame ! 4 = ?b ! 4" "frame ! 5 = ?b ! 5"
    using fl by (simp_all add: drop_take min_def)
  have "take 8 (drop 6 ?b) = be 8 i" using frameBody_fields(4) [OF i(2)] unfolding b bodyAt_def by simp
  moreover have "unbe (be 8 i) = i" using i(1) assms(2) by (simp add: unbe_be)
  ultimately have k: "k = i" using assms(4) sub(1) by simp
  show ?thesis
    using i(1) sub(2,3) frameBody_fields(2,3,7) [OF i(2)] unfolding k b by (simp add: bodyAt_def)
qed

lemma frames_step:
  assumes "frames hmac key r = (out, e)" and "\<not> rClosed r"
  obtains (stopped) "out = []" "e \<noteq> None"
  | (opened) frame r1 r2 out' where "readOuter r = (Inr frame, r1)"
      "openFrame hmac key frame (r1\<lparr>rPending := []\<rparr>) = (None, r2)" "frames hmac key r2 = (out', e)" "out = rPending r2 @ out'"
  using assms by (auto simp: frames.simps [of hmac key r] split: prod.splits sum.splits option.splits)

lemma envelopeBytes_drop:
  "k < length es \<Longrightarrow> envelopeBytes (drop k es) = fst (es ! k) # be 4 (length (snd (es ! k))) @ snd (es ! k) @ envelopeBytes (drop (Suc k) es)"
  by (cases "es ! k") (simp add: Cons_nth_drop_Suc [symmetric])

text \<open>
  No forgery of the keyed hash: whatever part of the bytes reads as a frame body with its right tag behind it is one of the bodies
  that were signed. This only speaks of the bytes and of the hash, not of the reader.
\<close>

definition unforged :: "('k \<Rightarrow> byte list \<Rightarrow> byte list) \<Rightarrow> 'k \<Rightarrow> byte list \<Rightarrow> byte list set \<Rightarrow> bool" where
  "unforged hmac key network bodies \<longleftrightarrow>
     (\<forall>body. take 4 body = streamMagic \<longrightarrow> sublist (body @ frameMAC hmac key body) network \<longrightarrow> body \<in> bodies)"

lemma frames_authentic:
  assumes "mac_size_ok hmac" and "length es < 2 ^ 64" and "unforged hmac key network (set (signed hmac key 0 (replicate streamMACSize 0) es))"
  shows "frames hmac key r = (out, e) \<Longrightarrow> \<not> rClosed r \<Longrightarrow> suffix (rSource r) network \<Longrightarrow>
    prefix out (envelopeBytes (drop (rSequence r) es)) \<and> (e = None \<longrightarrow> out = envelopeBytes (drop (rSequence r) es))"
proof (induction "length (rSource r)" arbitrary: r out e rule: less_induct)
  case less
  from less.prems(1,2) show ?case
  proof (cases rule: frames_step)
    case stopped
    then show ?thesis by auto
  next
    case (opened frame r1 r2 out')
    obtain header where src: "rSource r = header @ frame @ rSource r1" and r1': "r1 = r\<lparr>rSource := rSource r1\<rparr>"
      and len: "streamFixedSize \<le> length frame" using readOuter_ok [OF opened(1)] by metis
    have r1: "rSequence r1 = rSequence r" "\<not> rClosed r1"
      using less.prems(2) by (subst r1', simp)+
    let ?k = "rSequence r" and ?body = "take (length frame - streamMACSize) frame"
    note op = openFrame_ok [OF opened(2)]
    have "suffix (rSource r1) (rSource r)" unfolding src by (auto simp: suffix_def intro: exI [of _ "header @ frame"])
    moreover have "rSource r2 = rSource r1" using op(1) by (auto dest!: openKind_source)
    ultimately have suf: "suffix (rSource r2) network" using less.prems(3) by (metis suffix_order.trans)
    have "?body @ frameMAC hmac key ?body = frame" using op(5) append_take_drop_id by metis
    moreover have "sublist frame network"
      using less.prems(3) unfolding src suffix_def sublist_def by (metis append.assoc)
    moreover have "take 4 ?body = streamMagic" using op(3) len by (simp add: streamFixedSize_def streamMACSize_def)
    ultimately have sg: "?body \<in> set (signed hmac key 0 (replicate streamMACSize 0) es)"
      using assms(3) by (simp add: unforged_def)
    have "unbe (take 8 (drop 6 frame)) = ?k" using op(2) r1(1) by simp
    note at = signed_opens [OF assms(1,2) sg this]
    from op(1) show ?thesis
    proof (cases rule: openKind_ok)
      case data
      then have k: "?k < length es" using at by (auto simp: streamFrameData_def streamFrameClose_def split: if_splits)
      have "rSequence r2 = Suc ?k" "\<not> rClosed r2" using data(2) r1 k assms(2) by simp_all
      with less.hyps [OF frames_source [OF opened(1,2)] opened(3) _ suf]
      have "prefix out' (envelopeBytes (drop (Suc ?k) es)) \<and> (e = None \<longrightarrow> out' = envelopeBytes (drop (Suc ?k) es))" by simp
      moreover have "envelopeBytes (drop ?k es) = rPending r2 @ envelopeBytes (drop (Suc ?k) es)"
        using data(2) at k by (simp add: envelopeBytes_drop)
      ultimately show ?thesis using opened(4) by simp
    next
      case closing
      then have "?k = length es" "rClosed r2" "rPending r2 = []"
        using at by (auto simp: streamFrameData_def streamFrameClose_def split: if_splits)
      moreover have "out' = []" using opened(3) calculation(2) by (simp add: frames.simps [of hmac key r2])
      ultimately show ?thesis using opened(4) by simp
    qed
  qed
qed

text \<open>
  C7. A verified stream is what was sent. Take any bytes the network delivers to the server's reader,
  such that no part of them is a frame body with its right tag other than the bodies the client signed for this stream
  (no forgery of the keyed hash). Then what the reader delivers is a prefix of the bytes the client
  sent: nothing altered, reordered, repeated or taken from elsewhere in the stream; and it ends cleanly
  only after all of them: a stream that was cut short is reported.
\<close>

theorem stream_authentic:
  assumes "mac_size_ok hmac" and "length es < 2 ^ 64"
    and "unforged hmac key network (set (signed hmac key 0 (replicate streamMACSize 0) es))"
    and "readAll hmac key n (NewVerifiedStreamBody network) = (received, err)"
  shows "prefix received (envelopeBytes es) \<and> (err = None \<longrightarrow> received = envelopeBytes es)"
  using frames_authentic [OF assms(1-3), of "NewVerifiedStreamBody network"] readAll_frames [of hmac key "NewVerifiedStreamBody network" n] assms(4)
  by (auto simp: NewVerifiedStreamBody_def)

section \<open>A sample stream\<close>

text \<open>A keyed checksum of the documented size stands in for the hash.\<close>

definition sampleMAC :: "byte \<Rightarrow> byte list \<Rightarrow> byte list" where
  "sampleMAC key m = replicate 31 key @ [sum_list m + word_of_nat (length m)]"

lemma sampleMAC_size: "mac_size_ok sampleMAC"
  by (simp add: mac_size_ok_def sampleMAC_def streamMACSize_def)

definition sampleEnvelopes :: "envelope list" where
  "sampleEnvelopes = [(0, [1, 2]), (2, [])]"

theorem stream_roundtrip_witness:
  "readAll sampleMAC 9 3 (NewVerifiedStreamBody
      (snd (encodeStream sampleMAC (\<lambda>_. None) appendTo 9 0 0 (replicate streamMACSize 0) [0, 0, 0, 0, 2, 1, 2, 2, 0, 0, 0, 0] []))) =
    ([0, 0, 0, 0, 2, 1, 2, 2, 0, 0, 0, 0], None)"
proof -
  have "envelopeBytes sampleEnvelopes = [0, 0, 0, 0, 2, 1, 2, 2, 0, 0, 0, 0]" by code_simp
  moreover have "small sampleEnvelopes" by (simp add: small_def sampleEnvelopes_def MaxStreamPayloadSize_def)
  ultimately show ?thesis using stream_roundtrip [OF sampleMAC_size, of sampleEnvelopes 9 3] by simp
qed

definition sampleNetwork :: "byte list" where
  "sampleNetwork = wire sampleMAC 9 (signed sampleMAC 9 0 (replicate streamMACSize 0) [(0, [7])])"

lemma be_sample: "be n 0 = replicate n 0" "be 8 (Suc 0) = replicate 7 0 @ [1]" "be 4 v = be 3 (v div 256) @ [word_of_nat v]"
proof -
  show z: "be n 0 = replicate n 0" for n by (induction n "0::nat" rule: be.induct) (auto simp: replicate_append_same)
  show "be 8 (Suc 0) = replicate 7 0 @ [1]" "be 4 v = be 3 (v div 256) @ [word_of_nat v]"
    using be.simps(2) [of 7 "Suc 0"] be.simps(2) [of 3 v] z [of 7] by (simp_all only: Suc_numeral semiring_norm add_numeral_special) simp_all
qed

lemmas sampleNetwork_eval = sampleNetwork_def frameMAC_def sampleMAC_def wire_def frameBody_def streamMACSize_def streamMagic_def
  streamFrameClose_def streamFrameData_def Let_def be_sample sum_list_replicate

lemma sampleNetwork_bytes:
  "sampleNetwork = [0, 0, 0, 0, 83, 65, 84, 72, 49, 0, 0] @ replicate 43 0 @ [1, 7] @ replicate 31 9 @ [213, 0, 0, 0, 0, 82, 65, 84, 72, 49, 1, 0] @
     replicate 7 0 @ [1] @ replicate 31 9 @ [213, 0, 0, 0, 0] @ replicate 31 9 @ [186]"
  "signed sampleMAC 9 0 (replicate streamMACSize 0) [(0, [7])] =
     [[65, 84, 72, 49, 0, 0] @ replicate 43 0 @ [1, 7],
      [65, 84, 72, 49, 1, 0] @ replicate 7 0 @ [1] @ replicate 31 9 @ [213, 0, 0, 0, 0]]"
  by (simp_all add: sampleNetwork_eval del: replicate_app_Cons_same replicate.simps) (code_simp+)

text \<open>The parts of the bytes that read as a body with its tag, for a key that makes most of the tag.\<close>

fun tagged :: "byte \<Rightarrow> byte list \<Rightarrow> byte list \<Rightarrow> byte list list" where
  "tagged key body [] = []"
| "tagged key body (b # bs) =
     (if take 31 (b # bs) = replicate 31 key \<and> take 32 (b # bs) = frameMAC sampleMAC key body then [body] else []) @ tagged key (body @ [b]) bs"

fun taggedParts :: "byte \<Rightarrow> byte list \<Rightarrow> byte list list" where
  "taggedParts key [] = []"
| "taggedParts key (b # bs) = (if take 4 (b # bs) = streamMagic then tagged key [] (b # bs) else []) @ taggedParts key bs"

lemma tagged_complete: "body' @ frameMAC sampleMAC key (body @ body') @ rest = bs \<Longrightarrow> body @ body' \<in> set (tagged key body bs)"
proof (induction key body bs arbitrary: body' rule: tagged.induct)
  case (1 key body)
  then show ?case by (simp add: frameMAC_def sampleMAC_def)
next
  case (2 key body b bs)
  show ?case
  proof (cases body')
    case Nil
    with "2.prems" have bs: "b # bs = frameMAC sampleMAC key body @ rest" by simp
    have "take 32 (b # bs) = frameMAC sampleMAC key body" "take 31 (b # bs) = replicate 31 key"
      unfolding bs by (simp_all add: frameMAC_def sampleMAC_def)
    then show ?thesis using Nil by simp
  next
    case (Cons c cs)
    with "2.prems" "2.IH" [of cs] show ?thesis by auto
  qed
qed

lemma taggedParts_complete:
  assumes "take 4 body = streamMagic" and "bs = pre @ body @ frameMAC sampleMAC key body @ rest"
  shows "body \<in> set (taggedParts key bs)"
  using assms(2)
proof (induction pre arbitrary: bs)
  case Nil
  obtain c cs where body: "body = c # cs" using assms(1) by (cases body) (auto simp: streamMagic_def)
  have "length body \<ge> 4" using arg_cong [OF assms(1), of length] by (simp add: streamMagic_def)
  then have "take 4 bs = streamMagic" using Nil assms(1) by simp
  moreover have "body \<in> set (tagged key [] bs)" using tagged_complete [of body key "[]" rest bs] Nil by simp
  ultimately show ?case using Nil body by simp
qed auto

lemma unforged_parts: "set (taggedParts key network) \<subseteq> bodies \<Longrightarrow> unforged sampleMAC key network bodies"
  unfolding unforged_def sublist_def using taggedParts_complete by fastforce

text \<open>Delivered whole, the sample stream is read whole; with the last byte changed, its close frame is refused and what came before has been read; cut to
  nothing, it is reported as truncated.\<close>

theorem stream_authentic_witness:
  "list_all (\<lambda>network. case readAll sampleMAC 9 3 (NewVerifiedStreamBody network) of (received, err) \<Rightarrow>
       prefix received [0, 0, 0, 0, 1, 7] \<and> (err = None \<longrightarrow> received = [0, 0, 0, 0, 1, 7]))
     [sampleNetwork, butlast sampleNetwork @ [0], []]"
proof -
  let ?S = "signed sampleMAC 9 0 (replicate streamMACSize 0) [(0, [7])]"
  have "list_all (\<lambda>network. list_all (\<lambda>b. b \<in> set ?S) (taggedParts 9 network)) [sampleNetwork, butlast sampleNetwork @ [0], []]"
    unfolding sampleNetwork_bytes by code_simp
  then have u: "unforged sampleMAC 9 network (set ?S)" if "network \<in> {sampleNetwork, butlast sampleNetwork @ [0], []}" for network
    using that by (intro unforged_parts) (auto simp: list_all_iff)
  have env: "envelopeBytes [(0, [7])] = [0, 0, 0, 0, 1, 7]" by code_simp
  have "case readAll sampleMAC 9 3 (NewVerifiedStreamBody network) of (received, err) \<Rightarrow>
      prefix received [0, 0, 0, 0, 1, 7] \<and> (err = None \<longrightarrow> received = [0, 0, 0, 0, 1, 7])"
    if "network \<in> {sampleNetwork, butlast sampleNetwork @ [0], []}" for network
    using stream_authentic [OF sampleMAC_size _ u [OF that], of 3, unfolded env] by (auto split: prod.split)
  then show ?thesis by simp
qed

section \<open>Signed requests\<close>

text \<open>
  The transport. \<open>hmacBytes\<close> is HMAC-SHA256, \<open>hex\<close> the lower-case hexadecimal, \<open>sha\<close> SHA-256, \<open>b64\<close> and
  \<open>unb64\<close> the raw URL base64. Header values are ASCII. The request keeps what signing reads and sets.
\<close>

record Crypto =
  hmacBytes :: "byte list \<Rightarrow> byte list \<Rightarrow> byte list"
  shaBytes :: "byte list \<Rightarrow> byte list"
  hexString :: "byte list \<Rightarrow> string"
  b64 :: "byte list \<Rightarrow> string"
  unb64 :: "string \<Rightarrow> byte list option"

definition bytes :: "string \<Rightarrow> byte list" where
  "bytes s = map of_char s"

abbreviation nl :: char where "nl \<equiv> CHR 0x0A"

definition StreamProtocol :: string where "StreamProtocol = ''stream-hmac-v1''"
definition StreamNonceBytes :: nat where "StreamNonceBytes = 32"

definition IsStreamingContentType :: "string \<Rightarrow> bool" where
  "IsStreamingContentType contentType =
     (let mediaType = asciiLower (asciiTrim (fst (cut CHR '';'' contentType)))
      in take (length ''application/connect+'') mediaType = ''application/connect+'' \<or>
         take (length ''application/grpc'') mediaType = ''application/grpc'')"

definition streamCanonical :: "string \<Rightarrow> string \<Rightarrow> string \<Rightarrow> string \<Rightarrow> string" where
  "streamCanonical timestamp method path nonce =
     ''ATOL-HMAC-SHA256'' @ nl # StreamProtocol @ nl # timestamp @ nl # method @ nl # path @ nl # nonce"

definition ComputeStreamInit :: "Crypto \<Rightarrow> string \<Rightarrow> string \<Rightarrow> string \<Rightarrow> string \<Rightarrow> string \<Rightarrow> string" where
  "ComputeStreamInit cr secret timestamp method path nonce =
     hexString cr (hmacBytes cr (bytes secret) (bytes (streamCanonical timestamp method path nonce)))"

definition DeriveStreamKey :: "Crypto \<Rightarrow> string \<Rightarrow> string \<Rightarrow> string \<Rightarrow> string \<Rightarrow> string \<Rightarrow> byte list res" where
  "DeriveStreamKey cr secret timestamp method path nonce =
     (case unb64 cr nonce of
        None \<Rightarrow> Inl (Errorf STR ''derive stream key: invalid nonce'' [])
      | Some nonceBytes \<Rightarrow>
          if length nonceBytes \<noteq> StreamNonceBytes then Inl (Errorf STR ''derive stream key: invalid nonce'' [])
          else Inr (hmacBytes cr (bytes secret)
            (bytes ''atol-stream-key/v1'' @ 0 # bytes timestamp @ 0 # bytes method @ 0 # bytes path @ 0 # nonceBytes)))"

definition stringToSign :: "string \<Rightarrow> string \<Rightarrow> string \<Rightarrow> string \<Rightarrow> string" where
  "stringToSign timestamp method path bodyHash =
     ''ATOL-HMAC-SHA256'' @ nl # timestamp @ nl # method @ nl # path @ nl # bodyHash"

definition compute :: "Crypto \<Rightarrow> string \<Rightarrow> string \<Rightarrow> string \<Rightarrow> string \<Rightarrow> string \<Rightarrow> string" where
  "compute cr secret timestamp method path bodyHash =
     hexString cr (hmacBytes cr (bytes secret) (bytes (stringToSign timestamp method path bodyHash)))"

record Request =
  rqContentType :: string
  rqMethod :: string
  rqPath :: string
  rqBody :: "byte list option"
  rqAuthorization :: string

datatype signedBody = Plain "byte list" | StreamBody "byte list" "byte list"

text \<open>\<open>RoundTrip\<close> up to the call of the base transport: the error, or the signed request with its body:
  the bytes as they are, or the source and key of the stream encoder. \<open>nonce\<close> is what the random
  source delivers, \<open>bodyErr\<close> what reading a unary body meets.\<close>

definition RoundTrip ::
    "Crypto \<Rightarrow> string \<Rightarrow> string \<Rightarrow> string \<Rightarrow> byte list res \<Rightarrow> goerror option \<Rightarrow> Request \<Rightarrow> (Request \<times> signedBody) res" where
  "RoundTrip cr keyID secretKey timestamp nonce bodyErr req =
     (if IsStreamingContentType (rqContentType req)
      then (case rqBody req of
              None \<Rightarrow> Inl (Errorf STR ''streaming HMAC request body is required'' [])
            | Some body \<Rightarrow>
                (case nonce of
                   Inl err \<Rightarrow> Inl (Wrapf STR ''generate streaming HMAC nonce: %w'' [] err)
                 | Inr nonceBytes \<Rightarrow>
                     (let n = b64 cr nonceBytes;
                          signature = ComputeStreamInit cr secretKey timestamp (rqMethod req) (rqPath req) n
                      in case DeriveStreamKey cr secretKey timestamp (rqMethod req) (rqPath req) n of
                           Inl err \<Rightarrow> Inl err
                         | Inr streamKey \<Rightarrow>
                             Inr (req\<lparr>rqAuthorization := ''ATOL-HMAC-SHA256 Credential='' @ keyID @ '',Timestamp='' @ timestamp @
                                    '',Signature='' @ signature @ '',Protocol='' @ StreamProtocol @ '',Nonce='' @ n\<rparr>,
                                  StreamBody body streamKey))))
      else (let read = (case rqBody req of None \<Rightarrow> Inr [] | Some b \<Rightarrow> (case bodyErr of Some err \<Rightarrow> Inl err | None \<Rightarrow> Inr b)) in
            case read of
              Inl err \<Rightarrow> Inl (Wrapf STR ''read request body for HMAC: %w'' [] err)
            | Inr bodyBytes \<Rightarrow>
                (let signature = compute cr secretKey timestamp (rqMethod req) (rqPath req) (hexString cr (shaBytes cr bodyBytes))
                 in Inr (req\<lparr>rqAuthorization := ''ATOL-HMAC-SHA256 Credential='' @ keyID @ '',Timestamp='' @ timestamp @
                           '',Signature='' @ signature, rqBody := Some bodyBytes\<rparr>,
                         Plain bodyBytes))))"

lemma sep_inject_last:
  assumes "c \<notin> set a" and "c \<notin> set a'"
  shows "b @ c # a = b' @ c # a' \<longleftrightarrow> b = b' \<and> a = a'"
proof
  assume "b @ c # a = b' @ c # a'"
  then have "rev (b @ c # a) = rev (b' @ c # a')" by (simp only:)
  then have "rev a @ c # rev b = rev a' @ c # rev b'" by simp
  with sep_inject [of c "rev a" "rev a'"] assms show "b = b' \<and> a = a'" by auto
qed simp

definition line :: "string \<Rightarrow> bool" where
  "line s \<longleftrightarrow> nl \<notin> set s"

text \<open>
  What is signed is unambiguous. The string signed for a unary request determines its timestamp,
  method, path and body hash, and the one signed for a stream its timestamp, method, path and nonce,
  whatever bytes the path holds, as long as the other parts are single lines; and no string
  is signed for both protocols, since no timestamp reads as the protocol's name.
\<close>

theorem signing_unambiguous:
  assumes "line ts" "line m" "line h" "line ts'" "line m'" "line h'" and "ts' \<noteq> StreamProtocol"
  shows "(stringToSign ts m p h = stringToSign ts' m' p' h' \<longleftrightarrow> ts = ts' \<and> m = m' \<and> p = p' \<and> h = h') \<and>
    (streamCanonical ts m p h = streamCanonical ts' m' p' h' \<longleftrightarrow> ts = ts' \<and> m = m' \<and> p = p' \<and> h = h') \<and>
    streamCanonical ts m p h \<noteq> stringToSign ts' m' p' h'"
proof -
  have tail: "t @ nl # n @ nl # q @ nl # k = t' @ nl # n' @ nl # q' @ nl # k' \<longleftrightarrow> t = t' \<and> n = n' \<and> q = q' \<and> k = k'"
    if "line t" "line n" "line k" "line t'" "line n'" "line k'" for t n q k t' n' q' k'
    unfolding sep_inject [OF that(1,4) [unfolded line_def]] sep_inject [OF that(2,5) [unfolded line_def]]
      sep_inject_last [OF that(3,6) [unfolded line_def]] by simp
  have "line StreamProtocol" by (simp add: line_def StreamProtocol_def)
  then have "StreamProtocol @ nl # t @ nl # n @ nl # q @ nl # k \<noteq> ts' @ nl # n' @ nl # q' @ nl # k'" for t n q k n' q' k'
    using assms(4,7) sep_inject [of nl StreamProtocol ts'] by (simp add: line_def)
  with tail [OF assms(1-3) assms(4-6)] show ?thesis by (simp add: stringToSign_def streamCanonical_def)
qed

theorem signing_unambiguous_witness:
  "stringToSign ''1700000000'' ''POST'' ''/a'' ''00ff'' \<noteq> stringToSign ''1700000000'' ''POST'' ''/b'' ''00ff'' \<and>
   streamCanonical ''1700000000'' ''POST'' ''/a'' ''n'' \<noteq> stringToSign ''1700000000'' ''POST'' ''/a'' ''n''"
  using signing_unambiguous [of "''1700000000''" "''POST''" "''00ff''" "''1700000000''" "''POST''" "''00ff''" "''/a''" "''/b''"]
    signing_unambiguous [of "''1700000000''" "''POST''" "''n''" "''1700000000''" "''POST''" "''n''" "''/a''" "''/a''"]
  by (simp add: line_def StreamProtocol_def)

end
