(* ===== verification/Client_Keys.thy ===== *)
theory Client_Keys
  imports Hmac_Stream
begin

text \<open>
  Helpers for applications: canonical email addresses and the subjects derived from them
  (\<open>email/email.go\<close>), and the key-encryption key and wrapped data keys of client-side encryption
  (\<open>encryption/encryption.go\<close>).

  Unicode case mapping, normalisation and IDNA, the hash functions and the ciphers are parameters.
  Strings are their bytes.
\<close>

section \<open>Canonical email addresses\<close>

record Unicode =
  toLower :: "string \<Rightarrow> string"
  nfc :: "string \<Rightarrow> string"
  idnaToASCII :: "string \<Rightarrow> string option"

definition maxEmailLen :: nat where "maxEmailLen = 254"

definition trimASCIISpace :: "string \<Rightarrow> string" where
  "trimASCIISpace = asciiTrim"

definition CanonicalEmail :: "Unicode \<Rightarrow> string \<Rightarrow> string res" where
  "CanonicalEmail uni raw =
     (let s = trimASCIISpace raw in
      if s = [] then Inl ErrInvalidEmail
      else if length s > maxEmailLen then Inl ErrInvalidEmail
      else if CHR 0x00 \<in> set s then Inl ErrInvalidEmail
      else if count_list s CHR ''@'' \<noteq> 1 then Inl ErrInvalidEmail
      else (case cut CHR ''@'' s of (local, domain, _) \<Rightarrow>
        if local = [] \<or> domain = [] then Inl ErrInvalidEmail
        else (let canonLocal = nfc uni (toLower uni local) in
              case idnaToASCII uni domain of
                None \<Rightarrow> Inl ErrInvalidEmail
              | Some canonDomain \<Rightarrow>
                  if canonDomain = [] then Inl ErrInvalidEmail else Inr (canonLocal @ ''@'' @ canonDomain))))"

section \<open>Subjects\<close>

definition subjectPrefix :: string where "subjectPrefix = ''em_''"
definition subjectHashBytes :: nat where "subjectHashBytes = 16"

text \<open>\<open>hex.EncodeToString\<close>.\<close>

definition hexDigit :: "nat \<Rightarrow> char" where
  "hexDigit n = ''0123456789abcdef'' ! n"

definition hexEncode :: "byte list \<Rightarrow> string" where
  "hexEncode bs = concat (map (\<lambda>b. [hexDigit (unat b div 16), hexDigit (unat b mod 16)]) bs)"

definition Subject :: "Unicode \<Rightarrow> (byte list \<Rightarrow> byte list) \<Rightarrow> string \<Rightarrow> string res" where
  "Subject uni sha256 raw =
     (case CanonicalEmail uni raw of
        Inl err \<Rightarrow> Inl err
      | Inr canon \<Rightarrow> Inr (subjectPrefix @ hexEncode (take subjectHashBytes (sha256 (bytes canon)))))"

section \<open>Data keys\<close>

record 'g Ciphers =
  hkdfSha256 :: "byte list \<Rightarrow> byte list \<Rightarrow> nat \<Rightarrow> byte list res"
  argon2IDKey :: "byte list \<Rightarrow> byte list \<Rightarrow> nat \<Rightarrow> nat \<Rightarrow> nat \<Rightarrow> nat \<Rightarrow> byte list"
  newCipher :: "byte list \<Rightarrow> 'g res"
  newGCM :: "'g \<Rightarrow> 'g res"
  gcmNonceSize :: "'g \<Rightarrow> nat"
  gcmSeal :: "'g \<Rightarrow> byte list \<Rightarrow> byte list \<Rightarrow> byte list"
  gcmOpen :: "'g \<Rightarrow> byte list \<Rightarrow> byte list \<Rightarrow> byte list res"
  stdEncode :: "byte list \<Rightarrow> string"
  stdDecode :: "string \<Rightarrow> byte list res"

definition argon2Time :: nat where "argon2Time = 1"
definition argon2Memory :: nat where "argon2Memory = 64 * 1024"
definition argon2Threads :: nat where "argon2Threads = 4"
definition argon2KeyLen :: nat where "argon2KeyLen = 32"

definition DeriveKEK :: "'g Ciphers \<Rightarrow> string \<Rightarrow> string \<Rightarrow> string \<Rightarrow> byte list res" where
  "DeriveKEK cs password userID clientID =
     (case hkdfSha256 cs (bytes (userID @ ''|'' @ clientID)) (bytes ''atol-enc-v1'') 16 of
        Inl err \<Rightarrow> Inl (Wrapf STR ''derive salt: %w'' [] err)
      | Inr salt \<Rightarrow> Inr (argon2IDKey cs (bytes password) salt argon2Time argon2Memory argon2Threads argon2KeyLen))"

definition UnwrapDEK :: "'g Ciphers \<Rightarrow> string \<Rightarrow> byte list \<Rightarrow> byte list res" where
  "UnwrapDEK cs wrappedDEKBase64 kek =
     (case stdDecode cs wrappedDEKBase64 of
        Inl err \<Rightarrow> Inl (Wrapf STR ''decode wrapped DEK: %w'' [] err)
      | Inr wrapped \<Rightarrow>
          if length wrapped < 12 then Inl (Errorf STR ''wrapped DEK too short'' [])
          else (case newCipher cs kek of
                  Inl err \<Rightarrow> Inl (Wrapf STR ''create cipher: %w'' [] err)
                | Inr block \<Rightarrow>
                    (case newGCM cs block of
                       Inl err \<Rightarrow> Inl (Wrapf STR ''create GCM: %w'' [] err)
                     | Inr gcm \<Rightarrow>
                         (case gcmOpen cs gcm (take 12 wrapped) (drop 12 wrapped) of
                            Inl err \<Rightarrow> Inl (Wrapf STR ''unwrap DEK: %w'' [] err)
                          | Inr dek \<Rightarrow> Inr dek))))"

text \<open>\<open>random n\<close> is what reading \<open>n\<close> bytes from the random source meets. \<open>Seal\<close> appends to the nonce.\<close>

definition WrapDEK :: "'g Ciphers \<Rightarrow> (nat \<Rightarrow> byte list res) \<Rightarrow> byte list \<Rightarrow> byte list \<Rightarrow> string res" where
  "WrapDEK cs random dek kek =
     (case newCipher cs kek of
        Inl err \<Rightarrow> Inl (Wrapf STR ''create cipher: %w'' [] err)
      | Inr block \<Rightarrow>
          (case newGCM cs block of
             Inl err \<Rightarrow> Inl (Wrapf STR ''create GCM: %w'' [] err)
           | Inr gcm \<Rightarrow>
               (case random (gcmNonceSize cs gcm) of
                  Inl err \<Rightarrow> Inl (Wrapf STR ''generate nonce: %w'' [] err)
                | Inr nonce \<Rightarrow> Inr (stdEncode cs (nonce @ gcmSeal cs gcm nonce dek)))))"

section \<open>Canonical forms are stable\<close>

text \<open>
  What the Unicode libraries promise: case mapping followed by normalisation is stable and changes
  neither separators nor a leading blank; IDNA output is ASCII host text that maps to itself.
\<close>

definition unicode_stable :: "Unicode \<Rightarrow> bool" where
  "unicode_stable uni \<longleftrightarrow>
     (\<forall>l. let c = nfc uni (toLower uni l) in
        nfc uni (toLower uni c) = c \<and> (c = [] \<longleftrightarrow> l = []) \<and> (l \<noteq> [] \<and> \<not> asciiSpace (hd l) \<longrightarrow> \<not> asciiSpace (hd c)) \<and>
        (\<forall>x \<in> {CHR ''@'', CHR 0x00}. x \<in> set c \<longleftrightarrow> x \<in> set l)) \<and>
     (\<forall>d a. idnaToASCII uni d = Some a \<longrightarrow> idnaToASCII uni a = Some a \<and>
        (\<forall>x \<in> set a. \<not> asciiSpace x \<and> x \<noteq> CHR ''@'' \<and> x \<noteq> CHR 0x00))"

lemma dropWhile_hd: "t \<noteq> [] \<Longrightarrow> \<not> P (hd t) \<Longrightarrow> dropWhile P t = t"
  by (cases t) auto

lemma asciiTrim_id: "s \<noteq> [] \<Longrightarrow> \<not> asciiSpace (hd s) \<Longrightarrow> \<not> asciiSpace (last s) \<Longrightarrow> asciiTrim s = s"
  by (simp add: asciiTrim_def dropWhile_hd hd_rev)

lemma asciiTrim_hd: "asciiTrim s \<noteq> [] \<Longrightarrow> \<not> asciiSpace (hd (asciiTrim s))"
proof -
  let ?t = "dropWhile asciiSpace s"
  assume ne: "asciiTrim s \<noteq> []"
  have "?t = asciiTrim s @ rev (takeWhile asciiSpace (rev ?t))"
    by (metis asciiTrim_def rev_append rev_rev_ident takeWhile_dropWhile_id)
  then have "?t \<noteq> [] \<and> hd ?t = hd (asciiTrim s)" using ne by (metis append_is_Nil_conv hd_append)
  then show ?thesis using hd_dropWhile [of asciiSpace s] by auto
qed

lemma CanonicalEmail_ok:
  assumes "CanonicalEmail uni raw = Inr c"
  obtains l d a where "asciiTrim raw = l @ CHR ''@'' # d" "l \<noteq> []" "CHR ''@'' \<notin> set l" "CHR 0x00 \<notin> set l" "idnaToASCII uni d = Some a" "a \<noteq> []"
    "c = nfc uni (toLower uni l) @ ''@'' @ a"
proof -
  obtain l d f where k: "cut CHR ''@'' (asciiTrim raw) = (l, d, f)" using prod_cases3 by blast
  from assms k have ne: "l \<noteq> []" "d \<noteq> []" and z: "CHR 0x00 \<notin> set (asciiTrim raw)"
    by (auto simp: CanonicalEmail_def trimASCIISpace_def Let_def split: if_splits)
  from k ne have f: "f = True" by (metis cut_not_found)
  from assms k ne obtain a where "idnaToASCII uni d = Some a" "a \<noteq> []" "c = nfc uni (toLower uni l) @ ''@'' @ a"
    by (auto simp: CanonicalEmail_def trimASCIISpace_def Let_def split: if_splits option.splits)
  with cut_found [OF k [unfolded f]] ne z show thesis by (intro that [of l d a]) auto
qed

text \<open>
  The canonical form is a normal form. With the documented stability of the Unicode
  libraries, the canonical form of an address, as long as it fits the length limit itself, is its own
  canonical form, so the subject of an address and of its canonical form agree.
\<close>

lemma canonical_stable:
  assumes "unicode_stable uni" and "CanonicalEmail uni raw = Inr c" and "length c \<le> maxEmailLen"
  shows "CanonicalEmail uni c = Inr c \<and> Subject uni sha256 c = Subject uni sha256 raw"
proof -
  from assms(2) obtain l d a where l: "asciiTrim raw = l @ CHR ''@'' # d" "l \<noteq> []" "CHR ''@'' \<notin> set l" "CHR 0x00 \<notin> set l"
    and d: "idnaToASCII uni d = Some a" "a \<noteq> []" and c: "c = nfc uni (toLower uni l) @ ''@'' @ a"
    by (rule CanonicalEmail_ok)
  let ?l = "nfc uni (toLower uni l)"
  have "\<not> asciiSpace (hd l)" using asciiTrim_hd [of raw] l(1,2) by simp
  with assms(1) l have cl: "nfc uni (toLower uni ?l) = ?l" "?l \<noteq> []" "\<not> asciiSpace (hd ?l)" "CHR ''@'' \<notin> set ?l" "CHR 0x00 \<notin> set ?l"
    by (auto simp: unicode_stable_def Let_def)
  from assms(1) d(1) have "idnaToASCII uni a = Some a \<and> (\<forall>x \<in> set a. \<not> asciiSpace x \<and> x \<noteq> CHR ''@'' \<and> x \<noteq> CHR 0x00)"
    unfolding unicode_stable_def by blast
  with d(2) have ca: "idnaToASCII uni a = Some a" "\<not> asciiSpace (last a)" "CHR ''@'' \<notin> set a" "CHR 0x00 \<notin> set a"
    by auto
  have "asciiTrim c = c" by (rule asciiTrim_id) (use c cl ca d(2) in auto)
  moreover have "count_list c CHR ''@'' = 1" using c cl(4) ca(3) by (simp add: count_list_0_iff)
  moreover have "cut CHR ''@'' c = (?l, a, True)" using cut_append [OF cl(4), of a] c by simp
  ultimately have "CanonicalEmail uni c = Inr c"
    using c cl ca d(2) assms(3) by (simp add: CanonicalEmail_def trimASCIISpace_def Let_def)
  with assms(2) show ?thesis by (simp add: Subject_def)
qed

lemma Subject_length:
  assumes "Subject uni sha256 raw = Inr s" and "\<And>m. length (sha256 m) = 32"
  shows "length s = 35"
proof -
  have "length (hexEncode bs) = 2 * length bs" for bs by (induction bs) (simp_all add: hexEncode_def)
  with assms show ?thesis
    by (auto simp: Subject_def subjectPrefix_def subjectHashBytes_def split: sum.splits)
qed

section \<open>Wrapped keys\<close>

text \<open>
  What was wrapped is unwrapped with the same key, for an authenticated cipher that opens what it
  sealed with a 12-byte nonce, and a base64 decoder that undoes the encoder.
\<close>

lemma dek_roundtrip:
  assumes "WrapDEK cs random dek kek = Inr wrapped"
    and "\<And>n bs. random n = Inr bs \<Longrightarrow> length bs = n" and "\<And>g. gcmNonceSize cs g = 12"
    and "\<And>g nonce p. gcmOpen cs g nonce (gcmSeal cs g nonce p) = Inr p" and "\<And>bs. stdDecode cs (stdEncode cs bs) = Inr bs"
  shows "UnwrapDEK cs wrapped kek = Inr dek"
proof -
  from assms(1) obtain block g nonce where "newCipher cs kek = Inr block" "newGCM cs block = Inr g" "random (gcmNonceSize cs g) = Inr nonce"
    "wrapped = stdEncode cs (nonce @ gcmSeal cs g nonce dek)"
    by (auto simp: WrapDEK_def split: sum.splits)
  with assms(2) [of "gcmNonceSize cs g" nonce] assms(3-5) show ?thesis by (simp add: UnwrapDEK_def)
qed

text \<open>The salt does not separate the user from the client: two pairs can share a key.\<close>

lemma DeriveKEK_ambiguous: "DeriveKEK cs password ''a|b'' ''c'' = DeriveKEK cs password ''a'' ''b|c''"
  by (simp add: DeriveKEK_def)

end
