(* ===== verification/Sdk_Metrics.thy ===== *)
theory Sdk_Metrics
  imports Atol_Sdk Dpop
begin

text \<open>
  The collectors an application may register (\<open>metrics.go\<close>, \<open>dpop_metrics.go\<close>): the sync gauges with the re-bootstrap
  counter, and the counters of DPoP outcomes. The Prometheus registry is a parameter: what it answers to the
  registration of a collector, by name. Durations are nanoseconds.
\<close>

section \<open>Sync metrics\<close>

record syncMetrics =
  smConnected :: int
  smLag :: int
  smRebootstraps :: nat
  smLastRebootstraps :: nat

definition newSyncMetrics :: "(string \<Rightarrow> 'r \<Rightarrow> goerror option \<times> 'r) \<Rightarrow> 'r \<Rightarrow> syncMetrics res \<times> 'r" where
  "newSyncMetrics register reg =
     (case first_err_st register [''atol_sdk_sync_connected'', ''atol_sdk_sync_lag_seconds'', ''atol_sdk_sync_rebootstraps_total''] reg of
        (Some err, reg') \<Rightarrow> (Inl err, reg')
      | (None, reg') \<Rightarrow> (Inr \<lparr>smConnected = 0, smLag = 0, smRebootstraps = 0, smLastRebootstraps = 0\<rparr>, reg'))"

definition observe :: "SyncStatus \<Rightarrow> syncMetrics \<Rightarrow> syncMetrics" where
  "observe s m =
     (let m1 = m\<lparr>smConnected := (if ssConnected s then 1 else 0), smLag := ssLag s\<rparr> in
      if ssRebootstraps s > smLastRebootstraps m1
      then m1\<lparr>smRebootstraps := smRebootstraps m1 + (ssRebootstraps s - smLastRebootstraps m1), smLastRebootstraps := ssRebootstraps s\<rparr>
      else m1)"

text \<open>What the refresh loop pushes, one status per tick.\<close>

definition observeAll :: "SyncStatus list \<Rightarrow> syncMetrics \<Rightarrow> syncMetrics" where
  "observeAll = fold observe"

section \<open>DPoP outcomes\<close>

type_synonym dpopMetrics = "(string \<times> nat) list"

definition newDPoPMetrics :: "(string \<Rightarrow> 'r \<Rightarrow> goerror option \<times> 'r) \<Rightarrow> 'r \<Rightarrow> dpopMetrics res \<times> 'r" where
  "newDPoPMetrics register reg =
     (case register ''atol_sdk_dpop_outcomes_total'' reg of
        (Some err, reg') \<Rightarrow> (Inl err, reg')
      | (None, reg') \<Rightarrow> (Inr [], reg'))"

definition outcomeCount :: "string \<Rightarrow> dpopMetrics \<Rightarrow> nat" where
  "outcomeCount reason m = (case map_of m reason of None \<Rightarrow> 0 | Some n \<Rightarrow> n)"

text \<open>A nil collector records nothing.\<close>

definition recordReason :: "string \<Rightarrow> dpopMetrics option \<Rightarrow> dpopMetrics option" where
  "recordReason reason m = map_option (\<lambda>m. AList.update reason (Suc (outcomeCount reason m)) m) m"

definition recordOutcome :: "goerror option \<Rightarrow> dpopMetrics option \<Rightarrow> dpopMetrics option" where
  "recordOutcome err m = (case m of None \<Rightarrow> None | Some _ \<Rightarrow> recordReason (dpopReason err) m)"

text \<open>\<open>Validate\<close> with its metrics: a missing header returns before the outcome is recorded.\<close>

definition ValidateCounted ::
    "('tok, 'key) Jose \<Rightarrow> (string \<Rightarrow> string) \<Rightarrow> (string \<Rightarrow> string) \<Rightarrow> 'g guard \<Rightarrow> DPoPValidator \<Rightarrow> int \<Rightarrow> int \<Rightarrow>
     HttpRequest \<Rightarrow> string \<Rightarrow> string \<Rightarrow> 'g \<times> dpopMetrics option \<Rightarrow> DPoPProof res \<times> 'g \<times> dpopMetrics option" where
  "ValidateCounted js lower trim ck v now guardNow r expectedJKT accessToken gm =
     (case gm of (g, m) \<Rightarrow>
        if Header_Get ''DPoP'' r = [] then (Inl ErrDPoPMissing, g, m)
        else case Validate js lower trim ck v now guardNow r expectedJKT accessToken g of
          (res, g') \<Rightarrow> (res, g', recordOutcome (case res of Inl err \<Rightarrow> Some err | Inr _ \<Rightarrow> None) m))"

section \<open>What the sync collectors show\<close>

lemma observe_last:
  assumes "smRebootstraps m = smLastRebootstraps m"
  shows "smRebootstraps (observe s m) = max (smRebootstraps m) (ssRebootstraps s)"
    and "smLastRebootstraps (observe s m) = smRebootstraps (observe s m)"
  using assms by (simp_all add: observe_def Let_def)

lemma Max_insert_max:
  fixes x y :: nat
  assumes "finite A"
  shows "Max (insert (max x y) A) = Max (insert x (insert y A))"
  using assms by (cases "A = {}") (simp_all add: max.assoc)

lemma observeAll_max:
  assumes "smRebootstraps m = smLastRebootstraps m"
  shows "smRebootstraps (observeAll ss m) = Max (ssRebootstraps ` set ss \<union> {smRebootstraps m})"
  using assms
proof (induction ss arbitrary: m)
  case (Cons s ss)
  have "observeAll (s # ss) m = observeAll ss (observe s m)" by (simp add: observeAll_def)
  with Cons.IH [of "observe s m"] observe_last [OF Cons.prems] show ?case by (simp add: Max_insert_max [of "ssRebootstraps ` set ss"] insert_commute max.commute)
qed (simp add: observeAll_def)

text \<open>
  After any number of refreshes the counter is the largest number of re-bootstraps that a status reported, and the gauge is what the
  last one reported.
\<close>

lemma sync_metrics_observed:
  assumes "newSyncMetrics register reg = (Inr m, reg')"
  shows "smRebootstraps (observeAll ss m) = Max (insert 0 (ssRebootstraps ` set ss))"
    and "ss \<noteq> [] \<Longrightarrow> smConnected (observeAll ss m) = (if ssConnected (last ss) then 1 else 0) \<and> smLag (observeAll ss m) = ssLag (last ss)"
proof -
  from assms have m: "m = \<lparr>smConnected = 0, smLag = 0, smRebootstraps = 0, smLastRebootstraps = 0\<rparr>"
    by (auto simp: newSyncMetrics_def split: prod.splits option.splits)
  show "smRebootstraps (observeAll ss m) = Max (insert 0 (ssRebootstraps ` set ss))" using observeAll_max [of m ss] by (simp add: m)
  show "smConnected (observeAll ss m) = (if ssConnected (last ss) then 1 else 0) \<and> smLag (observeAll ss m) = ssLag (last ss)" if "ss \<noteq> []"
    using that by (cases ss rule: rev_cases) (simp_all add: observeAll_def observe_def Let_def)
qed

text \<open>A re-bootstrap of the periodic ticker is not among those a status reports: only the sync client counts its own.\<close>

definition reported :: "('n, 'c, 'st, 'q) Atol \<Rightarrow> nat option" where
  "reported a = map_option rebootstraps (aSync a)"

lemma reported_setEngines [simp]: "reported (setEngines pe a) = reported a" "reported (setZanzibar z a) = reported a"
  by (simp_all add: reported_def setZanzibar_def setEngines_def split: option.split)

lemma reported_materialize: "reported (snd (materializeLoop names firstErr a)) = reported a"
proof (induction names firstErr a rule: materializeLoop.induct)
  case (2 name names firstErr a)
  have "reported (snd (Materialize name a)) = reported a" by (auto simp: Materialize_def split: option.split sum.split)
  with 2 show ?case by (cases "Materialize name a"; cases "fst (Materialize name a)") auto
qed simp

lemma rebootstrap_unreported: "reported (snd (rebootstrap opa unm ctx resp a)) = reported a"
proof -
  have m: "reported a1 = reported a0" if "MaterializeAll a0 = (e, a1)" for a0 a1 :: "('a, 'b, 'c, 'd) Atol" and e
    using that reported_materialize [of "map fst (aMaterializers a0)" None a0] by (simp add: MaterializeAll_def)
  have l: "reported (snd (bootstrapLoad opa unm ctx resp a)) = reported a"
    by (auto simp: bootstrapLoad_def split: prod.split sum.split option.split dest!: m)
  have b: "reported (snd (bindTenant tid a)) = reported a" for tid and a :: "('a, 'b, 'c, 'd) Atol"
    by (simp add: bindTenant_def split: prod.split)
  obtain r a1 where bl: "bootstrapLoad opa unm ctx resp a = (r, a1)" by fastforce
  show ?thesis
  proof (cases r)
    case (Inr result)
    obtain e a2 where bt: "bindTenant (brTenantID result) a1 = (e, a2)" by fastforce
    have "reported a2 = reported a" using l b [of "brTenantID result" a1] bl bt by simp
    with bl bt Inr show ?thesis
      by (cases e) (auto simp: rebootstrap_def Let_def reported_def markBootstrapped_def SeedPolicyData_def split: option.split)
  qed (use l bl in \<open>simp add: rebootstrap_def\<close>)
qed

section \<open>What the DPoP counters show\<close>

lemma outcomeCount_record:
  "outcomeCount reason (AList.update reason' n m) = (if reason' = reason then n else outcomeCount reason m)"
  by (simp add: outcomeCount_def update_conv')

record httpCall =
  hcNow :: int
  hcGuardNow :: int
  hcRequest :: HttpRequest
  hcJKT :: string
  hcToken :: string

fun countedRun ::
    "('tok, 'key) Jose \<Rightarrow> (string \<Rightarrow> string) \<Rightarrow> (string \<Rightarrow> string) \<Rightarrow> 'g guard \<Rightarrow> DPoPValidator \<Rightarrow> httpCall list \<Rightarrow>
     'g \<times> dpopMetrics option \<Rightarrow> DPoPProof res list \<times> 'g \<times> dpopMetrics option" where
  "countedRun js lw tr ck v [] gm = ([], gm)"
| "countedRun js lw tr ck v (c # cs) gm =
     (case ValidateCounted js lw tr ck v (hcNow c) (hcGuardNow c) (hcRequest c) (hcJKT c) (hcToken c) gm of
        (res, gm') \<Rightarrow> (case countedRun js lw tr ck v cs gm' of (rs, gm'') \<Rightarrow> (res # rs, gm'')))"

text \<open>The number of answers with a property, among the requests that carried a proof header.\<close>

definition answered :: "(DPoPProof res \<Rightarrow> bool) \<Rightarrow> httpCall list \<Rightarrow> DPoPProof res list \<Rightarrow> nat" where
  "answered P cs rs = length (filter (\<lambda>(c, res). Header_Get ''DPoP'' (hcRequest c) \<noteq> [] \<and> P res) (zip cs rs))"

text \<open>What the label of a counter stands for.\<close>

definition failed_with :: "goerror \<Rightarrow> DPoPProof res \<Rightarrow> bool" where
  "failed_with sentinel res = (case res of Inl err \<Rightarrow> errors_Is err sentinel | Inr _ \<Rightarrow> False)"

definition means :: "string \<Rightarrow> DPoPProof res \<Rightarrow> bool" where
  "means reason res \<longleftrightarrow>
     (if reason = ''accepted'' then \<exists>p. res = Inr p
      else if reason = ''key_mismatch'' then failed_with ErrDPoPJKTMismatch res
      else if reason = ''replay'' then failed_with ErrDPoPReplay res
      else if reason = ''ath_mismatch'' then failed_with ErrDPoPATHMismatch res
      else reason = ''rejected'' \<and> (\<exists>err. res = Inl err) \<and> \<not> failed_with ErrDPoPJKTMismatch res \<and>
        \<not> failed_with ErrDPoPReplay res \<and> \<not> failed_with ErrDPoPATHMismatch res)"

lemma errors_Is_sentinel:
  "errors_Is err ErrDPoPJKTMismatch \<Longrightarrow> \<not> errors_Is err ErrDPoPReplay \<and> \<not> errors_Is err ErrDPoPATHMismatch"
  "errors_Is err ErrDPoPReplay \<Longrightarrow> \<not> errors_Is err ErrDPoPATHMismatch"
  by (induction err) auto

lemma means_reason: "means reason res \<longleftrightarrow> reason = dpopReason (case res of Inl err \<Rightarrow> Some err | Inr _ \<Rightarrow> None)"
  by (cases res) (auto simp: means_def failed_with_def dpopReason_def dest: errors_Is_sentinel)

lemma countedRun_counts:
  assumes "countedRun js lw tr ck v cs (g, Some m) = (rs, g', m')"
  shows "\<exists>n. m' = Some n \<and> (\<forall>reason. outcomeCount reason n = outcomeCount reason m + answered (means reason) cs rs)"
  using assms
proof (induction cs arbitrary: g m rs)
  case (Cons c cs)
  let ?v = "ValidateCounted js lw tr ck v (hcNow c) (hcGuardNow c) (hcRequest c) (hcJKT c) (hcToken c) (g, Some m)"
  obtain res g1 mo where v: "?v = (res, g1, mo)" by (cases ?v rule: prod_cases3)
  obtain rs' where run: "countedRun js lw tr ck v cs (g1, mo) = (rs', g', m')" and rs: "rs = res # rs'"
    using Cons.prems v by (auto split: prod.splits)
  show ?case
  proof (cases "Header_Get ''DPoP'' (hcRequest c) = []")
    case True
    with v have "mo = Some m" by (auto simp: ValidateCounted_def)
    with Cons.IH [of g1 m rs'] run rs True show ?thesis by (auto simp: answered_def)
  next
    case False
    let ?reason = "dpopReason (case res of Inl err \<Rightarrow> Some err | Inr _ \<Rightarrow> None)"
    from False v have mo: "mo = Some (AList.update ?reason (Suc (outcomeCount ?reason m)) m)"
      by (auto simp: ValidateCounted_def recordOutcome_def recordReason_def split: prod.splits)
    from Cons.IH [OF run [unfolded mo]] show ?thesis
      using False rs by (auto simp: outcomeCount_record answered_def means_reason)
  qed
qed (auto simp: answered_def)

text \<open>
  C39. The DPoP counters tell what the validator answered. Over every sequence of requests, among those that carried a proof header, the counter of
  accepted proofs grew by the number of accepted ones; those of key mismatches, replays and token-hash mismatches by the number of answers
  with exactly this error; that of rejections by the number of all other errors; and no other counter moved. A request without a proof header is refused
  and not counted.
\<close>

theorem dpop_metrics_account:
  assumes "countedRun js lw tr ck v cs (g, Some m) = (rs, g', m')"
  shows "\<exists>n. m' = Some n \<and>
    outcomeCount ''accepted'' n = outcomeCount ''accepted'' m + answered (\<lambda>res. \<exists>p. res = Inr p) cs rs \<and>
    outcomeCount ''key_mismatch'' n = outcomeCount ''key_mismatch'' m + answered (failed_with ErrDPoPJKTMismatch) cs rs \<and>
    outcomeCount ''replay'' n = outcomeCount ''replay'' m + answered (failed_with ErrDPoPReplay) cs rs \<and>
    outcomeCount ''ath_mismatch'' n = outcomeCount ''ath_mismatch'' m + answered (failed_with ErrDPoPATHMismatch) cs rs \<and>
    outcomeCount ''rejected'' n = outcomeCount ''rejected'' m +
      answered (\<lambda>res. (\<exists>err. res = Inl err) \<and> \<not> failed_with ErrDPoPJKTMismatch res \<and> \<not> failed_with ErrDPoPReplay res \<and>
        \<not> failed_with ErrDPoPATHMismatch res) cs rs \<and>
    (\<forall>reason. reason \<notin> {''accepted'', ''key_mismatch'', ''replay'', ''ath_mismatch'', ''rejected''} \<longrightarrow> outcomeCount reason n = outcomeCount reason m)"
proof -
  from countedRun_counts [OF assms] obtain n where m': "m' = Some n" and
    n: "outcomeCount reason n = outcomeCount reason m + answered (means reason) cs rs" for reason by blast
  have "answered (means reason) cs rs = 0" if "reason \<notin> {''accepted'', ''key_mismatch'', ''replay'', ''ath_mismatch'', ''rejected''}" for reason
    using that by (auto simp: answered_def means_def filter_empty_conv)
  moreover have "means ''accepted'' = (\<lambda>res. \<exists>p. res = Inr p)" "means ''key_mismatch'' = failed_with ErrDPoPJKTMismatch"
    "means ''replay'' = failed_with ErrDPoPReplay" "means ''ath_mismatch'' = failed_with ErrDPoPATHMismatch"
    "means ''rejected'' = (\<lambda>res. (\<exists>err. res = Inl err) \<and> \<not> failed_with ErrDPoPJKTMismatch res \<and> \<not> failed_with ErrDPoPReplay res \<and>
        \<not> failed_with ErrDPoPATHMismatch res)"
    by (simp_all add: fun_eq_iff means_def)
  ultimately show ?thesis using m' n by simp
qed

definition sampleCalls :: "httpCall list" where
  "sampleCalls =
     (let r = \<lparr>hrMethod = ''GET'', hrHost = ''rs'', hrPath = ''/a'', hrTLS = True, hrHeaders = [(''DPoP'', ''p1'')], hrRemoteAddr = ''10.0.0.1''\<rparr>;
          c = \<lparr>hcNow = 1010 * seconds, hcGuardNow = 1010 * seconds, hcRequest = r, hcJKT = ''key'', hcToken = ''at''\<rparr>
      in [c, c, c\<lparr>hcRequest := r\<lparr>hrHeaders := []\<rparr>\<rparr>])"

text \<open>A fresh proof, the same again, and a request without one: one accepted, one replay.\<close>

theorem dpop_metrics_account_witness:
  "\<exists>rs g n. countedRun sampleJose asciiLower asciiTrim CheckAndRecord (NewDPoPValidator False) sampleCalls (newMemoryReplayGuard, Some []) = (rs, g, Some n) \<and>
     outcomeCount ''accepted'' n = 1 \<and> outcomeCount ''replay'' n = 1 \<and> outcomeCount ''rejected'' n = 0"
proof -
  let ?r = "countedRun sampleJose asciiLower asciiTrim CheckAndRecord (NewDPoPValidator False) sampleCalls (newMemoryReplayGuard, Some [])"
  obtain rs g m where r: "?r = (rs, g, m)" by (cases ?r rule: prod_cases3)
  have acc: "(\<lambda>res :: DPoPProof res. \<exists>p. res = Inr p) = case_sum (\<lambda>_. False) (\<lambda>_. True)"
    "(\<lambda>res :: DPoPProof res. (\<exists>err. res = Inl err) \<and> \<not> failed_with ErrDPoPJKTMismatch res \<and> \<not> failed_with ErrDPoPReplay res \<and>
        \<not> failed_with ErrDPoPATHMismatch res) =
     case_sum (\<lambda>e. \<not> errors_Is e ErrDPoPJKTMismatch \<and> \<not> errors_Is e ErrDPoPReplay \<and> \<not> errors_Is e ErrDPoPATHMismatch) (\<lambda>_. False)"
    by (auto simp: fun_eq_iff failed_with_def split: sum.splits)
  have "answered (case_sum (\<lambda>_. False) (\<lambda>_. True)) sampleCalls (fst ?r) = 1" "answered (failed_with ErrDPoPReplay) sampleCalls (fst ?r) = 1"
    "answered (case_sum (\<lambda>e. \<not> errors_Is e ErrDPoPJKTMismatch \<and> \<not> errors_Is e ErrDPoPReplay \<and> \<not> errors_Is e ErrDPoPATHMismatch) (\<lambda>_. False))
       sampleCalls (fst ?r) = 0" by code_simp+
  with dpop_metrics_account [OF r, unfolded acc] r show ?thesis by (auto simp: outcomeCount_def)
qed

end
