(* ===== verification/Sdk_Process.thy ===== *)
theory Sdk_Process
  imports Sdk_Serving Sdk_Metrics Auth_Middleware
begin

text \<open>
  The SDK as a process: what \<open>New\<close> builds around the engines (\<open>atol.go\<close>), the goroutines that \<open>New\<close> and \<open>Bootstrap\<close> start,
  and \<open>Close\<close> (\<open>runtime_accessors.go\<close>, \<open>sync_lifecycle.go\<close>, \<open>session_validator.go\<close>, \<open>decision/logger.go\<close>, \<open>metrics.go\<close>).

  A goroutine is a task in a list. It works on events: a frame or a refused token of a sync stream, a tick. An event of a
  sync stream or of the bootstrap ticker first arrives, which it cannot do once the context is cancelled, and is
  handled later, perhaps after the cancellation, as cancelling does not wait. \<open>Go\<close> chooses any ready branch of a
  \<open>select\<close>, so a tick may also win against a closed channel; a bootstrap request under a cancelled context fails.
  Clients that a later \<open>Bootstrap\<close> has replaced keep running on the shared engines.
\<close>

section \<open>State\<close>

datatype task = FlushLoop | PollLoop | BootstrapTicker | SyncRun nat | MetricsRefresh nat

datatype 'g guardChoice = DefaultGuard memoryReplayGuard | CustomGuard 'g

record ('n, 'c, 'st, 'q, 'g, 'k) Process =
  pcAtol :: "('n, 'c, 'st, 'q) Atol"
  pcSigner :: "(string \<times> string) option"
  pcValidator :: "TokenValidator option"
  pcSession :: "SessionValidator option"
  pcDrift :: "DriftDetector option"
  pcDPoP :: DPoPValidator
  pcGuard :: "'g guardChoice"
  pcMetrics :: "syncMetrics option"
  pcDPoPMetrics :: "dpopMetrics option"
  pcSink :: 'k
  pcClients :: nat
  pcFormer :: "(nat \<times> ('n, 'c, 'st, 'q) SdkClient) list"
  pcSyncCancel :: "nat option"
  pcBgCancel :: bool
  pcTasks :: "task list"
  pcDone :: "task list"
  pcPending :: "task list"

section \<open>Construction\<close>

datatype ('r, 'g) NewOption =
    WithLocalOnly | WithDPoPReplayGuard "'g option" | WithMetrics "'r option" | WithMaxStaleness int int | WithBootstrapInterval int

record ('r, 'g) sdkOptions =
  soBase :: newOptions
  soMetrics :: "'r option"
  soReplayGuard :: "'g option"

fun newOption :: "('r, 'g) NewOption \<Rightarrow> ('r, 'g) sdkOptions \<Rightarrow> ('r, 'g) sdkOptions" where
  "newOption WithLocalOnly o1 = o1\<lparr>soBase := (soBase o1)\<lparr>noLocalOnly := True\<rparr>\<rparr>"
| "newOption (WithDPoPReplayGuard g) o1 = o1\<lparr>soReplayGuard := g\<rparr>"
| "newOption (WithMetrics reg) o1 = o1\<lparr>soMetrics := reg\<rparr>"
| "newOption (WithMaxStaleness d md) o1 = o1\<lparr>soBase := (soBase o1)\<lparr>noMaxStaleness := Some d, noStalenessMode := Some md\<rparr>\<rparr>"
| "newOption (WithBootstrapInterval d) o1 = o1\<lparr>soBase := (soBase o1)\<lparr>noBootstrapInterval := Some d\<rparr>\<rparr>"

definition sdkOptionsOf :: "('r, 'g) NewOption list \<Rightarrow> ('r, 'g) sdkOptions" where
  "sdkOptionsOf opts = fold newOption opts
     \<lparr>soBase = \<lparr>noLocalOnly = False, noMaxStaleness = None, noStalenessMode = None, noBootstrapInterval = None\<rparr>, soMetrics = None, soReplayGuard = None\<rparr>"

datatype ValidatorOption = WithRequiredTokenType string

fun validatorOption :: "ValidatorOption \<Rightarrow> TokenValidator \<Rightarrow> TokenValidator" where
  "validatorOption (WithRequiredTokenType typ) v = v\<lparr>tvRequiredType := typ\<rparr>"

definition NewTokenValidator :: "string \<Rightarrow> string \<Rightarrow> ValidatorOption list \<Rightarrow> TokenValidator" where
  "NewTokenValidator issuer audience opts = fold validatorOption opts \<lparr>tvIssuer = issuer, tvAudience = audience, tvRequiredType = []\<rparr>"

definition registerMetrics ::
    "(string \<Rightarrow> 'r \<Rightarrow> goerror option \<times> 'r) \<Rightarrow> 'r option \<Rightarrow> (syncMetrics option \<times> dpopMetrics option) res" where
  "registerMetrics register metricsReg =
     (case metricsReg of
        None \<Rightarrow> Inr (None, None)
      | Some reg \<Rightarrow>
          (case newSyncMetrics register reg of
             (Inl err, _) \<Rightarrow> Inl (Wrapf STR ''register sync metrics: %w'' [] err)
           | (Inr m, reg1) \<Rightarrow>
               (case newDPoPMetrics register reg1 of
                  (Inl err, _) \<Rightarrow> Inl (Wrapf STR ''register dpop metrics: %w'' [] err)
                | (Inr dm, _) \<Rightarrow> Inr (Some m, Some dm))))"

text \<open>
  \<open>New\<close>: the result, and the goroutines that are running when it returns. \<open>crl\<close> is the answer to the first poll of revoked sessions. The
  engines are those of \<open>NewAtol\<close>; registering the metrics can only fail after everything else has been built and started.
\<close>

definition NewSdk ::
    "CursorCodec \<Rightarrow> (string \<Rightarrow> yamlModel res) \<Rightarrow> (string \<Rightarrow> string res) \<Rightarrow> (string \<Rightarrow> 'r \<Rightarrow> goerror option \<times> 'r) \<Rightarrow> int \<Rightarrow> 'n \<Rightarrow>
     string list res \<Rightarrow> 'k \<Rightarrow> ('r, 'g) NewOption list \<Rightarrow> Config \<Rightarrow> (('n, 'c, 'st, 'q, 'g, 'k) Process res \<times> task list) option" where
  "NewSdk codec unm readFile register now host crl sink opts config0 =
     (let no = sdkOptionsOf opts; config = newConfig (soBase no) config0 in
      case NewAtol codec unm readFile None now host (soBase no) config0 of
        None \<Rightarrow> None
      | Some (Inl err) \<Rightarrow> Some (Inl err, [])
      | Some (Inr a) \<Rightarrow>
          (let validator = (if cfgJWKSUrl config \<noteq> [] then Some (NewTokenValidator (cfgIssuer config) (cfgAudience config) []) else None);
               flushing = (if aLogger a \<noteq> None then [FlushLoop] else []);
               session = (if cfgControlPlaneURL config \<noteq> [] \<and> validator \<noteq> None
                          then Some (refreshAndRecord (cfgStoreID config) crl NewSessionValidator) else None);
               polling = (if session \<noteq> None then [PollLoop] else []);
               drift = (if cfgDeviceEnabled config \<and> cfgControlPlaneURL config \<noteq> [] then Some (NewDriftDetector 0 0) else None)
           in case registerMetrics register (soMetrics no) of
                Inl err \<Rightarrow> Some (Inl err, polling @ flushing)
              | Inr (metrics, dpopMetrics) \<Rightarrow>
                  (let ticking = (if cfgBootstrapInterval config > 0 then [BootstrapTicker] else []); tasks = ticking @ polling @ flushing in
                   Some (Inr
                     \<lparr>pcAtol = a,
                      pcSigner = (if cfgKeyID config \<noteq> [] \<and> cfgSecretKey config \<noteq> [] then Some (cfgKeyID config, cfgSecretKey config) else None),
                      pcValidator = validator, pcSession = session, pcDrift = drift, pcDPoP = NewDPoPValidator False,
                      pcGuard = (case soReplayGuard no of None \<Rightarrow> DefaultGuard newMemoryReplayGuard | Some g \<Rightarrow> CustomGuard g),
                      pcMetrics = metrics, pcDPoPMetrics = dpopMetrics, pcSink = sink, pcClients = 0, pcFormer = [], pcSyncCancel = None,
                      pcBgCancel = (ticking \<noteq> []), pcTasks = tasks, pcDone = [], pcPending = []\<rparr>, tasks))))"

section \<open>Bootstrap and close\<close>

text \<open>\<open>Bootstrap\<close> with the goroutines it starts: a second one replaces the client and the cancel function.\<close>

definition BootstrapProcess ::
    "('mod, 'c, 'st, 'txn, 'q) OPA \<Rightarrow> (string \<Rightarrow> yamlModel res) \<Rightarrow> Context \<Rightarrow> Snapshot res \<Rightarrow>
     ('n, 'c, 'st, 'q, 'g, 'k) Process \<Rightarrow> goerror option \<times> ('n, 'c, 'st, 'q, 'g, 'k) Process" where
  "BootstrapProcess opa unm ctx resp p =
     (case BootstrapSdk opa unm ctx resp (pcAtol p) of
        (Some err, a) \<Rightarrow> (Some err, p\<lparr>pcAtol := a\<rparr>)
      | (None, a) \<Rightarrow>
          if cfgDisableSync (aConfig (pcAtol p)) then (None, p\<lparr>pcAtol := a\<rparr>)
          else (let n = Suc (pcClients p) in
                (None, p\<lparr>pcAtol := a, pcClients := n,
                  pcFormer := (case aSync (pcAtol p) of None \<Rightarrow> pcFormer p | Some c \<Rightarrow> (pcClients p, c) # pcFormer p),
                  pcSyncCancel := Some n,
                  pcTasks := (if pcMetrics p \<noteq> None then [MetricsRefresh n] else []) @ SyncRun n # pcTasks p\<rparr>)))"

text \<open>One flush of the decision logger.\<close>

definition flushProcess ::
    "(Entry list \<Rightarrow> 'k \<Rightarrow> goerror option \<times> 'k) \<Rightarrow> ('n, 'c, 'st, 'q, 'g, 'k) Process \<Rightarrow> ('n, 'c, 'st, 'q, 'g, 'k) Process" where
  "flushProcess send p =
     (case aLogger (pcAtol p) of
        None \<Rightarrow> p
      | Some l \<Rightarrow> (case flush send l (pcSink p) of (l', k) \<Rightarrow> p\<lparr>pcAtol := (pcAtol p)\<lparr>aLogger := Some l'\<rparr>, pcSink := k\<rparr>))"

text \<open>The two \<open>Stop\<close> methods close a channel, which panics (\<open>None\<close>) when it is closed already. The logger's waits for its goroutine and
  flushes once more.\<close>

definition Stop_Session :: "('n, 'c, 'st, 'q, 'g, 'k) Process \<Rightarrow> ('n, 'c, 'st, 'q, 'g, 'k) Process option" where
  "Stop_Session p = (if PollLoop \<in> set (pcDone p) then None else Some (p\<lparr>pcDone := PollLoop # pcDone p\<rparr>))"

definition Stop_Logger ::
    "(Entry list \<Rightarrow> 'k \<Rightarrow> goerror option \<times> 'k) \<Rightarrow> ('n, 'c, 'st, 'q, 'g, 'k) Process \<Rightarrow> ('n, 'c, 'st, 'q, 'g, 'k) Process option" where
  "Stop_Logger send p =
     (if FlushLoop \<in> set (pcDone p) then None
      else Some (flushProcess send (p\<lparr>pcDone := FlushLoop # pcDone p, pcTasks := removeAll FlushLoop (pcTasks p)\<rparr>)))"

definition Close ::
    "(Entry list \<Rightarrow> 'k \<Rightarrow> goerror option \<times> 'k) \<Rightarrow> ('n, 'c, 'st, 'q, 'g, 'k) Process \<Rightarrow> ('n, 'c, 'st, 'q, 'g, 'k) Process option" where
  "Close send p =
     (let p1 = (case pcSyncCancel p of None \<Rightarrow> p | Some n \<Rightarrow> p\<lparr>pcDone := SyncRun n # MetricsRefresh n # pcDone p\<rparr>);
          p2 = (if pcBgCancel p1 then p1\<lparr>pcDone := BootstrapTicker # pcDone p1\<rparr> else p1)
      in case (if pcSession p2 \<noteq> None then Stop_Session p2 else Some p2) of
           None \<Rightarrow> None
         | Some p3 \<Rightarrow> (if aLogger (pcAtol p3) \<noteq> None then Stop_Logger send p3 else Some p3))"

section \<open>Goroutines\<close>

text \<open>The client a sync goroutine runs: the published one, or a former one, on the shared engines.\<close>

definition clientOf :: "nat \<Rightarrow> ('n, 'c, 'st, 'q, 'g, 'k) Process \<Rightarrow> ('n, 'c, 'st, 'q) SdkClient option" where
  "clientOf n p =
     (if n = pcClients p then aSync (pcAtol p) else map_option (\<lambda>c. c\<lparr>cPolicy := engines (pcAtol p)\<rparr>) (map_of (pcFormer p) n))"

definition putClient ::
    "nat \<Rightarrow> ('n, 'c, 'st, 'q) SdkClient \<Rightarrow> ('n, 'c, 'st, 'q, 'g, 'k) Process \<Rightarrow> ('n, 'c, 'st, 'q, 'g, 'k) Process" where
  "putClient n c p =
     (if n = pcClients p then p\<lparr>pcAtol := (pcAtol p)\<lparr>aSync := Some c\<rparr>\<rparr>
      else p\<lparr>pcAtol := setEngines (cPolicy c) (pcAtol p), pcFormer := AList.update n c (pcFormer p)\<rparr>)"

definition onClient ::
    "nat \<Rightarrow> (('n, 'c, 'st, 'q) SdkClient \<Rightarrow> ('n, 'c, 'st, 'q) SdkClient) \<Rightarrow> ('n, 'c, 'st, 'q, 'g, 'k) Process \<Rightarrow> ('n, 'c, 'st, 'q, 'g, 'k) Process" where
  "onClient n f p = (case clientOf n p of None \<Rightarrow> p | Some c \<Rightarrow> putClient n (f c) p)"

datatype syncEvent = StreamOpened | Frame string int Message | StreamClosed | TokenRefused Context "Snapshot res"

fun syncWork ::
    "('mod, 'c, 'st, 'txn, 'q) SyncEnv \<Rightarrow> nat \<Rightarrow> syncEvent \<Rightarrow> ('n, 'c, 'st, 'q, 'g, 'k) Process \<Rightarrow> ('n, 'c, 'st, 'q, 'g, 'k) Process" where
  "syncWork env n StreamOpened p = onClient n markStreamOpen p"
| "syncWork env n (Frame challenge now msg) p = onClient n (\<lambda>c. snd (receiveLoop env challenge [(now, msg)] c)) p"
| "syncWork env n StreamClosed p = onClient n markStreamClosed p"
| "syncWork env n (TokenRefused ctx resp) p =
     (case rebootstrap (envOPA env) (envYAML env) ctx resp (pcAtol p) of
        (Inl _, a) \<Rightarrow> p\<lparr>pcAtol := a\<rparr>
      | (Inr newToken, a) \<Rightarrow> onClient n (onRebootstrap (envULIDTime env) newToken) (p\<lparr>pcAtol := a\<rparr>))"

text \<open>One tick of \<open>runBootstrapInterval\<close>.\<close>

definition bootstrapTick ::
    "('mod, 'c, 'st, 'txn, 'q) SyncEnv \<Rightarrow> Context \<Rightarrow> Snapshot res \<Rightarrow> ('n, 'c, 'st, 'q, 'g, 'k) Process \<Rightarrow> ('n, 'c, 'st, 'q, 'g, 'k) Process" where
  "bootstrapTick env ctx resp p =
     (if cfgControlPlaneURL (aConfig (pcAtol p)) = [] \<or> cfgStoreID (aConfig (pcAtol p)) = [] then p
      else p\<lparr>pcAtol := snd (rebootstrap (envOPA env) (envYAML env) ctx resp (pcAtol p))\<rparr>)"

definition pollTick :: "string list res \<Rightarrow> ('n, 'c, 'st, 'q, 'g, 'k) Process \<Rightarrow> ('n, 'c, 'st, 'q, 'g, 'k) Process" where
  "pollTick resp p = p\<lparr>pcSession := map_option (refreshAndRecord (cfgStoreID (aConfig (pcAtol p))) resp) (pcSession p)\<rparr>"

definition metricsTick :: "('n, 'c, 'st, 'q, 'g, 'k) Process \<Rightarrow> ('n, 'c, 'st, 'q, 'g, 'k) Process" where
  "metricsTick p = p\<lparr>pcMetrics := map_option (observe (SyncStatus_Atol (pcAtol p))) (pcMetrics p)\<rparr>"

definition takePending :: "task \<Rightarrow> ('n, 'c, 'st, 'q, 'g, 'k) Process \<Rightarrow> ('n, 'c, 'st, 'q, 'g, 'k) Process" where
  "takePending t p = p\<lparr>pcPending := remove1 t (pcPending p)\<rparr>"

inductive bg_step ::
    "('mod, 'c, 'st, 'txn, 'q) SyncEnv \<Rightarrow> (Entry list \<Rightarrow> 'k \<Rightarrow> goerror option \<times> 'k) \<Rightarrow>
     ('n, 'c, 'st, 'q, 'g, 'k) Process \<Rightarrow> ('n, 'c, 'st, 'q, 'g, 'k) Process \<Rightarrow> bool"
  for env send where
  arrive: "t \<in> set (pcTasks p) \<Longrightarrow> t \<notin> set (pcDone p) \<Longrightarrow> t = BootstrapTicker \<or> t = SyncRun n \<Longrightarrow>
    bg_step env send p (p\<lparr>pcPending := t # pcPending p\<rparr>)"
| sync: "SyncRun n \<in> set (pcPending p) \<Longrightarrow> bg_step env send p (syncWork env n ev (takePending (SyncRun n) p))"
| disconnect: "SyncRun n \<in> set (pcTasks p) \<Longrightarrow> bg_step env send p (syncWork env n StreamClosed p)"
| tick: "BootstrapTicker \<in> set (pcPending p) \<Longrightarrow> bg_step env send p (bootstrapTick env ctx resp (takePending BootstrapTicker p))"
| late_tick: "BootstrapTicker \<in> set (pcTasks p) \<Longrightarrow> BootstrapTicker \<in> set (pcDone p) \<Longrightarrow>
    bg_step env send p (bootstrapTick env ctx (Inl err) p)"
| poll: "PollLoop \<in> set (pcTasks p) \<Longrightarrow> bg_step env send p (pollTick resp p)"
| flush: "FlushLoop \<in> set (pcTasks p) \<Longrightarrow> bg_step env send p (flushProcess send p)"
| observed: "MetricsRefresh n \<in> set (pcTasks p) \<Longrightarrow> bg_step env send p (metricsTick p)"
| exit: "t \<in> set (pcTasks p) \<Longrightarrow> t \<in> set (pcDone p) \<Longrightarrow> t \<notin> set (pcPending p) \<Longrightarrow>
    bg_step env send p (p\<lparr>pcTasks := removeAll t (pcTasks p)\<rparr>)"

inductive process_step ::
    "('mod, 'c, 'st, 'txn, 'q) SyncEnv \<Rightarrow> (Entry list \<Rightarrow> 'k \<Rightarrow> goerror option \<times> 'k) \<Rightarrow>
     ('n, 'c, 'st, 'q, 'g, 'k) Process \<Rightarrow> ('n, 'c, 'st, 'q, 'g, 'k) Process \<Rightarrow> bool"
  for env send where
  call: "app_call env (pcAtol p) a \<Longrightarrow> process_step env send p (p\<lparr>pcAtol := a\<rparr>)"
| bootstrap: "process_step env send p (snd (BootstrapProcess (envOPA env) (envYAML env) ctx resp p))"
| background: "bg_step env send p p' \<Longrightarrow> process_step env send p p'"
| close: "Close send p = Some p' \<Longrightarrow> process_step env send p p'"

section \<open>A restriction is final for the process\<close>

lemma sdk_held_engines:
  "engines a' = engines a \<Longrightarrow> aServingGateRequired a' = aServingGateRequired a \<Longrightarrow> sdk_held a a'"
  by (simp add: sdk_held_def sdkZanzibar_def)

lemma onClient_held:
  assumes "\<And>c. held (pZanzibar (cPolicy c)) (pZanzibar (cPolicy (f c)))"
  shows "sdk_held (pcAtol p) (pcAtol (onClient n f p))"
proof (cases "clientOf n p")
  case (Some c)
  show ?thesis
  proof (cases "n = pcClients p")
    case True
    with Some assms [of c] show ?thesis by (simp add: onClient_def putClient_def clientOf_def sdk_held_client)
  next
    case False
    with Some have "cPolicy c = engines (pcAtol p)" by (auto simp: clientOf_def)
    with Some False assms [of c] show ?thesis by (simp add: onClient_def putClient_def sdk_held_setEngines)
  qed
qed (simp add: onClient_def)

lemma syncWork_held: "sdk_held (pcAtol p) (pcAtol (syncWork env n ev p))"
proof (cases ev)
  case (TokenRefused ctx resp)
  obtain r a where rb: "rebootstrap (envOPA env) (envYAML env) ctx resp (pcAtol p) = (r, a)" by fastforce
  have h: "sdk_held (pcAtol p) a" using sdk_held_rebootstrap [of "pcAtol p" "envOPA env" "envYAML env" ctx resp] rb by simp
  show ?thesis
  proof (cases r)
    case (Inr tok)
    have "sdk_held a (pcAtol (onClient n (onRebootstrap (envULIDTime env) tok) (p\<lparr>pcAtol := a\<rparr>)))"
      using onClient_held [of "onRebootstrap (envULIDTime env) tok" "p\<lparr>pcAtol := a\<rparr>" n] by (simp add: onRebootstrap_def)
    with TokenRefused Inr rb h show ?thesis by (simp add: sdk_held_trans [OF h])
  qed (use TokenRefused rb h in simp)
qed (simp_all add: onClient_held held_receiveLoop markStreamOpen_def markStreamClosed_def del: receiveLoop.simps)

lemma flushProcess_atol:
  "engines (pcAtol (flushProcess send p)) = engines (pcAtol p)" "aServingGateRequired (pcAtol (flushProcess send p)) = aServingGateRequired (pcAtol p)"
  "pcTasks (flushProcess send p) = pcTasks p" "pcDone (flushProcess send p) = pcDone p" "pcPending (flushProcess send p) = pcPending p"
  "pcClients (flushProcess send p) = pcClients p" "pcSyncCancel (flushProcess send p) = pcSyncCancel p"
  "pcBgCancel (flushProcess send p) = pcBgCancel p" "pcSession (flushProcess send p) = pcSession p"
  "aLogger (pcAtol (flushProcess send p)) = None \<longleftrightarrow> aLogger (pcAtol p) = None"
  by (auto simp: flushProcess_def engines_def split: option.split prod.split)

lemma bg_step_held: "bg_step env send p p' \<Longrightarrow> sdk_held (pcAtol p) (pcAtol p')"
proof (induction rule: bg_step.induct)
  case (sync n p ev)
  then show ?case using syncWork_held [of "takePending (SyncRun n) p" env n ev] by (simp add: takePending_def)
next
  case (flush p)
  then show ?case by (intro sdk_held_engines) (simp_all add: flushProcess_atol)
qed (simp_all add: bootstrapTick_def takePending_def sdk_held_rebootstrap pollTick_def metricsTick_def syncWork_held [where ev = StreamClosed, simplified])

lemma Close_atol:
  assumes "Close send p = Some p'"
  shows "engines (pcAtol p') = engines (pcAtol p) \<and> aServingGateRequired (pcAtol p') = aServingGateRequired (pcAtol p) \<and> pcClients p' = pcClients p \<and>
    pcPending p' = pcPending p \<and> pcSyncCancel p' = pcSyncCancel p \<and> pcBgCancel p' = pcBgCancel p \<and> pcSession p' = pcSession p \<and>
    set (pcTasks p') \<subseteq> set (pcTasks p)"
  using assms
  by (auto simp: Close_def Stop_Session_def Stop_Logger_def Let_def flushProcess_atol split: option.splits if_splits)

lemma process_step_held: "process_step env send p p' \<Longrightarrow> sdk_held (pcAtol p) (pcAtol p')"
proof (induction rule: process_step.induct)
  case (call p a)
  then show ?case using app_call_held by simp
next
  case (bootstrap p ctx resp)
  have "pcAtol (snd (BootstrapProcess (envOPA env) (envYAML env) ctx resp p)) = snd (BootstrapSdk (envOPA env) (envYAML env) ctx resp (pcAtol p))"
    by (auto simp: BootstrapProcess_def Let_def split: prod.split option.split)
  then show ?case by (simp add: sdk_held_BootstrapSdk)
next
  case (background p p')
  then show ?case by (rule bg_step_held)
next
  case (close p p')
  then show ?case using Close_atol [OF close] by (intro sdk_held_engines) simp_all
qed

lemma process_steps_held: "(process_step env send)\<^sup>*\<^sup>* p p' \<Longrightarrow> sdk_held (pcAtol p) (pcAtol p')"
  by (induction rule: rtranclp_induct) (auto intro: process_step_held sdk_held_trans)

lemma NewSdk_atol:
  assumes "NewSdk codec unm readFile register now host crl sink opts cfg = Some (Inr p, started)"
  shows "NewAtol codec unm readFile None now host (soBase (sdkOptionsOf opts)) cfg = Some (Inr (pcAtol p))"
  using assms by (auto simp: NewSdk_def Let_def split: option.splits sum.splits prod.splits)

text \<open>
  C6. A restriction is final for the whole process. Take an SDK that \<open>New\<close> built with serving enforcement, and any history of the process:
  calls of the application, bootstraps, also repeated ones with their replaced sync clients, the goroutines at work in any order, and \<open>Close\<close>.
  If at its end the gate is restricted, then after any further history a decision of the bound tenant is the restriction's error, of this restriction or
  a newer one, and listings are refused as well.
\<close>

theorem process_restricted_final:
  assumes "NewSdk codec unm readFile register now host crl sink opts cfg = Some (Inr p0, started)" and "aServingGateRequired (pcAtol p0)"
    and "(process_step env send)\<^sup>*\<^sup>* p0 p" and "gRestriction (wGate (sdkWorld (pcAtol p))) = Some r" and "gTenantID (wGate (sdkWorld (pcAtol p))) \<noteq> []"
    and "(process_step env send)\<^sup>*\<^sup>* p p'"
    and "ctxTenant (rcCtx rc) = [] \<or> ctxTenant (rcCtx rc) = gTenantID (wGate (sdkWorld (pcAtol p)))"
  shows "\<exists>r'. rEpoch r \<le> rEpoch r' \<and>
     fst (CanWithDetails opa unm' rc el outer user relation object cts (pcAtol p')) =
       Some (Inl (Wrapf STR ''evaluate policy: %w'' [] (restrictedError r'))) \<and>
     (rcUser rc = Some who \<longrightarrow> fst (Authorize opa unm' rc el outer relation object (pcAtol p')) =
       Some (Inl (Wrapf STR ''evaluate policy: %w'' [] (restrictedError r')))) \<and>
     (\<exists>err. fst (ListObjects_Sdk unm' (rcCtx rc) user relation ty (pcAtol p')) = Some (Inl err) \<and> errors_Is err ErrTenantServingRestricted) \<and>
     (\<exists>err. fst (ListSubjects unm' (rcCtx rc) relation object (pcAtol p')) = Some (Inl err) \<and> errors_Is err ErrTenantServingRestricted)"
proof -
  have "wired (sdkZanzibar (pcAtol p0))" by (rule NewAtol_wired [OF NewSdk_atol [OF assms(1)] assms(2)])
  with process_steps_held [OF assms(3)] assms(2) have wa: "wired (sdkZanzibar (pcAtol p))" "aServingGateRequired (pcAtol p)"
    by (auto simp: sdk_held_def held_def)
  from held_restricted [OF process_steps_held [OF assms(6)] wa assms(4,5)] obtain r' where
    r': "wired (sdkZanzibar (pcAtol p'))" "aServingGateRequired (pcAtol p')" "gRestriction (wGate (sdkWorld (pcAtol p'))) = Some r'" "rEpoch r \<le> rEpoch r'"
    "gTenantID (wGate (sdkWorld (pcAtol p'))) = gTenantID (wGate (sdkWorld (pcAtol p)))" .
  from restricted_refuses [OF r'(1-3)] r'(4,5) assms(5,7) show ?thesis by metis
qed

section \<open>What is running, and what Close stops\<close>

definition logging :: "('n, 'c, 'st, 'q) Atol \<Rightarrow> bool" where
  "logging a \<longleftrightarrow> aLogger a \<noteq> None"

lemma logging_set [simp]:
  "logging (setEngines pe a) = logging a" "logging (setZanzibar z a) = logging a" "logging (logEntry e a) = logging a"
  "logging (markBootstrapped a) = logging a" "logging (a\<lparr>aSync := c\<rparr>) = logging a"
  "logging (a\<lparr>aMaterializers := ms\<rparr>) = logging a"
  by (simp_all add: logging_def setZanzibar_def setEngines_def logEntry_def markBootstrapped_def split: option.split)

lemma logging_evaluateGated: "evaluateGated opa unm ctx el input a = (g, a') \<Longrightarrow> logging a' = logging a"
  by (auto simp: evaluateGated_def split: option.splits if_splits prod.splits)

lemma logging_Materialize: "logging (snd (Materialize name a)) = logging a"
  by (auto simp: Materialize_def split: option.split sum.split)

lemma logging_materializeLoop: "logging (snd (materializeLoop names firstErr a)) = logging a"
proof (induction names firstErr a rule: materializeLoop.induct)
  case (2 name names firstErr a)
  with logging_Materialize [of name a] show ?case by (cases "Materialize name a"; cases "fst (Materialize name a)") auto
qed simp

lemma logging_bootstrapLoad: "bootstrapLoad opa unm ctx resp a = (r, a') \<Longrightarrow> logging a' = logging a"
proof -
  have m: "logging a1 = logging a0" if "MaterializeAll a0 = (e, a1)" for a0 a1 :: "('a, 'b, 'c, 'd) Atol" and e
    using that logging_materializeLoop [of "map fst (aMaterializers a0)" None a0] by (simp add: MaterializeAll_def)
  show "bootstrapLoad opa unm ctx resp a = (r, a') \<Longrightarrow> logging a' = logging a"
    by (auto simp: bootstrapLoad_def split: prod.splits sum.splits option.splits dest!: m)
qed

lemma logging_bindTenant: "bindTenant tid a = (e, a') \<Longrightarrow> logging a' = logging a"
  by (auto simp: bindTenant_def split: prod.splits)

lemma logging_bootstraps:
  "logging (snd (BootstrapSdk opa unm ctx resp a)) = logging a" "logging (snd (rebootstrap opa unm ctx resp a)) = logging a"
  by (auto simp: BootstrapSdk_def rebootstrap_def Let_def split: prod.split sum.split option.split
      dest!: logging_bootstrapLoad logging_bindTenant)

lemma logging_app_call: "app_call env a a' \<Longrightarrow> logging a' = logging a"
proof (induction rule: app_call.induct)
  case (can a rc el outer user relation object cts)
  then show ?case by (auto simp: CanWithDetails_def Let_def split: prod.split option.split dest!: logging_evaluateGated)
next
  case (authorize a rc el outer relation object)
  then show ?case
    by (auto simp: Authorize_def logDecision_def logStaleDeny_def split: prod.split option.split gated.split dest!: logging_evaluateGated)
qed (auto simp: CheckDebug_Sdk_def ListObjects_Sdk_def ListSubjects_def GrantAccess_def RevokeAccess_def RegisterMaterializer_def logging_Materialize
    split: prod.split option.split sum.split tupleWriter.split)

text \<open>Every goroutine but those of replaced sync clients has its cancel function at hand.\<close>

definition process_inv :: "('n, 'c, 'st, 'q, 'g, 'k) Process \<Rightarrow> bool" where
  "process_inv p \<longleftrightarrow>
     (\<forall>n. SyncRun n \<in> set (pcTasks p) \<or> MetricsRefresh n \<in> set (pcTasks p) \<longrightarrow> 1 \<le> n \<and> n \<le> pcClients p) \<and>
     (pcClients p > 0 \<longrightarrow> pcSyncCancel p = Some (pcClients p)) \<and> (BootstrapTicker \<in> set (pcTasks p) \<longrightarrow> pcBgCancel p) \<and>
     (PollLoop \<in> set (pcTasks p) \<longrightarrow> pcSession p \<noteq> None) \<and> (FlushLoop \<in> set (pcTasks p) \<longrightarrow> logging (pcAtol p)) \<and>
     (\<forall>t \<in> set (pcPending p). t = BootstrapTicker \<or> (\<exists>n. t = SyncRun n))"

lemma onClient_frame:
  "pcTasks (onClient n f p) = pcTasks p" "pcDone (onClient n f p) = pcDone p" "pcPending (onClient n f p) = pcPending p"
  "pcClients (onClient n f p) = pcClients p" "pcSyncCancel (onClient n f p) = pcSyncCancel p" "pcBgCancel (onClient n f p) = pcBgCancel p"
  "pcSession (onClient n f p) = pcSession p" "logging (pcAtol (onClient n f p)) = logging (pcAtol p)"
  by (auto simp: onClient_def putClient_def split: option.split)

lemma syncWork_frame:
  "pcTasks (syncWork env n ev p) = pcTasks p" "pcDone (syncWork env n ev p) = pcDone p" "pcPending (syncWork env n ev p) = pcPending p"
  "pcClients (syncWork env n ev p) = pcClients p" "pcSyncCancel (syncWork env n ev p) = pcSyncCancel p" "pcBgCancel (syncWork env n ev p) = pcBgCancel p"
  "pcSession (syncWork env n ev p) = pcSession p" "logging (pcAtol (syncWork env n ev p)) = logging (pcAtol p)"
  using logging_bootstraps(2) [of "envOPA env" "envYAML env" _ _ "pcAtol p"]
  by (cases ev; auto simp: onClient_frame split: prod.splits sum.splits; metis snd_conv)+

lemma bootstrapTick_frame:
  "pcTasks (bootstrapTick env ctx resp p) = pcTasks p" "pcDone (bootstrapTick env ctx resp p) = pcDone p"
  "pcPending (bootstrapTick env ctx resp p) = pcPending p" "pcClients (bootstrapTick env ctx resp p) = pcClients p"
  "pcSyncCancel (bootstrapTick env ctx resp p) = pcSyncCancel p" "pcBgCancel (bootstrapTick env ctx resp p) = pcBgCancel p"
  "pcSession (bootstrapTick env ctx resp p) = pcSession p" "logging (pcAtol (bootstrapTick env ctx resp p)) = logging (pcAtol p)"
  by (auto simp: bootstrapTick_def logging_bootstraps)

lemma logging_flushProcess: "logging (pcAtol (flushProcess send p)) = logging (pcAtol p)"
  by (simp add: logging_def flushProcess_atol)

lemmas process_frames = logging_flushProcess onClient_frame syncWork_frame bootstrapTick_frame flushProcess_atol

lemma bg_step_inv: "bg_step env send p p' \<Longrightarrow> process_inv p \<Longrightarrow> process_inv p'"
  by (induction rule: bg_step.induct)
    (auto simp: process_inv_def process_frames takePending_def pollTick_def metricsTick_def dest: notin_set_remove1
      simp del: syncWork.simps)

lemma process_step_inv:
  assumes "process_step env send p p'" and "process_inv p"
  shows "process_inv p'"
  using assms
proof (induction rule: process_step.induct)
  case (call p a)
  then show ?case using logging_app_call [OF call(1)] by (simp add: process_inv_def)
next
  case (bootstrap p ctx resp)
  obtain r a where b: "BootstrapSdk (envOPA env) (envYAML env) ctx resp (pcAtol p) = (r, a)" by fastforce
  have "logging a = logging (pcAtol p)" using logging_bootstraps(1) [of "envOPA env" "envYAML env" ctx resp "pcAtol p"] b by simp
  with b bootstrap show ?case by (fastforce simp: BootstrapProcess_def process_inv_def Let_def split: option.split)
next
  case (background p p')
  then show ?case using bg_step_inv by blast
next
  case (close p p')
  have "logging (pcAtol p') = logging (pcAtol p)"
    using close(1) by (auto simp: Close_def Stop_Session_def Stop_Logger_def Let_def logging_flushProcess split: option.splits if_splits)
  with Close_atol [OF close(1)] close(2) show ?case by (auto simp: process_inv_def)
qed

lemma NewSdk_inv:
  assumes "NewSdk codec unm readFile register now host crl sink opts cfg = Some (Inr p, started)"
  shows "process_inv p \<and> pcTasks p = started \<and> pcClients p = 0"
proof -
  obtain a where a: "pcAtol p = a" by simp
  note n = NewSdk_atol [OF assms, unfolded a]
  obtain m where m: "registerMetrics register (soMetrics (sdkOptionsOf opts)) = Inr m"
    using assms unfolding NewSdk_def n option.case sum.case Let_def
    by (cases "registerMetrics register (soMetrics (sdkOptionsOf opts))") auto
  from assms show ?thesis unfolding NewSdk_def n option.case sum.case m Let_def
    by (cases m) (auto simp: process_inv_def logging_def)
qed

lemma process_steps_inv: "(process_step env send)\<^sup>*\<^sup>* p p' \<Longrightarrow> process_inv p \<Longrightarrow> process_inv p'"
  by (induction rule: rtranclp_induct) (auto intro: process_step_inv)

text \<open>Everything that runs has been told to stop.\<close>

definition stopping :: "('n, 'c, 'st, 'q, 'g, 'k) Process \<Rightarrow> bool" where
  "stopping p \<longleftrightarrow> set (pcTasks p) \<subseteq> set (pcDone p)"

lemma Close_done:
  assumes "Close send p = Some p'"
  shows "set (pcDone p') = set (pcDone p) \<union> (case pcSyncCancel p of None \<Rightarrow> {} | Some n \<Rightarrow> {SyncRun n, MetricsRefresh n}) \<union>
      (if pcBgCancel p then {BootstrapTicker} else {}) \<union> (if pcSession p \<noteq> None then {PollLoop} else {}) \<union> (if logging (pcAtol p) then {FlushLoop} else {})"
    and "pcTasks p' = (if logging (pcAtol p) then removeAll FlushLoop (pcTasks p) else pcTasks p)"
  using assms
  by (auto simp: Close_def Stop_Session_def Stop_Logger_def Let_def logging_def flushProcess_atol split: option.splits if_splits)

lemma Close_stopping:
  assumes "process_inv p" and "pcClients p \<le> 1" and "Close send p = Some p'"
  shows "stopping p' \<and> FlushLoop \<notin> set (pcTasks p')"
proof -
  have c: "pcSyncCancel p = Some 1 \<and> n = 1" if "SyncRun n \<in> set (pcTasks p) \<or> MetricsRefresh n \<in> set (pcTasks p)" for n
  proof -
    from that assms(1) have "1 \<le> n" "n \<le> pcClients p" unfolding process_inv_def by blast+
    with assms(1,2) show ?thesis by (simp add: process_inv_def)
  qed
  have "t \<in> set (pcDone p') \<and> t \<noteq> FlushLoop" if "t \<in> set (pcTasks p')" for t
  proof -
    from that have t: "t \<in> set (pcTasks p)" "t = FlushLoop \<longrightarrow> \<not> logging (pcAtol p)" unfolding Close_done(2) [OF assms(3)] by (auto split: if_splits)
    have i: "(BootstrapTicker \<in> set (pcTasks p) \<longrightarrow> pcBgCancel p) \<and> (PollLoop \<in> set (pcTasks p) \<longrightarrow> pcSession p \<noteq> None) \<and>
        (FlushLoop \<in> set (pcTasks p) \<longrightarrow> logging (pcAtol p))" using assms(1) by (simp add: process_inv_def)
    note d = Close_done(1) [OF assms(3)]
    show ?thesis
    proof (cases t)
      case (SyncRun n)
      with c [of n] t show ?thesis by (simp add: d)
    next
      case (MetricsRefresh n)
      with c [of n] t show ?thesis by (simp add: d)
    qed (use t i in \<open>simp_all add: d\<close>)
  qed
  then show ?thesis by (auto simp: stopping_def)
qed

text \<open>A run of the goroutines, with the number of its steps that change the engines.\<close>

inductive bg_run ::
    "('mod, 'c, 'st, 'txn, 'q) SyncEnv \<Rightarrow> (Entry list \<Rightarrow> 'k \<Rightarrow> goerror option \<times> 'k) \<Rightarrow> nat \<Rightarrow>
     ('n, 'c, 'st, 'q, 'g, 'k) Process \<Rightarrow> ('n, 'c, 'st, 'q, 'g, 'k) Process \<Rightarrow> bool"
  for env send where
  refl: "bg_run env send 0 p p"
| step: "bg_run env send n p p' \<Longrightarrow> bg_step env send p' p'' \<Longrightarrow>
    bg_run env send (if engines (pcAtol p'') = engines (pcAtol p') then n else Suc n) p p''"

lemma setEngines_id [simp]: "setEngines (engines a) a = a"
  by (simp add: setEngines_def engines_def split: option.split)

lemma cancelled_tick: "engines (pcAtol (bootstrapTick env ctx (Inl err) p)) = engines (pcAtol p)"
  by (simp add: bootstrapTick_def rebootstrap_def bootstrapLoad_def Bootstrap_def)

lemma disconnect_engines: "engines (pcAtol (onClient n markStreamClosed p)) = engines (pcAtol p)"
  by (auto simp: onClient_def putClient_def clientOf_def engines_def setEngines_def markStreamClosed_def split: option.split)

lemma stopping_step:
  assumes "bg_step env send p p'" and "stopping p"
  shows "stopping p' \<and> length (pcPending p') \<le> length (pcPending p) \<and> set (pcTasks p') \<subseteq> set (pcTasks p) \<and>
    (engines (pcAtol p') \<noteq> engines (pcAtol p) \<longrightarrow> length (pcPending p') < length (pcPending p))"
  using assms
proof (induction rule: bg_step.induct)
  case (sync n p ev)
  then show ?case
    by (simp add: stopping_def syncWork_frame takePending_def length_remove1 del: syncWork.simps)
      (use length_pos_if_in_set in fastforce)
next
  case (tick p ctx resp)
  then show ?case
    by (simp add: stopping_def bootstrapTick_frame takePending_def length_remove1) (use length_pos_if_in_set in fastforce)
qed (auto simp: stopping_def process_frames cancelled_tick disconnect_engines pollTick_def metricsTick_def)

lemma stopping_run:
  "bg_run env send n p p' \<Longrightarrow> stopping p \<Longrightarrow>
     stopping p' \<and> n + length (pcPending p') \<le> length (pcPending p) \<and> set (pcTasks p') \<subseteq> set (pcTasks p)"
  by (induction rule: bg_run.induct) (auto dest!: stopping_step)

text \<open>And it can stop: handle what is pending, then return.\<close>

lemma stopping_drains:
  assumes "stopping p" and "\<forall>t \<in> set (pcPending p). t = BootstrapTicker \<or> (\<exists>n. t = SyncRun n)"
  shows "\<exists>p'. (bg_step env send)\<^sup>*\<^sup>* p p' \<and> pcTasks p' = []"
  using assms
proof (induction "length (pcPending p) + length (pcTasks p)" arbitrary: p rule: less_induct)
  case less
  have go: ?case if "bg_step env send p p1" "stopping p1" "set (pcPending p1) \<subseteq> set (pcPending p)"
      "length (pcPending p1) + length (pcTasks p1) < length (pcPending p) + length (pcTasks p)" for p1
    using less(1) [OF that(4,2)] that(1,3) less(3) by (meson converse_rtranclp_into_rtranclp subsetD)
  show ?case
  proof (cases "pcPending p")
    case (Cons t ts)
    with less(3) consider n where "t = SyncRun n" | "t = BootstrapTicker" by auto
    then show ?thesis
    proof cases
      case (1 n)
      then show ?thesis using Cons less(2) bg_step.sync [of n p env send StreamClosed]
        by (intro go [of "syncWork env n StreamClosed (takePending (SyncRun n) p)"])
          (auto simp: syncWork_frame takePending_def stopping_def simp del: syncWork.simps)
    next
      case 2
      then show ?thesis using Cons less(2) bg_step.tick [of p env send "envCtx env" "Inl ErrStale"]
        by (intro go [of "bootstrapTick env (envCtx env) (Inl ErrStale) (takePending BootstrapTicker p)"])
          (auto simp: bootstrapTick_frame takePending_def stopping_def)
    qed
  next
    case Nil
    show ?thesis
    proof (cases "pcTasks p")
      case (Cons t ts)
      then show ?thesis using Nil less(2) bg_step.exit [of t p env send]
        by (intro go [of "p\<lparr>pcTasks := removeAll t (pcTasks p)\<rparr>"]) (auto simp: stopping_def removeAll_filter_not_eq less_Suc_eq_le)
    qed auto
  qed
qed

lemma bg_run_inv: "bg_run env send n p p' \<Longrightarrow> process_inv p \<Longrightarrow> process_inv p'"
  by (induction rule: bg_run.induct) (auto intro: bg_step_inv)

text \<open>
  C15. \<open>Close\<close> quiesces the SDK. Take any history of a process in which at most one bootstrap started a sync client. \<open>Close\<close> leaves the engines alone, and
  afterwards, however the goroutines go on, they change the engines at most once for each event that had arrived before; the log flusher has returned, and
  all goroutines can return.
\<close>

theorem close_quiesces:
  assumes "NewSdk codec unm readFile register now host crl sink opts cfg = Some (Inr p0, started)" and "(process_step env send)\<^sup>*\<^sup>* p0 p"
    and "pcClients p \<le> 1" and "Close send p = Some p1" and "bg_run env send n p1 p2"
  shows "engines (pcAtol p1) = engines (pcAtol p) \<and> n \<le> length (pcPending p) \<and> FlushLoop \<notin> set (pcTasks p2) \<and>
    (\<exists>p3. (bg_step env send)\<^sup>*\<^sup>* p2 p3 \<and> pcTasks p3 = [])"
proof -
  have inv: "process_inv p" using process_steps_inv [OF assms(2)] NewSdk_inv [OF assms(1)] by blast
  note st = Close_stopping [OF inv assms(3,4)] and at = Close_atol [OF assms(4)]
  have "process_inv p1" by (rule process_step_inv [OF process_step.close [OF assms(4)] inv])
  with bg_run_inv [OF assms(5)] have "process_inv p2" by blast
  then have "\<forall>t \<in> set (pcPending p2). t = BootstrapTicker \<or> (\<exists>n. t = SyncRun n)" by (simp add: process_inv_def)
  with stopping_run [OF assms(5)] st stopping_drains [of p2 env send] have "\<exists>p3. (bg_step env send)\<^sup>*\<^sup>* p2 p3 \<and> pcTasks p3 = []" by blast
  with stopping_run [OF assms(5)] st at show ?thesis by auto
qed

text \<open>A second \<open>Close\<close> panics when there is a session validator or a decision logger.\<close>

lemma close_twice_panics:
  assumes "Close send p = Some p1" and "pcSession p \<noteq> None \<or> logging (pcAtol p)"
  shows "Close send p1 = None"
proof -
  have "logging (pcAtol p1) = logging (pcAtol p)"
    using assms(1) by (auto simp: Close_def Stop_Session_def Stop_Logger_def Let_def logging_flushProcess split: option.splits if_splits)
  then have "PollLoop \<in> set (pcDone p1) \<and> pcSession p1 \<noteq> None \<or> FlushLoop \<in> set (pcDone p1) \<and> aLogger (pcAtol p1) \<noteq> None"
    using assms(2) Close_done(1) [OF assms(1)] Close_atol [OF assms(1)] by (auto simp: logging_def)
  then show ?thesis by (auto simp: Close_def Stop_Session_def Stop_Logger_def Let_def split: option.splits)
qed

lemma Close_returns:
  assumes "pcDone p = []"
  obtains p' where "Close send p = Some p'"
proof (cases "Close send p")
  case None
  with assms show ?thesis by (auto simp: Close_def Stop_Session_def Stop_Logger_def Let_def split: option.splits if_splits)
qed auto

section \<open>Sample process\<close>

type_synonym sample_process = "(nat, string, jobj, string, unit, unit) Process"

definition newProcess :: "bool \<Rightarrow> (sample_process res \<times> task list) option" where
  "newProcess registers =
     NewSdk barCodec sampleDecoder (\<lambda>_. Inr ''model'') (\<lambda>_ r. (if registers then None else Some ErrStale, r)) 5 0 (Inr []) ()
       [WithMetrics (Some ()) :: (unit, unit) NewOption, WithBootstrapInterval 60] sampleConfig"

definition accept :: "Entry list \<Rightarrow> unit \<Rightarrow> goerror option \<times> unit" where
  "accept batch k = (None, k)"

fun startedProcess :: "(sample_process res \<times> task list) option \<Rightarrow> sample_process option" where
  "startedProcess (Some (Inr p, _)) = Some p"
| "startedProcess _ = None"

definition bootProcess :: "sample_process \<Rightarrow> sample_process" where
  "bootProcess p = snd (BootstrapProcess (envOPA sampleEnv) (envYAML sampleEnv) rootCtx (Inr (sampleSnapshot ''acme'')) p)"

text \<open>When registering the metrics fails, \<open>New\<close> returns an error, and its goroutines go on with nobody left to stop them.\<close>

lemma new_error_leaks: "\<exists>err. newProcess False = Some (Inl err, [PollLoop, FlushLoop])"
proof -
  have "map_option (map_prod (map_sum (\<lambda>_. ()) (\<lambda>_. ())) (\<lambda>ts. ts)) (newProcess False) = Some (Inl (), [PollLoop, FlushLoop])" by code_simp
  then show ?thesis by (cases "newProcess False"; cases "fst (the (newProcess False))") auto
qed

text \<open>
  \<open>Close\<close> only stops the last sync client: one that a later \<open>Bootstrap\<close> replaced goes on receiving frames, which change the shared engines.
\<close>

lemma replaced_client_survives:
  assumes "process_inv p" and "SyncRun n \<in> set (pcTasks p)" and "n < pcClients p" and "SyncRun n \<notin> set (pcDone p)" and "Close send p = Some p1"
  shows "SyncRun n \<in> set (pcTasks p1) \<and> SyncRun n \<notin> set (pcDone p1) \<and> (bg_step env send)\<^sup>*\<^sup>* p1 (syncWork env n ev p1)"
proof -
  from assms(1,3) have c: "pcSyncCancel p = Some (pcClients p)" by (auto simp: process_inv_def)
  have t: "SyncRun n \<in> set (pcTasks p1)" "SyncRun n \<notin> set (pcDone p1)"
    using Close_done [OF assms(5)] assms(2-4) c by (auto split: if_splits)
  let ?p = "p1\<lparr>pcPending := SyncRun n # pcPending p1\<rparr>"
  have "bg_step env send p1 ?p" using t by (intro bg_step.arrive) auto
  moreover have "bg_step env send ?p (syncWork env n ev (takePending (SyncRun n) ?p))" by (rule bg_step.sync) simp
  ultimately show ?thesis using t by (auto simp: takePending_def simp del: syncWork.simps intro: converse_rtranclp_into_rtranclp)
qed

definition eveFrame :: syncEvent where
  "eveFrame = Frame [] 9 \<lparr>msgTenantId = ''acme'', msgContinuationToken = ''t9'', msgMutation = TupleWrite (Some (''user:eve'', ''viewer'', ''doc:1''))\<rparr>"

lemma replaced_client_writes:
  "map_option (\<lambda>p. map_sum (\<lambda>_. ()) (map UserID)
      (Read (filterOf ''doc'' ''1'' ''viewer'') (tuplesState (sdkZanzibar (pcAtol (syncWork sampleEnv 1 eveFrame (bootProcess (bootProcess p))))))))
     (startedProcess (newProcess True)) = Some (Inr [''ann'', ''eve''])"
  by code_simp

definition sampleProcess :: sample_process where
  "sampleProcess = the (startedProcess (newProcess True))"

lemma sampleProcess_new: "newProcess True = Some (Inr sampleProcess, [BootstrapTicker, PollLoop, FlushLoop])"
proof -
  have "map_option (map_prod (map_sum (\<lambda>_. ()) (\<lambda>_. ())) (\<lambda>ts. ts)) (newProcess True) =
      Some (Inr (), [BootstrapTicker, PollLoop, FlushLoop])" by code_simp
  then show ?thesis unfolding sampleProcess_def by (cases "newProcess True"; cases "fst (the (newProcess True))") auto
qed

lemma bootProcess_step: "process_step sampleEnv send p (bootProcess p)"
  unfolding bootProcess_def by (rule process_step.bootstrap)

lemma frame_steps:
  assumes "SyncRun n \<in> set (pcTasks p)" and "SyncRun n \<notin> set (pcDone p)"
  shows "(process_step env send)\<^sup>*\<^sup>* p (syncWork env n ev p)"
proof -
  let ?p = "p\<lparr>pcPending := SyncRun n # pcPending p\<rparr>"
  have "bg_step env send p ?p" using assms by (intro bg_step.arrive) auto
  moreover have "bg_step env send ?p (syncWork env n ev (takePending (SyncRun n) ?p))" by (rule bg_step.sync) simp
  ultimately show ?thesis
    by (auto simp: takePending_def simp del: syncWork.simps intro: process_step.background converse_rtranclp_into_rtranclp)
qed

definition restrictedProcess :: sample_process where
  "restrictedProcess = syncWork sampleEnv 1 (Frame ''nonce'' (fst restrictFrame) (snd restrictFrame)) (bootProcess sampleProcess)"

lemma booted_process:
  "pcTasks (bootProcess sampleProcess) = [MetricsRefresh 1, SyncRun 1, BootstrapTicker, PollLoop, FlushLoop]"
  "pcDone (bootProcess sampleProcess) = []" "pcClients (bootProcess sampleProcess) = 1"
  by code_simp+

lemma restrictedProcess_steps:
  "(process_step sampleEnv send)\<^sup>*\<^sup>* sampleProcess restrictedProcess"
  unfolding restrictedProcess_def
  by (rule rtranclp_trans, rule r_into_rtranclp, rule bootProcess_step, rule frame_steps) (simp_all add: booted_process)

theorem process_restricted_final_witness:
  "\<exists>r' p. Close accept (bootProcess restrictedProcess) = Some p \<and> 1 \<le> rEpoch r' \<and>
     fst (CanWithDetails sampleOPA sampleDecoder annCtx 1 2 ''user:ann'' ''viewer'' ''doc:1'' [] (pcAtol p)) =
     Some (Inl (Wrapf STR ''evaluate policy: %w'' [] (restrictedError r')))"
proof -
  let ?a = "pcAtol restrictedProcess" and ?p = "bootProcess restrictedProcess"
  have "map_option rEpoch (gRestriction (wGate (sdkWorld ?a))) = Some 1" by code_simp
  then obtain r where r: "gRestriction (wGate (sdkWorld ?a)) = Some r" "rEpoch r = 1" by auto
  have t: "gTenantID (wGate (sdkWorld ?a)) \<noteq> []" "ctxTenant (rcCtx annCtx) = []" "aServingGateRequired (pcAtol sampleProcess)"
    "pcDone ?p = []" by code_simp+
  obtain p where p: "Close accept ?p = Some p" by (rule Close_returns [OF t(4)])
  have later: "(process_step sampleEnv accept)\<^sup>*\<^sup>* restrictedProcess p"
    using bootProcess_step process_step.close [OF p] by (meson converse_rtranclp_into_rtranclp r_into_rtranclp)
  from process_restricted_final [OF sampleProcess_new [unfolded newProcess_def] t(3) restrictedProcess_steps r(1) t(1) later, of annCtx] t(2) r(2) p
  show ?thesis by fastforce
qed

theorem close_quiesces_witness:
  "\<exists>p. Close accept restrictedProcess = Some p \<and> engines (pcAtol p) = engines (pcAtol restrictedProcess) \<and>
     pcTasks restrictedProcess = [MetricsRefresh 1, SyncRun 1, BootstrapTicker, PollLoop, FlushLoop] \<and>
     (\<exists>p'. (bg_step sampleEnv accept)\<^sup>*\<^sup>* p p' \<and> pcTasks p' = [])"
proof -
  have d: "pcDone restrictedProcess = []" "pcClients restrictedProcess \<le> 1"
    "pcTasks restrictedProcess = [MetricsRefresh 1, SyncRun 1, BootstrapTicker, PollLoop, FlushLoop]"
    by (simp_all add: restrictedProcess_def syncWork_frame booted_process del: syncWork.simps)
  obtain p where p: "Close accept restrictedProcess = Some p" by (rule Close_returns [OF d(1)])
  from close_quiesces [OF sampleProcess_new [unfolded newProcess_def] restrictedProcess_steps d(2) p bg_run.refl] p d(3)
  show ?thesis by blast
qed

end
