(* ===== verification/Spec2Isabelle.thy ===== *)
theory Spec2Isabelle
  imports Test_Engine Test_Server Request_Path Client_Keys Sdk_Process
begin

text \<open>
  A verification of the Atol authorization SDK for Go (\<open>src/\<close>).

  \<^bold>\<open>The program.\<close> An application embeds the SDK to decide, in process, who may do what. A relationship engine in the
  style of Zanzibar (\<open>src/zanzibar\<close>) checks graphs of tuples under a compiled model; a policy engine (\<open>src/policy\<close>) runs
  an OPA bundle that may call the relationship check as a built-in, or falls back to it. The engines are filled
  by a bootstrap snapshot and kept current by a stream from the control plane (\<open>src/bootstrap\<close>, \<open>src/sync\<close>), signed with
  HMAC (\<open>src/hmac\<close>). A serving gate, fed by leases and restrictions on that stream, and a staleness gate stop
  decisions when the process may no longer serve its tenant. Every decision is logged (\<open>src/decision\<close>). In front of the
  handlers, middlewares (\<open>src/middleware\<close>, \<open>src/device\<close>) authenticate requests: tokens against a cached key set
  (\<open>src/auth.go\<close>, \<open>src/identity\<close>), revoked sessions, DPoP proofs (\<open>src/dpop.go\<close>), device drift. \<open>src/atoltest\<close> is a kit for the
  tests of applications, \<open>src/email\<close> and \<open>src/encryption\<close> are helpers for clients.

  \<^bold>\<open>Theories and sources.\<close>

  \<^item> \<open>Go_Prelude\<close>: errors with \<open>errors.Is\<close>, results, maps, the \<open>strings\<close> functions that are called, shared lemmas.

  \<^item> \<open>Zanzibar_Model\<close>: \<open>zanzibar/model\<close>. \<open>Compile\<close> and \<open>ValidateTuple\<close>. The compiler accepts exactly the documents whose references
    resolve; an accepted tuple is typed by the model, but for a subject type that spells a userset reference.

  \<^item> \<open>Memory_Store\<close>, \<open>Tuple_Store\<close>, \<open>Store_Pages\<close>: \<open>zanzibar/store\<close>. The store with its two indexes refines a plain set of
    tuples with the documented errors, on every history that avoids the two calls where it departs from its interface (a \<open>Write\<close> of a
    stored tuple, a \<open>DeleteIfAbove\<close> that leaves its minimum), which are lemmas of their own; the interface is the locale
    \<open>tuple_reader\<close> with its extension \<open>tuple_store\<close>, interpreted on the memory store; the pages of a cursor walk join to exactly the matching tuples, or the walk
    ends on a cursor that was issued longer than the decoder accepts.

  \<^item> \<open>Checker\<close>: \<open>zanzibar/check\<close>. \<open>check\<close> with its visited set returns on every model, cyclic ones included, and decides the inductive
    semantics \<open>grants\<close>; \<open>ListObjects\<close> is exact, \<open>ListUsers\<close> where no userset and no tuple-to-userset
    rule is involved, and on a cyclic model it does not return.

  \<^item> \<open>Engine_Models\<close>, \<open>Engine_Tuples\<close>: \<open>zanzibar/zanzibar.go\<close> with \<open>model_cache.go\<close>, \<open>relationships.go\<close>, \<open>pagination.go\<close> and
    \<open>tenant_serving.go\<close>. Model revisions only grow and are durable before they are visible; writes are validated, recorded, applied
    and notified once; batches and replacements are atomic; \<open>DeleteTuple\<close> keeps the holder floor, which
    the raw and batch deletes do not check, and \<open>CanDelete\<close> predicts it in the absence of materialized holders; a closed gate gives no answer.

  \<^item> \<open>Serving_Gate\<close>: \<open>sync/tenant_serving_gate.go\<close>. A decision needs a lease that was accepted within its bound; a restriction is final.

  \<^item> \<open>Policy_Engine\<close>, \<open>Default_Policy\<close>: \<open>policy/engine\<close>, \<open>policy/generate.go\<close>. A result is a relationship check or a decision of the
    required shape, a fallback only where OPA had nothing to say, prepared queries never outlive their bundle; and what the generated
    policy decides, from its generation to the evaluation, under strict built-in errors.

  \<^item> \<open>Sync_Client\<close>, \<open>Decision_Log\<close>: \<open>sync\<close>, \<open>decision\<close>. The continuation token never passes an unapplied mutation, versions
    never decrease, every reconnection has the pause that is due, and only a cancelled context or a refused token ends the loop; every logged decision is accounted for.

  \<^item> \<open>Atol_Sdk\<close>, \<open>Sdk_Serving\<close>: \<open>atol.go\<close>, \<open>config.go\<close>, \<open>check.go\<close>, \<open>staleness.go\<close>, \<open>sync_lifecycle.go\<close>, \<open>bootstrap\<close>,
    \<open>tuple_writer.go\<close>, \<open>access_list.go\<close>, \<open>materializer.go\<close>. Every decision is audited and gated; after a restriction no
    later history decides again; what a first bootstrap leaves, and what a later one adds.

  \<^item> \<open>Hmac_Stream\<close>: \<open>hmac\<close>. Signed streams read back as they were written; without a forged tag in the bytes of the network only a prefix
    of what was signed is delivered.

  \<^item> \<open>Dpop\<close>, \<open>Device_Drift\<close>, \<open>Jwks\<close>, \<open>Auth_Middleware\<close>: \<open>dpop.go\<close>, \<open>device\<close>, \<open>identity/jwks.go\<close>, \<open>auth.go\<close>,
    \<open>session_validator.go\<close>, \<open>middleware\<close>. What an accepted proof and an authenticated request guarantee, no replays while the guard
    holds the proof or after its window (the locale \<open>replay_guard\<close>, interpreted on the in-memory guard), paced key fetches.

  \<^item> \<open>Sdk_Metrics\<close>, \<open>Sdk_Process\<close>: \<open>metrics.go\<close>, \<open>dpop_metrics.go\<close>, \<open>atol.go\<close> (\<open>New\<close> with its options), \<open>runtime_accessors.go\<close>, and the
    goroutines of \<open>sync_lifecycle.go\<close>, \<open>session_validator.go\<close>, \<open>decision/logger.go\<close>, \<open>metrics.go\<close>. The running process: what \<open>New\<close> and each
    \<open>Bootstrap\<close> start, how the goroutines interleave with calls, and \<open>Close\<close>. A restriction is final in every interleaving; after \<open>Close\<close> the
    goroutines handle at most what had arrived, and can all return; each DPoP counter tells how often the validator
    gave its answer.

  \<^item> \<open>Request_Path\<close>: the composition. A request that is authorized under the default policy carried a valid token, with an accepted proof where
    it is bound, and has a grant.

  \<^item> \<open>Client_Keys\<close>: \<open>email\<close>, \<open>encryption\<close>. Canonical addresses are stable, wrapped keys come back.

  \<^item> \<open>Test_Kit\<close>, \<open>Test_Engine\<close>: \<open>atoltest\<close>. Tokens and proofs of the kit pass the real middleware; an engine of the kit decides by
    exactly its model and its tuples. Both also show that the components do not refuse everything.

  \<^item> \<open>Test_Server\<close>: \<open>cmd/atoltest-server\<close>. Its tokens validate against its own discovery document and keys for the announced day.

  \<^bold>\<open>Correspondence.\<close> A struct is a record with the source's fields under a short prefix, a method a function from the
  state to its result and the new state, under the source's name; a suffix (\<open>Check_Engine\<close>, \<open>Check_Sdk\<close>) tells methods of the same name
  apart. Errors are values with the source's format strings, in the left summand or as an option. A mutex makes a method one step;
  histories of callers are lists of steps or inductive relations. Integers are unbounded where the source cannot leave their range,
  otherwise the conversion is written out (\<open>SafeInt32From64\<close>, \<open>int64\<close>, the bytes of frames as words). Times are nanoseconds, and
  each clock reading is an argument, as are the answers of the network.

  \<^bold>\<open>Termination.\<close> A value \<open>None\<close> of an operation is a call that does not return, or a panic where the theory says so. \<open>check\<close>
  and \<open>ListUsers\<close> are partial functions in the option type, and that a check returns is proved. \<open>forceRefresh\<close>
  consumes a list of rounds, and \<open>Run\<close> its sessions, so no fuel bounds a result. One OPA evaluation is a finite tree of
  built-in calls. Goroutines that loop on tickers and streams are the steps they make (\<open>bg_step\<close>), in histories of
  arbitrary length; that they can return after \<open>Close\<close> is proved.

  \<^bold>\<open>Parameters.\<close> Code outside the repository is an argument: the YAML decoder, OPA (\<open>OPA\<close>, \<open>Rego\<close>), the JOSE library
  (\<open>Jose\<close>, \<open>TokenLib\<close>, \<open>Signing\<close>), hashes and ciphers, Unicode and URL functions (\<open>Std\<close>), the cursor codec, model stores, notifiers
  and replay guards of the application. What a theorem needs of one is a named hypothesis, and its witness instantiates it.

  \<^bold>\<open>Not modelled.\<close> Generated protocol code (\<open>gen\<close>), whose messages appear as the records the handlers read; log output and field
  accessors; the wiring of HTTP clients, whose requests are the arguments that carry their answers; the rates of tickers, as a tick may come at any
  step; nil models. A handler is one step: data races between calls that the source does not lock (a \<open>Bootstrap\<close> concurrent with \<open>Close\<close>) are not examined.
\<close>

end
